(* ===== verification/Vaultic_Prelude.thy ===== *)
theory Vaultic_Prelude
  imports Main "HOL-Library.Word" "HOL-Library.AList"
begin

text \<open>
  Shared vocabulary of the development: Go's fixed-width integers and byte slices, the error
  values of the source, the byte-order codecs of \<^verbatim>\<open>encoding/binary\<close> and the generic facts on
  lists, words and association lists that the component theories use.

  \<^item> \<^verbatim>\<open>uint8\<close>, \<^verbatim>\<open>uint32\<close>, \<^verbatim>\<open>uint64\<close> and (on the supported 64-bit platforms) \<^verbatim>\<open>uint\<close> are words,
    so their arithmetic wraps as it does in Go.
  \<^item> A Go \<^verbatim>\<open>error\<close> is a value of \<open>go_error\<close>; a \<^verbatim>\<open>panic\<close> is the constructor \<open>Panic\<close>, so a function
    that can panic has a branch that says so.
  \<^item> A loop that need not end for every state runs on fuel, and \<open>Diverges\<close> is the answer when the fuel
    is used up. The theorems show that it never is on the states the program reaches.
  \<^item> A Go map whose iteration the code uses is an association list with distinct keys.
\<close>

section \<open>Types\<close>

type_synonym u8 = "8 word"
type_synonym u16 = "16 word"
type_synonym u32 = "32 word"
type_synonym u64 = "64 word"
type_synonym bytes = "u8 list"

text \<open>\<^verbatim>\<open>vaultic.ID\<close> is \<^verbatim>\<open>[32]byte\<close>: a byte list, of length 32 where \<open>is_id\<close> says so.\<close>

type_synonym ID = bytes

definition idSize :: nat where
  "idSize = 32"

definition is_id :: "ID \<Rightarrow> bool" where
  "is_id i \<longleftrightarrow> length i = idSize"

datatype go_error =
    Error string
  | Wrap string go_error
  | Join go_error go_error
  | Panic string
  | Diverges

type_synonym 'a result = "go_error + 'a"

fun is_panic :: "'a result \<Rightarrow> bool" where
  "is_panic (Inl (Panic _)) = True"
| "is_panic _ = False"

text \<open>Sequencing of fallible steps: the first error, panic or divergence ends the computation.\<close>

definition rbind :: "'a result \<Rightarrow> ('a \<Rightarrow> 'b result) \<Rightarrow> 'b result" where
  "rbind r f = (case r of Inl e \<Rightarrow> Inl e | Inr x \<Rightarrow> f x)"

fun foldM :: "('s \<Rightarrow> 'a \<Rightarrow> 's result) \<Rightarrow> 's \<Rightarrow> 'a list \<Rightarrow> 's result" where
  "foldM f s [] = Inr s"
| "foldM f s (x # xs) = rbind (f s x) (\<lambda>s'. foldM f s' xs)"

fun mapM :: "('a \<Rightarrow> 'b result) \<Rightarrow> 'a list \<Rightarrow> 'b list result" where
  "mapM f [] = Inr []"
| "mapM f (x # xs) = rbind (f x) (\<lambda>y. rbind (mapM f xs) (\<lambda>ys. Inr (y # ys)))"

lemma rbind_simps [simp]: "rbind (Inl e) f = Inl e" "rbind (Inr x) f = f x"
  by (simp_all add: rbind_def)

lemma rbind_Inr_iff: "rbind r f = Inr y \<longleftrightarrow> (\<exists>x. r = Inr x \<and> f x = Inr y)"
  by (cases r) auto

lemma foldM_append: "foldM f s (xs @ ys) = rbind (foldM f s xs) (\<lambda>s'. foldM f s' ys)"
proof (induction xs arbitrary: s)
  case (Cons x xs)
  then show ?case by (cases "f s x") auto
qed simp

lemma mapM_Inr: "(\<And>x. x \<in> set xs \<Longrightarrow> f x = Inr (g x)) \<Longrightarrow> mapM f xs = Inr (map g xs)"
  by (induction xs) auto

text \<open>The two collections the component proofs are driven by: how a component's operations
  compute on a well-formed state, and which of them keep its invariant.\<close>

named_theorems codec_simps \<open>rewrite rules of the byte codecs\<close>
named_theorems inv_intros \<open>operations that keep a component's invariant\<close>

lemma unat_lt2p: "unat (w :: 'a::len word) < 2 ^ LENGTH('a)"
  by (fact unsigned_less)

lemma unat_pow: "k < 64 \<Longrightarrow> unat (2 ^ k :: u64) = 2 ^ k"
proof -
  assume "k < 64"
  then have "(2 :: nat) ^ k < 2 ^ 64" by (rule power_strict_increasing) simp
  then show ?thesis using unat_of_nat [where 'a = 64, of "2 ^ k"] by simp
qed

lemma sint_small: "unat (idx :: u64) < 2 ^ 63 \<Longrightarrow> sint idx = int (unat idx)"
proof -
  assume "unat idx < 2 ^ 63"
  then have "int (unat idx) < int (2 ^ 63)" by (simp only: of_nat_less_iff)
  then have "uint idx < 2 ^ 63" by simp
  moreover have "- (2 ^ 63) \<le> uint idx" by (rule order_trans [OF _ unsigned_greater_eq]) simp
  ultimately have "signed_take_bit 63 (uint idx) = uint idx" by (intro signed_take_bit_int_eq_self)
  then show ?thesis by (simp add: sint_uint)
qed

section \<open>Byte order\<close>

text \<open>
  \<open>le_bytes n v\<close> are the \<open>n\<close> low bytes of \<open>v\<close>, least significant first, as
  \<^verbatim>\<open>binary.LittleEndian.PutUintN\<close> stores them; \<open>le_val\<close> reads them back as
  \<^verbatim>\<open>binary.LittleEndian.UintN\<close> does. \<open>be_bytes\<close> and \<open>be_val\<close> are the big-endian pair.
\<close>

fun le_bytes :: "nat \<Rightarrow> nat \<Rightarrow> bytes" where
  "le_bytes 0 v = []"
| "le_bytes (Suc n) v = of_nat v # le_bytes n (v div 256)"

fun le_val :: "bytes \<Rightarrow> nat" where
  "le_val [] = 0"
| "le_val (b # bs) = unat b + 256 * le_val bs"

definition be_bytes :: "nat \<Rightarrow> nat \<Rightarrow> bytes" where
  "be_bytes n v = rev (le_bytes n v)"

definition be_val :: "bytes \<Rightarrow> nat" where
  "be_val bs = le_val (rev bs)"

definition put_u32_le :: "u32 \<Rightarrow> bytes" where
  "put_u32_le v = le_bytes 4 (unat v)"

definition u32_le :: "bytes \<Rightarrow> u32" where
  "u32_le bs = of_nat (le_val bs)"

lemma length_le_bytes [simp]: "length (le_bytes n v) = n"
  by (induction n arbitrary: v) auto

lemma length_be_bytes [simp]: "length (be_bytes n v) = n"
  by (simp add: be_bytes_def)

lemma unat_of_nat_u8: "unat (of_nat v :: u8) = v mod 256"
  by (simp add: unat_of_nat)

lemma le_val_le_bytes: "le_val (le_bytes n v) = v mod 256 ^ n"
proof (induction n arbitrary: v)
  case 0
  then show ?case by simp
next
  case (Suc n)
  have "le_val (le_bytes (Suc n) v) = v mod 256 + 256 * (v div 256 mod 256 ^ n)"
    by (simp add: Suc unat_of_nat_u8)
  also have "\<dots> = v mod (256 * 256 ^ n)"
    by (simp add: mod_mult2_eq)
  finally show ?case by simp
qed

lemma le_val_bound: "le_val bs < 256 ^ length bs"
proof (induction bs)
  case Nil
  then show ?case by simp
next
  case (Cons b bs)
  have "unat b < 256" using unat_lt2p [of b] by simp
  moreover have "le_val bs + 1 \<le> 256 ^ length bs" using Cons by simp
  ultimately have "unat b + 256 * le_val bs < 256 * 256 ^ length bs" by linarith
  then show ?case by simp
qed

lemma le_bytes_le_val: "le_bytes (length bs) (le_val bs) = bs"
proof (induction bs)
  case Nil
  then show ?case by simp
next
  case (Cons b bs)
  have b: "unat b < 256" using unat_lt2p [of b] by simp
  have z: "(256 :: u8) = 0" by simp
  have "(of_nat (unat b + 256 * le_val bs) :: u8) = b"
    by (simp add: z)
  moreover have "(unat b + 256 * le_val bs) div 256 = le_val bs"
    using b by simp
  ultimately show ?case using Cons by simp
qed

lemma be_val_be_bytes: "be_val (be_bytes n v) = v mod 256 ^ n"
  by (simp add: be_val_def be_bytes_def le_val_le_bytes)

lemma length_put_u32_le [simp]: "length (put_u32_le v) = 4"
  by (simp add: put_u32_le_def)

lemma u32_le_put [codec_simps, simp]: "u32_le (put_u32_le v) = v"
  using unat_lt2p [of v] by (simp add: u32_le_def put_u32_le_def le_val_le_bytes)

lemma put_u32_le_u32_le [codec_simps]: "length bs = 4 \<Longrightarrow> put_u32_le (u32_le bs) = bs"
proof -
  assume l: "length bs = 4"
  then have "le_val bs < 2 ^ 32" using le_val_bound [of bs] by simp
  then have "unat (of_nat (le_val bs) :: u32) = le_val bs" by (simp add: unat_of_nat)
  then show ?thesis using le_bytes_le_val [of bs] l by (simp add: put_u32_le_def u32_le_def)
qed

section \<open>Slices\<close>

text \<open>Indexing a slice panics out of range.\<close>

definition slice_get :: "'a list \<Rightarrow> nat \<Rightarrow> 'a result" where
  "slice_get xs i = (if i < length xs then Inr (xs ! i) else Inl (Panic ''index out of range''))"

lemma slice_get_ok [simp]: "i < length xs \<Longrightarrow> slice_get xs i = Inr (xs ! i)"
  by (simp add: slice_get_def)

lemma take_drop_append_mid [simp]:
  "take (length ys) (drop (length xs) (xs @ ys @ zs)) = ys"
  by simp

section \<open>Words\<close>

lemma unat_word_inc: "unat (w :: 'a::len word) + 1 < 2 ^ LENGTH('a) \<Longrightarrow> unat (w + 1) = unat w + 1"
  by (simp add: unat_word_ariths)

lemma unat_word_dec: "0 < unat (w :: 'a::len word) \<Longrightarrow> unat (w - 1) = unat w - 1"
  by (metis One_nat_def Suc_leI unat_1 unat_sub word_le_nat_alt)

end
