(* ===== verification/Vaultic_Ids.thy ===== *)
theory Vaultic_Ids
  imports Vaultic_Prelude "HOL-Library.Char_ord"
begin

text \<open>
  Identifiers and blob handles, \<^verbatim>\<open>internal/vaultic\<close> (\<^verbatim>\<open>id.go\<close>, \<^verbatim>\<open>blob.go\<close>): the hexadecimal
  rendering of an ID and its parser, the blob types with their JSON names, and the order on
  handles. \<^verbatim>\<open>encoding/hex\<close> is modelled as the package uses it: lower-case output, and a decoder that
  reads both cases and refuses anything else.
\<close>

section \<open>Hexadecimal\<close>

definition hex_digit :: "nat \<Rightarrow> char" where
  "hex_digit n = ''0123456789abcdef'' ! n"

definition unhex :: "char \<Rightarrow> nat option" where
  "unhex c = (let n = of_char c :: nat in
     if 48 \<le> n \<and> n \<le> 57 then Some (n - 48)
     else if 97 \<le> n \<and> n \<le> 102 then Some (n - 87)
     else if 65 \<le> n \<and> n \<le> 70 then Some (n - 55)
     else None)"

fun hex_EncodeToString :: "bytes \<Rightarrow> string" where
  "hex_EncodeToString [] = []"
| "hex_EncodeToString (b # bs) =
     hex_digit (unat b div 16) # hex_digit (unat b mod 16) # hex_EncodeToString bs"

fun hex_DecodeString :: "string \<Rightarrow> bytes result" where
  "hex_DecodeString [] = Inr []"
| "hex_DecodeString [c] =
     (case unhex c of None \<Rightarrow> Inl (Error ''encoding/hex: invalid byte'')
      | Some _ \<Rightarrow> Inl (Error ''encoding/hex: odd length hex string''))"
| "hex_DecodeString (c # d # s) =
     (case (unhex c, unhex d) of
        (Some h, Some l) \<Rightarrow>
          (case hex_DecodeString s of Inl e \<Rightarrow> Inl e | Inr bs \<Rightarrow> Inr (of_nat (16 * h + l) # bs))
      | _ \<Rightarrow> Inl (Error ''encoding/hex: invalid byte''))"

definition hex_EncodedLen :: "nat \<Rightarrow> nat" where
  "hex_EncodedLen n = 2 * n"

section \<open>IDs\<close>

definition ParseID :: "string \<Rightarrow> ID result" where
  "ParseID s =
     (if length s \<noteq> hex_EncodedLen idSize then Inl (Error ''invalid length for ID'')
      else case hex_DecodeString s of
             Inl e \<Rightarrow> Inl (Wrap ''invalid ID'' e)
           | Inr b \<Rightarrow> Inr b)"

definition ID_String :: "ID \<Rightarrow> string" where
  "ID_String i = hex_EncodeToString i"

definition nullID :: ID where
  "nullID = replicate idSize 0"

definition IsNull :: "ID \<Rightarrow> bool" where
  "IsNull i \<longleftrightarrow> i = nullID"

definition shortStr :: nat where "shortStr = 4"

definition Str :: "ID option \<Rightarrow> string" where
  "Str i = (case i of None \<Rightarrow> ''[nil]''
    | Some i \<Rightarrow> if IsNull i then ''[null]'' else hex_EncodeToString (take shortStr i))"

definition dquote :: char where "dquote = CHR 0x22"

definition ID_MarshalJSON :: "ID \<Rightarrow> string" where
  "ID_MarshalJSON i = dquote # hex_EncodeToString i @ [dquote]"

definition ID_UnmarshalJSON :: "string \<Rightarrow> ID result" where
  "ID_UnmarshalJSON b =
     (if length b \<noteq> 2 + hex_EncodedLen idSize then Inl (Error ''invalid length for ID'')
      else if b ! 0 \<noteq> dquote then Inl (Error ''invalid start of string'')
      else case hex_DecodeString (take (length b - 2) (drop 1 b)) of
             Inl e \<Rightarrow> Inl (Wrap ''invalid ID'' e)
           | Inr i \<Rightarrow> Inr i)"

definition IDFromHash :: "bytes \<Rightarrow> ID result" where
  "IDFromHash h = (if length h \<noteq> idSize
     then Inl (Panic ''invalid hash type, not enough/too many bytes'') else Inr h)"

section \<open>Blob types and handles\<close>

datatype BlobType = InvalidBlob | DataBlob | TreeBlob | NumBlobTypes

definition blob_type_num :: "BlobType \<Rightarrow> nat" where
  "blob_type_num t = (case t of InvalidBlob \<Rightarrow> 0 | DataBlob \<Rightarrow> 1 | TreeBlob \<Rightarrow> 2 | NumBlobTypes \<Rightarrow> 3)"

text \<open>The blob types that index \<^verbatim>\<open>[vaultic.NumBlobTypes]\<close> arrays, in order.\<close>

definition array_blob_types :: "BlobType list" where
  "array_blob_types = [InvalidBlob, DataBlob, TreeBlob]"

definition IsMetadata :: "BlobType \<Rightarrow> bool" where
  "IsMetadata t = (case t of TreeBlob \<Rightarrow> True | _ \<Rightarrow> False)"

definition BlobType_MarshalJSON :: "BlobType \<Rightarrow> string result" where
  "BlobType_MarshalJSON t = (case t of
     DataBlob \<Rightarrow> Inr (dquote # ''data'' @ [dquote])
   | TreeBlob \<Rightarrow> Inr (dquote # ''tree'' @ [dquote])
   | _ \<Rightarrow> Inl (Error ''unknown blob type''))"

definition BlobType_UnmarshalJSON :: "string \<Rightarrow> BlobType result" where
  "BlobType_UnmarshalJSON s =
     (if s = dquote # ''data'' @ [dquote] then Inr DataBlob
      else if s = dquote # ''tree'' @ [dquote] then Inr TreeBlob
      else Inl (Error ''unknown blob type''))"

record BlobHandle =
  bh_ID :: ID
  bh_Type :: BlobType

text \<open>\<^verbatim>\<open>BlobHandles.Less\<close>: bytewise on the IDs, then by type.\<close>

fun id_less :: "ID \<Rightarrow> ID \<Rightarrow> bool \<Rightarrow> bool" where
  "id_less (a # as) (b # bs) tie = (if a = b then id_less as bs tie else a < b)"
| "id_less _ _ tie = tie"

definition BlobHandles_Less :: "BlobHandle \<Rightarrow> BlobHandle \<Rightarrow> bool" where
  "BlobHandles_Less h1 h2 =
     id_less (bh_ID h1) (bh_ID h2) (blob_type_num (bh_Type h1) < blob_type_num (bh_Type h2))"

section \<open>Properties\<close>

lemma unhex_hex_digit: "n < 16 \<Longrightarrow> unhex (hex_digit n) = Some n"
proof -
  have "list_all (\<lambda>n. unhex (hex_digit n) = Some n) [0..<16]" by code_simp
  then show "n < 16 \<Longrightarrow> ?thesis" by (simp add: list_all_iff)
qed

lemma hex_byte: "(of_nat (16 * (unat b div 16) + unat b mod 16) :: u8) = b"
  by simp

lemma length_hex_EncodeToString [simp]: "length (hex_EncodeToString bs) = 2 * length bs"
  by (induction bs) auto

lemma hex_Decode_Encode [codec_simps, simp]: "hex_DecodeString (hex_EncodeToString bs) = Inr bs"
proof (induction bs)
  case Nil
  then show ?case by simp
next
  case (Cons b bs)
  have "unat b < 256" using unat_lt2p [of b] by simp
  then have "unat b div 16 < 16" by simp
  then show ?case using Cons hex_byte [of b] by (simp add: unhex_hex_digit)
qed

lemma hex_DecodeString_length: "hex_DecodeString s = Inr bs \<Longrightarrow> length s = 2 * length bs"
  by (induction s arbitrary: bs rule: hex_DecodeString.induct)
     (auto split: option.splits sum.splits)

lemma ParseID_String: "is_id i \<Longrightarrow> ParseID (ID_String i) = Inr i"
  by (simp add: ParseID_def ID_String_def is_id_def hex_EncodedLen_def)

lemma ParseID_is_id: "ParseID s = Inr i \<Longrightarrow> is_id i"
  by (auto simp: ParseID_def is_id_def hex_EncodedLen_def
      dest: hex_DecodeString_length split: if_splits sum.splits)

lemma ID_JSON_roundtrip: "is_id i \<Longrightarrow> ID_UnmarshalJSON (ID_MarshalJSON i) = Inr i"
  by (simp add: ID_UnmarshalJSON_def ID_MarshalJSON_def is_id_def hex_EncodedLen_def)

lemma BlobType_JSON_roundtrip:
  "BlobType_MarshalJSON t = Inr s \<Longrightarrow> BlobType_UnmarshalJSON s = Inr t"
  by (cases t) (auto simp: BlobType_MarshalJSON_def BlobType_UnmarshalJSON_def)

lemma id_less_irrefl: "id_less a a tie = tie"
  by (induction a) auto

lemma id_less_trans:
  "length a = length b \<Longrightarrow> length b = length c \<Longrightarrow> id_less a b t1 \<Longrightarrow> id_less b c t2 \<Longrightarrow>
     id_less a c (t1 \<and> t2)"
proof (induction a b t1 arbitrary: c rule: id_less.induct)
  case (1 a as b bs tie)
  then show ?case
    by (cases c) (auto split: if_splits)
qed (auto simp: length_0_conv)

lemma id_less_total:
  "length a = length b \<Longrightarrow> a \<noteq> b \<Longrightarrow> id_less a b t1 \<or> id_less b a t2"
  by (induction a b t1 rule: id_less.induct) auto

end
