(* ===== verification/Hashed_Array_Tree.thy ===== *)
theory Hashed_Array_Tree
  imports Vaultic_Ids
begin

text \<open>
  The growable array of \<^verbatim>\<open>internal/repository/index/indexmap.go\<close>: \<^verbatim>\<open>hashedArrayTree\<close> stores index entries in
  a list of equally sized blocks and doubles both the number and the size of the blocks when it
  is full, so that growing never copies the entries into one large slice.

  A nil block is the empty list (allocated blocks are never empty). A pointer into a block is its
  position: \<open>Ref\<close> reads through it and \<open>Ref_set\<close> writes. The locale \<open>entry_store\<close> states what the hash
  table on top relies on; the tree is an instance of it.
\<close>

section \<open>Model\<close>

record indexEntry =
  e_id :: ID
  e_next :: u64
  e_packIndex :: u32
  e_offset :: u32
  e_length :: u32
  e_uncompressedLength :: u32

definition zeroEntry :: indexEntry where
  "zeroEntry = \<lparr>e_id = nullID, e_next = 0, e_packIndex = 0, e_offset = 0, e_length = 0,
                e_uncompressedLength = 0\<rparr>"

record hashedArrayTree =
  h_mask :: u64
  h_maskShift :: u64
  h_blockSize :: u64
  h_size :: u64
  h_blockList :: "indexEntry list list"

text \<open>The zero value of the struct, as in a map that has not been used yet.\<close>

definition zeroHAT :: hashedArrayTree where
  "zeroHAT = \<lparr>h_mask = 0, h_maskShift = 0, h_blockSize = 0, h_size = 0, h_blockList = []\<rparr>"

definition newHAT :: hashedArrayTree where
  "newHAT = (let blockSizePower = 2; blockSize = push_bit blockSizePower 1 in
     \<lparr>h_mask = blockSize - 1, h_maskShift = of_nat blockSizePower, h_blockSize = blockSize,
      h_size = 0, h_blockList = replicate (unat blockSize) []\<rparr>)"

definition hat_index :: "hashedArrayTree \<Rightarrow> u64 \<Rightarrow> u64 \<times> u64" where
  "hat_index h pos = (let subIdx = and pos (h_mask h); idx = drop_bit (unat (h_maskShift h)) pos
     in (idx, subIdx))"

text \<open>\<^verbatim>\<open>h.blockList[idx][subIdx]\<close>, for reading and for writing.\<close>

definition block_get :: "hashedArrayTree \<Rightarrow> u64 \<times> u64 \<Rightarrow> indexEntry result" where
  "block_get h = (\<lambda>(idx, subIdx).
     if unat idx < length (h_blockList h) \<and> unat subIdx < length (h_blockList h ! unat idx)
     then Inr (h_blockList h ! unat idx ! unat subIdx)
     else Inl (Panic ''index out of range''))"

definition block_set :: "hashedArrayTree \<Rightarrow> u64 \<times> u64 \<Rightarrow> indexEntry \<Rightarrow> hashedArrayTree result" where
  "block_set h = (\<lambda>(idx, subIdx) e.
     if unat idx < length (h_blockList h) \<and> unat subIdx < length (h_blockList h ! unat idx)
     then Inr (h\<lparr>h_blockList := (h_blockList h)[unat idx := (h_blockList h ! unat idx)[unat subIdx := e]]\<rparr>)
     else Inl (Panic ''index out of range''))"

definition Ref :: "hashedArrayTree \<Rightarrow> u64 \<Rightarrow> indexEntry result" where
  "Ref h pos = (if h_size h \<le> pos then Inl (Panic ''array index out of bounds'')
     else block_get h (hat_index h pos))"

definition Ref_set :: "hashedArrayTree \<Rightarrow> u64 \<Rightarrow> indexEntry \<Rightarrow> hashedArrayTree result" where
  "Ref_set h pos e = (if h_size h \<le> pos then Inl (Panic ''array index out of bounds'')
     else block_set h (hat_index h pos) e)"

text \<open>The pairwise merge of \<^verbatim>\<open>preallocate\<close>: it stops at the first pair of nil blocks; a block is filled up
  with zero entries to the new block size.\<close>

fun merge_blocks :: "nat \<Rightarrow> indexEntry list list \<Rightarrow> indexEntry list list result" where
  "merge_blocks n [] = Inr []"
| "merge_blocks n [b] = Inl (Panic ''index out of range'')"
| "merge_blocks n (b # b' # bs) =
     (if b = [] \<and> b' = [] then Inr []
      else rbind (merge_blocks n bs) (\<lambda>r. Inr (take n (b @ b' @ replicate n zeroEntry) # r)))"

definition double_blocks :: "hashedArrayTree \<Rightarrow> hashedArrayTree result" where
  "double_blocks h = (let blockSize = h_blockSize h * 2 in
     rbind (merge_blocks (unat blockSize) (h_blockList h)) (\<lambda>bs.
       if unat blockSize < length bs then Inl (Panic ''index out of range'')
       else Inr (h\<lparr>h_blockSize := blockSize, h_mask := h_mask h * 2 + 1, h_maskShift := h_maskShift h + 1,
                   h_blockList := bs @ replicate (unat blockSize - length bs) []\<rparr>)))"

text \<open>The loop halves \<open>idx\<close> in every round, so 64 rounds bring it to 0.\<close>

fun preallocate_loop :: "nat \<Rightarrow> u64 \<Rightarrow> hashedArrayTree \<Rightarrow> hashedArrayTree result" where
  "preallocate_loop 0 idx h = Inl Diverges"
| "preallocate_loop (Suc n) idx h =
     (if int (length (h_blockList h)) \<le> sint idx
      then rbind (double_blocks h) (preallocate_loop n (idx div 2))
      else Inr h)"

definition hat_preallocate :: "hashedArrayTree \<Rightarrow> u64 \<Rightarrow> hashedArrayTree result" where
  "hat_preallocate h numEntries = preallocate_loop 65 (fst (hat_index h (numEntries - 1))) h"

definition hat_grow :: "hashedArrayTree \<Rightarrow> hashedArrayTree result" where
  "hat_grow h = rbind (hat_preallocate h (h_size h + 1)) (\<lambda>h.
     let (idx, subIdx) = hat_index h (h_size h) in
     if subIdx = 0
     then if unat idx < length (h_blockList h)
          then Inr (h\<lparr>h_blockList := (h_blockList h)[unat idx := replicate (unat (h_blockSize h)) zeroEntry]\<rparr>)
          else Inl (Panic ''index out of range'')
     else Inr h)"

text \<open>\<^verbatim>\<open>Alloc\<close> returns a pointer to the entry and its position; the position stands for both.\<close>

definition Alloc :: "hashedArrayTree \<Rightarrow> (hashedArrayTree \<times> u64) result" where
  "Alloc h = rbind (hat_grow h) (\<lambda>h.
     rbind (block_get h (hat_index h (h_size h))) (\<lambda>_.
       Inr (h\<lparr>h_size := h_size h + 1\<rparr>, h_size h)))"

section \<open>Invariant and abstraction\<close>

text \<open>With block size \<open>2 ^ k\<close> there are \<open>2 ^ k\<close> blocks; exactly those that hold a position below the size
  are allocated.\<close>

definition hat_shape :: "nat \<Rightarrow> hashedArrayTree \<Rightarrow> bool" where
  "hat_shape k h \<longleftrightarrow> 1 \<le> k \<and> k \<le> 31 \<and> h_blockSize h = 2 ^ k \<and> h_mask h = mask k \<and> h_maskShift h = of_nat k
     \<and> length (h_blockList h) = 2 ^ k \<and> unat (h_size h) \<le> 2 ^ k * 2 ^ k
     \<and> (\<forall>i < 2 ^ k. length (h_blockList h ! i) = (if i * 2 ^ k < unat (h_size h) then 2 ^ k else 0))"

definition hat_inv :: "hashedArrayTree \<Rightarrow> bool" where
  "hat_inv h \<longleftrightarrow> (\<exists>k \<le> 31. hat_shape k h)"

definition hat_at :: "hashedArrayTree \<Rightarrow> nat \<Rightarrow> indexEntry" where
  "hat_at h i = h_blockList h ! (i div unat (h_blockSize h)) ! (i mod unat (h_blockSize h))"

definition hat_entries :: "hashedArrayTree \<Rightarrow> indexEntry list" where
  "hat_entries h = map (hat_at h) [0 ..< unat (h_size h)]"

lemma length_hat_entries [simp]: "length (hat_entries h) = unat (h_size h)"
  by (simp add: hat_entries_def)

lemma nth_hat_entries: "i < unat (h_size h) \<Longrightarrow> hat_entries h ! i = hat_at h i"
  by (simp add: hat_entries_def)

lemma hat_index_unat:
  assumes "hat_shape k h"
  shows "unat (fst (hat_index h pos)) = unat pos div 2 ^ k" "unat (snd (hat_index h pos)) = unat pos mod 2 ^ k"
proof -
  have k: "k \<le> 31" "h_mask h = mask k" "h_maskShift h = of_nat k" using assms by (auto simp: hat_shape_def)
  have "unat (h_maskShift h) = k" using k by (simp add: unat_of_nat)
  then show "unat (fst (hat_index h pos)) = unat pos div 2 ^ k"
    using drop_bit_eq_div [of k "unat pos"] by (simp add: hat_index_def unat_drop_bit_eq)
  have "and pos (h_mask h) = take_bit k pos" using k by (simp add: take_bit_eq_mask)
  then show "unat (snd (hat_index h pos)) = unat pos mod 2 ^ k"
    using take_bit_eq_mod [of k "unat pos"] by (simp add: hat_index_def unsigned_take_bit_eq)
qed

lemma hat_invI: "hat_shape k h \<Longrightarrow> hat_inv h"
  by (auto simp: hat_inv_def hat_shape_def)

lemma div_lt_sq: "n < 2 ^ k * 2 ^ k \<Longrightarrow> n div 2 ^ k < (2 :: nat) ^ k"
  by (simp add: div_less_iff_less_mult)

lemma hat_shape_block:
  assumes "hat_shape k h" "i < unat (h_size h)"
  shows "i div 2 ^ k < 2 ^ k" "length (h_blockList h ! (i div 2 ^ k)) = 2 ^ k"
proof -
  show *: "i div 2 ^ k < 2 ^ k" using assms by (intro div_lt_sq) (auto simp: hat_shape_def)
  have "i div 2 ^ k * 2 ^ k \<le> i" by simp
  then have "i div 2 ^ k * 2 ^ k < unat (h_size h)" using assms(2) by linarith
  then show "length (h_blockList h ! (i div 2 ^ k)) = 2 ^ k" using * assms(1) by (simp add: hat_shape_def)
qed

lemma hat_at_shape: "hat_shape k h \<Longrightarrow> hat_at h i = h_blockList h ! (i div 2 ^ k) ! (i mod 2 ^ k)"
  by (simp add: hat_at_def hat_shape_def unat_pow)

lemma block_get_index:
  assumes "hat_shape k h"
  shows "block_get h (hat_index h pos) =
    (if unat pos div 2 ^ k < 2 ^ k \<and> unat pos mod 2 ^ k < length (h_blockList h ! (unat pos div 2 ^ k))
     then Inr (hat_at h (unat pos)) else Inl (Panic ''index out of range''))"
  using hat_index_unat [OF assms, of pos] hat_at_shape [OF assms] assms
  by (cases "hat_index h pos") (simp add: block_get_def hat_shape_def)

lemma Ref_entries:
  assumes "hat_inv h" "pos < h_size h"
  shows "Ref h pos = Inr (hat_entries h ! unat pos)"
proof -
  from assms obtain k where k: "hat_shape k h" by (auto simp: hat_inv_def)
  have "unat pos < unat (h_size h)" using assms(2) by (simp add: word_less_nat_alt)
  then show ?thesis
    using hat_shape_block [OF k, of "unat pos"] assms(2)
    by (simp add: Ref_def block_get_index [OF k] nth_hat_entries)
qed

lemma div_mod_eq_imp: "i div (n :: nat) = j div n \<Longrightarrow> i mod n = j mod n \<Longrightarrow> i = j"
  by (metis div_mult_mod_eq)

lemma Ref_set_entries:
  assumes "hat_inv h" "pos < h_size h"
  obtains h' where "Ref_set h pos e = Inr h'" "hat_inv h'" "h_size h' = h_size h"
    "hat_entries h' = (hat_entries h)[unat pos := e]"
proof -
  from assms obtain k where k: "hat_shape k h" "k \<le> 31" by (auto simp: hat_inv_def)
  have p: "unat pos < unat (h_size h)" using assms(2) by (simp add: word_less_nat_alt)
  define i j where "i = unat pos div 2 ^ k" and "j = unat pos mod 2 ^ k"
  define bs where "bs = (h_blockList h)[i := (h_blockList h ! i)[j := e]]"
  have ij: "i < 2 ^ k" "length (h_blockList h ! i) = 2 ^ k" "j < 2 ^ k"
    using hat_shape_block [OF k(1) p] by (auto simp: i_def j_def)
  have lb: "length (h_blockList h) = 2 ^ k" using k by (simp add: hat_shape_def)
  have "Ref_set h pos e = Inr (h\<lparr>h_blockList := bs\<rparr>)"
    using assms(2) hat_index_unat [OF k(1), of pos] ij lb
    by (cases "hat_index h pos") (auto simp: Ref_set_def block_set_def bs_def i_def j_def)
  moreover have sh: "hat_shape k (h\<lparr>h_blockList := bs\<rparr>)"
    using k ij by (auto simp: hat_shape_def bs_def nth_list_update)
  moreover have "hat_entries (h\<lparr>h_blockList := bs\<rparr>) = (hat_entries h)[unat pos := e]"
  proof (rule nth_equalityI)
    fix l assume "l < length (hat_entries (h\<lparr>h_blockList := bs\<rparr>))"
    then have l: "l < unat (h_size h)" by simp
    have "hat_at (h\<lparr>h_blockList := bs\<rparr>) l = (if l = unat pos then e else hat_at h l)"
      unfolding hat_at_shape [OF sh] hat_at_shape [OF k(1)]
      using ij lb div_mod_eq_imp [of l "2 ^ k" "unat pos"] hat_shape_block [OF k(1) l]
      by (auto simp: bs_def nth_list_update i_def j_def)
    then show "hat_entries (h\<lparr>h_blockList := bs\<rparr>) ! l = (hat_entries h)[unat pos := e] ! l"
      using l p by (simp add: nth_hat_entries nth_list_update)
  qed simp
  ultimately show thesis using that k(2) by (auto simp: hat_inv_def)
qed

text \<open>Merging pairs of blocks.\<close>

definition pair_block :: "nat \<Rightarrow> indexEntry list \<Rightarrow> indexEntry list \<Rightarrow> indexEntry list" where
  "pair_block n b b' = (if b = [] \<and> b' = [] then [] else take n (b @ b' @ replicate n zeroEntry))"

lemma merge_blocks_spec:
  assumes "even (length bs)" "\<forall>i < length bs. bs ! i = [] \<longleftrightarrow> c \<le> i"
  shows "\<exists>r. merge_blocks n bs = Inr r \<and> length r \<le> length bs div 2
     \<and> (\<forall>j < length bs div 2. (r @ replicate m []) ! j = pair_block n (bs ! (2 * j)) (bs ! (2 * j + 1))
          \<or> length r + m \<le> j)"
  using assms
proof (induction n bs arbitrary: c m rule: merge_blocks.induct)
  case (3 n b b' bs)
  have c: "(b # b' # bs) ! i = [] \<longleftrightarrow> c \<le> i" if "i < Suc (Suc (length bs))" for i using 3(3) that by simp
  show ?case
  proof (cases "b = [] \<and> b' = []")
    case True
    then have "c = 0" using c [of 0] by simp
    then have z: "(b # b' # bs) ! i = []" if "i < Suc (Suc (length bs))" for i using c that by simp
    have "(b # b' # bs) ! (2 * j) = [] \<and> (b # b' # bs) ! (2 * j + 1) = []" if "j < Suc (length bs div 2)" for j
      using that 3(2) by (intro conjI z) auto
    then show ?thesis using True by (auto simp: pair_block_def)
  next
    case False
    have "\<forall>i < length bs. bs ! i = [] \<longleftrightarrow> c - 2 \<le> i"
    proof (intro allI impI)
      fix i assume "i < length bs"
      then show "bs ! i = [] \<longleftrightarrow> c - 2 \<le> i" using c [of "i + 2"] by (auto simp: numeral_2_eq_2)
    qed
    then obtain r where r: "merge_blocks n bs = Inr r" "length r \<le> length bs div 2"
      "\<forall>j < length bs div 2. (r @ replicate m []) ! j = pair_block n (bs ! (2 * j)) (bs ! (2 * j + 1))
          \<or> length r + m \<le> j"
      using 3(1) [OF False, of "c - 2" m] 3(2) by auto
    have "((take n (b @ b' @ replicate n zeroEntry) # r) @ replicate m []) ! j
        = pair_block n ((b # b' # bs) ! (2 * j)) ((b # b' # bs) ! (2 * j + 1)) \<or> Suc (length r) + m \<le> j"
      if "j < Suc (length bs div 2)" for j
      using r(3) that False by (cases j) (auto simp: pair_block_def)
    then show ?thesis using False r by auto
  qed
qed auto

lemma split_double_index:
  fixes l N :: nat
  assumes "0 < N"
  shows "l div (2 * N) = l div N div 2"
    "l mod (2 * N) = (if even (l div N) then l mod N else N + l mod N)"
proof -
  show "l div (2 * N) = l div N div 2" by (metis div_mult2_eq mult.commute)
  have "l mod (2 * N) = N * (l div N mod 2) + l mod N" by (metis mod_mult2_eq mult.commute)
  then show "l mod (2 * N) = (if even (l div N) then l mod N else N + l mod N)"
    by (simp add: even_iff_mod_2_eq_zero odd_iff_mod_2_eq_one)
qed

lemma nth_pair_block:
  assumes "length b = N" "i < N"
  shows "pair_block (2 * N) b b' ! i = b ! i"
    "length b' = N \<Longrightarrow> pair_block (2 * N) b b' ! (N + i) = b' ! i"
  using assms by (auto simp: pair_block_def nth_append)

lemma length_pair_block:
  "0 < N \<Longrightarrow> length b = (if p then N else 0) \<Longrightarrow> length b' = (if q then N else 0) \<Longrightarrow> (q \<Longrightarrow> p) \<Longrightarrow>
     length (pair_block (2 * N) b b') = (if p then 2 * N else 0)"
  by (auto simp: pair_block_def split: if_splits)

text \<open>The state after one round of the doubling loop, block by block.\<close>

lemma double_blocks_blocks:
  assumes "hat_shape k h" "k \<le> 30"
  obtains bs where
    "double_blocks h = Inr (h\<lparr>h_blockSize := 2 ^ Suc k, h_mask := mask (Suc k), h_maskShift := of_nat (Suc k),
                               h_blockList := bs\<rparr>)"
    "length bs = 2 ^ Suc k"
    "\<forall>j < 2 ^ k div 2. bs ! j = pair_block (2 * 2 ^ k) (h_blockList h ! (2 * j)) (h_blockList h ! (2 * j + 1))"
    "\<forall>j < 2 ^ Suc k. 2 ^ k div 2 \<le> j \<longrightarrow> bs ! j = []"
proof -
  let ?B = "h_blockList h" and ?s = "unat (h_size h)" and ?N = "2 ^ k :: nat"
  have k: "1 \<le> k" "h_blockSize h = 2 ^ k" "h_mask h = mask k" "h_maskShift h = of_nat k" "length ?B = ?N"
    "\<And>i. i < ?N \<Longrightarrow> length (?B ! i) = (if i * ?N < ?s then ?N else 0)"
    using assms(1) by (auto simp: hat_shape_def)
  have ub: "unat (2 * 2 ^ k :: u64) = 2 * ?N"
    using unat_pow [of "Suc k"] assms(2) by simp
  have "\<forall>i < length ?B. ?B ! i = [] \<longleftrightarrow> (?s + ?N - 1) div ?N \<le> i"
  proof (intro allI impI)
    fix i assume i: "i < length ?B"
    have "(?s + ?N - 1) div ?N < Suc i \<longleftrightarrow> ?s + ?N - 1 < Suc i * ?N"
      by (rule div_less_iff_less_mult) simp
    also have "\<dots> \<longleftrightarrow> ?s \<le> i * ?N" 
      unfolding mult_Suc using zero_less_power [of "2 :: nat" k] by arith
    finally show "?B ! i = [] \<longleftrightarrow> (?s + ?N - 1) div ?N \<le> i"
      using k(5,6) i by (auto simp: length_0_conv [symmetric] simp del: length_0_conv)
  qed
  moreover have "even (length ?B)" using k(1,5) by simp
  ultimately obtain r where r: "merge_blocks (2 * ?N) ?B = Inr r" "length r \<le> ?N div 2"
      "\<forall>j < ?N div 2. (r @ replicate (2 * ?N) []) ! j =
           pair_block (2 * ?N) (?B ! (2 * j)) (?B ! (2 * j + 1)) \<or> length r + 2 * ?N \<le> j"
    using merge_blocks_spec [of ?B "(?s + ?N - 1) div ?N" "2 * ?N" "2 * ?N"]
    by (auto simp: k(5))
  let ?bs = "r @ replicate (2 * ?N - length r) []"
  have m: "mask k * 2 + 1 = (mask (Suc k) :: u64)" by (simp add: mask_eq_exp_minus_1 algebra_simps)
  show thesis
  proof (rule that [of ?bs])
    show "double_blocks h = Inr (h\<lparr>h_blockSize := 2 ^ Suc k, h_mask := mask (Suc k),
        h_maskShift := of_nat (Suc k), h_blockList := ?bs\<rparr>)"
      using r(1,2) k m ub by (simp add: double_blocks_def Let_def mult.commute)
    show "\<forall>j < ?N div 2. ?bs ! j = pair_block (2 * ?N) (?B ! (2 * j)) (?B ! (2 * j + 1))"
    proof (intro allI impI)
      fix j assume "j < ?N div 2"
      with r(2) r(3) [rule_format, OF this] show "?bs ! j = pair_block (2 * ?N) (?B ! (2 * j)) (?B ! (2 * j + 1))"
        by (auto simp: nth_append split: if_splits)
    qed
    show "\<forall>j < 2 ^ Suc k. ?N div 2 \<le> j \<longrightarrow> ?bs ! j = []"
      using r(2) by (auto simp: nth_append)
  qed (use r(2) in simp)
qed

lemma double_blocks_shape:
  assumes "hat_shape k h" "k \<le> 30"
  shows "\<exists>h'. double_blocks h = Inr h' \<and> hat_shape (Suc k) h' \<and> h_size h' = h_size h
           \<and> hat_entries h' = hat_entries h"
proof -
  let ?B = "h_blockList h" and ?s = "unat (h_size h)" and ?N = "2 ^ k :: nat"
  have k: "1 \<le> k" "?s \<le> ?N * ?N" "length ?B = ?N"
    "\<And>i. i < ?N \<Longrightarrow> length (?B ! i) = (if i * ?N < ?s then ?N else 0)"
    using assms(1) by (auto simp: hat_shape_def)
  from k(1) have half: "2 * (?N div 2) = ?N" by (cases k) auto
  obtain bs where
    d: "double_blocks h = Inr (h\<lparr>h_blockSize := 2 ^ Suc k, h_mask := mask (Suc k), h_maskShift := of_nat (Suc k),
                               h_blockList := bs\<rparr>)" (is "_ = Inr ?h")
    and bs: "length bs = 2 ^ Suc k"
    "\<forall>j < ?N div 2. bs ! j = pair_block (2 * ?N) (?B ! (2 * j)) (?B ! (2 * j + 1))"
    "\<forall>j < 2 ^ Suc k. ?N div 2 \<le> j \<longrightarrow> bs ! j = []"
    by (rule double_blocks_blocks [OF assms])
  have len: "length (bs ! j) = (if j * (2 * ?N) < ?s then 2 * ?N else 0)" if j: "j < 2 ^ Suc k" for j
  proof (cases "j < ?N div 2")
    case True
    then have "2 * j < ?N" "2 * j + 1 < ?N" using half by linarith+
    then show ?thesis
      using length_pair_block [of ?N "?B ! (2 * j)" "j * (2 * ?N) < ?s" "?B ! (2 * j + 1)" "(2 * j + 1) * ?N < ?s"]
        k(4) [of "2 * j"] k(4) [of "2 * j + 1"] True by (simp add: bs(2) algebra_simps)
  next
    case False
    then have "?N div 2 * (2 * ?N) \<le> j * (2 * ?N)" by (intro mult_le_mono1) simp
    moreover have "?N div 2 * (2 * ?N) = ?N * ?N" by (metis half mult.assoc mult.commute)
    ultimately have "\<not> j * (2 * ?N) < ?s" using k(2) by linarith
    then show ?thesis using False j by (simp add: bs(3))
  qed
  have big: "2 ^ k * 2 ^ k \<le> (2 ^ Suc k * 2 ^ Suc k :: nat)" by simp
  have sh: "hat_shape (Suc k) ?h"
    using assms(2) bs(1) len k(2) big by (simp add: hat_shape_def)
  have "hat_entries ?h = hat_entries h"
  proof (rule nth_equalityI)
    fix l assume "l < length (hat_entries ?h)"
    then have l: "l < ?s" by simp
    let ?q = "l div ?N"
    have q: "?q < ?N" "length (?B ! ?q) = ?N" using hat_shape_block [OF assms(1) l] by auto
    define j where "j = ?q div 2"
    have j: "j < ?N div 2" "?q = (if even ?q then 2 * j else 2 * j + 1)" using q half by (auto simp: j_def)
    have "2 * j * ?N \<le> ?q * ?N" by (intro mult_le_mono1) (simp add: j_def)
    also have "\<dots> \<le> l" by simp
    finally have b: "length (?B ! (2 * j)) = ?N" using k(4) [of "2 * j"] l j q(1) by (auto split: if_splits)
    have "bs ! j ! (l mod (2 * ?N)) = ?B ! ?q ! (l mod ?N)"
      using j b q nth_pair_block [of "?B ! (2 * j)" ?N "l mod ?N" "?B ! (2 * j + 1)"]
      by (auto simp: bs(2) split_double_index(2))
    then have "hat_at ?h l = hat_at h l"
      unfolding hat_at_shape [OF sh] hat_at_shape [OF assms(1)] using split_double_index(1) [of ?N l]
      by (simp add: j_def)
    then show "hat_entries ?h ! l = hat_entries h ! l" using l by (simp add: nth_hat_entries)
  qed simp
  then show ?thesis using d sh by auto
qed

declare preallocate_loop.simps [simp del]

lemma preallocate_loop_shape:
  assumes "hat_shape k h" "unat idx * 2 ^ k < 2 ^ 62" "unat idx < 2 ^ n"
  shows "\<exists>k' h'. preallocate_loop (Suc n) idx h = Inr h' \<and> hat_shape k' h' \<and> h_size h' = h_size h
           \<and> hat_entries h' = hat_entries h \<and> k \<le> k' \<and> unat idx div 2 ^ (k' - k) < 2 ^ k'"
  using assms
proof (induction n arbitrary: k h idx)
  case 0
  then have "unat idx = 0" by simp
  moreover have "0 < length (h_blockList h)" using 0(1) by (simp add: hat_shape_def)
  ultimately show ?case
    using 0 by (intro exI [of _ k] exI [of _ h]) (simp add: sint_small preallocate_loop.simps)
next
  case (Suc n)
  have lb: "length (h_blockList h) = 2 ^ k" using Suc(2) by (simp add: hat_shape_def)
  have "unat idx \<le> unat idx * 2 ^ k" by simp
  then have "unat idx < 2 ^ 62" using Suc(3) by (rule le_less_trans)
  then have si: "sint idx = int (unat idx)" by (intro sint_small) simp
  have cmp: "int (length (h_blockList h)) \<le> sint idx \<longleftrightarrow> 2 ^ k \<le> unat idx"
    unfolding lb si by (simp only: of_nat_le_iff)
  show ?case
  proof (cases "2 ^ k \<le> unat idx")
    case True
    then have "2 ^ k * 2 ^ k \<le> unat idx * 2 ^ k" by simp
    then have "(2 :: nat) ^ (2 * k) < 2 ^ 62" using Suc(3) by (simp add: power_add [symmetric] mult_2)
    then have "k \<le> 30" by (simp only: power_strict_increasing_iff)
    with double_blocks_shape [OF Suc(2)] obtain h1 where
      h1: "double_blocks h = Inr h1" "hat_shape (Suc k) h1" "h_size h1 = h_size h" "hat_entries h1 = hat_entries h"
      by blast
    have u: "unat (idx div 2) = unat idx div 2" by (simp add: unat_div)
    have "unat (idx div 2) * 2 ^ Suc k \<le> unat idx * 2 ^ k" by (simp add: u mult.assoc [symmetric])
    then have "unat (idx div 2) * 2 ^ Suc k < 2 ^ 62" using Suc(3) by linarith
    moreover have "unat (idx div 2) < 2 ^ n" using Suc(4) by (simp add: u)
    ultimately obtain k' h' where r: "preallocate_loop (Suc n) (idx div 2) h1 = Inr h'" "hat_shape k' h'"
      "h_size h' = h_size h1" "hat_entries h' = hat_entries h1" "Suc k \<le> k'"
      "unat (idx div 2) div 2 ^ (k' - Suc k) < 2 ^ k'"
      using Suc(1) [OF h1(2)] by blast
    have "2 ^ (k' - k) = 2 * (2 :: nat) ^ (k' - Suc k)" using r(5) by (metis Suc_diff_le Suc_le_lessD diff_Suc_Suc power_Suc)
    then have "unat idx div 2 ^ (k' - k) < 2 ^ k'" using r(6) by (simp add: u div_mult2_eq)
    moreover have "preallocate_loop (Suc (Suc n)) idx h = Inr h'"
      using True r(1) h1(1) by (subst preallocate_loop.simps(2)) (simp add: cmp)
    ultimately show ?thesis using r h1 by (intro exI [of _ k'] exI [of _ h']) simp
  next
    case False
    then show ?thesis using Suc(2) cmp
      by (intro exI [of _ k] exI [of _ h]) (simp add: preallocate_loop.simps)
  qed
qed

lemma hat_preallocate_entries:
  assumes "hat_inv h" "0 < n" "n \<le> 2 ^ 62"
  obtains h' k' where "hat_preallocate h (of_nat n) = Inr h'" "hat_shape k' h'" "h_size h' = h_size h"
    "hat_entries h' = hat_entries h" "n - 1 < 2 ^ k' * 2 ^ k'"
proof -
  have e65: "65 = Suc 64" by simp
  from assms(1) obtain k where k: "hat_shape k h" by (auto simp: hat_inv_def)
  let ?i = "fst (hat_index h (of_nat n - 1))"
  have w: "of_nat n - 1 = (of_nat (n - 1) :: u64)" using assms(2) by (simp add: of_nat_diff)
  have "unat (of_nat n - 1 :: u64) = n - 1" unfolding w unat_of_nat using assms(3) by simp
  then have i: "unat ?i = (n - 1) div 2 ^ k" by (simp add: hat_index_unat(1) [OF k])
  have "unat ?i * 2 ^ k \<le> n - 1" by (simp add: i)
  then have 1: "unat ?i * 2 ^ k < 2 ^ 62" using assms(2,3) by linarith
  have 2: "unat ?i < 2 ^ 64" using unat_lt2p [of ?i] by simp
  from preallocate_loop_shape [OF k 1 2] obtain k' h' where
    r: "preallocate_loop (Suc 64) ?i h = Inr h'" "hat_shape k' h'" "h_size h' = h_size h"
      "hat_entries h' = hat_entries h" "k \<le> k'" "unat ?i div 2 ^ (k' - k) < 2 ^ k'"
    by (elim exE conjE)
  have "(2 :: nat) ^ k * 2 ^ (k' - k) = 2 ^ k'" using r(5) by (simp add: power_add [symmetric])
  then have "(n - 1) div 2 ^ k' < 2 ^ k'" using r(6) by (simp add: i div_mult2_eq [symmetric])
  then have "n - 1 < 2 ^ k' * 2 ^ k'" by (simp add: div_less_iff_less_mult)
  moreover have "hat_preallocate h (of_nat n) = Inr h'"
    using r(1) unfolding hat_preallocate_def e65 .
  ultimately show thesis using that r by blast
qed

text \<open>The state after the block for the next position is in place: the same entries, and room for one
  more.\<close>

lemma hat_grow_shape:
  assumes "hat_inv h" "unat (h_size h) < 2 ^ 62"
  obtains h' k where "hat_grow h = Inr h'" "hat_shape k (h'\<lparr>h_size := h_size h + 1\<rparr>)" "h_size h' = h_size h"
    "\<forall>l < unat (h_size h). hat_at h' l = hat_at h l"
proof -
  let ?s = "unat (h_size h)"
  have us: "unat (h_size h + 1) = ?s + 1" using assms(2) by (intro unat_word_inc) simp
  have w: "h_size h + 1 = of_nat (?s + 1)" by simp
  obtain h1 k where h1: "hat_preallocate h (h_size h + 1) = Inr h1" "hat_shape k h1" "h_size h1 = h_size h"
    "hat_entries h1 = hat_entries h" "?s + 1 - 1 < 2 ^ k * 2 ^ k"
    using hat_preallocate_entries [OF assms(1), of "?s + 1"] assms(2) unfolding w by auto
  let ?N = "2 ^ k :: nat" and ?B = "h_blockList h1"
  let ?q = "?s div ?N"
  have q: "?q < ?N" using h1(5) by (intro div_lt_sq) simp
  have sh: "length ?B = ?N" "\<And>i. i < ?N \<Longrightarrow> length (?B ! i) = (if i * ?N < ?s then ?N else 0)" "unat (h_blockSize h1) = ?N"
    using h1(2,3) by (auto simp: hat_shape_def unat_pow)
  have idx: "unat (fst (hat_index h1 (h_size h1))) = ?q" "unat (snd (hat_index h1 (h_size h1))) = ?s mod ?N"
    using hat_index_unat [OF h1(2)] h1(3) by simp_all
  have at: "hat_at h1 l = hat_at h l" if "l < ?s" for l
    using that h1(3,4) nth_hat_entries [of l h] nth_hat_entries [of l h1] by simp
  show thesis
  proof (cases "?s mod ?N = 0")
    case True
    then have qs: "?q * ?N = ?s" by auto
    define bs where "bs = ?B[?q := replicate ?N zeroEntry]"
    have len: "length (bs ! i) = (if i * ?N < ?s + 1 then ?N else 0)" if "i < ?N" for i
    proof (cases "i = ?q")
      case False
      then have "i * ?N \<noteq> ?s" using qs by (metis mult_right_cancel power_not_zero zero_neq_numeral)
      then show ?thesis using False that sh by (auto simp: bs_def less_Suc_eq)
    qed (use q qs sh in \<open>auto simp: bs_def\<close>)
    have at': "hat_at (h1\<lparr>h_blockList := bs\<rparr>) l = hat_at h l" if "l < ?s" for l
    proof -
      have "l div ?N \<noteq> ?q" using that qs by (metis div_times_less_eq_dividend leD)
      then show ?thesis using at [OF that] by (simp add: hat_at_def sh bs_def)
    qed
    have "hat_shape k (h1\<lparr>h_blockList := bs, h_size := h_size h + 1\<rparr>)"
      using h1(2,5) us len sh(1) by (simp add: hat_shape_def bs_def)
    moreover have "snd (hat_index h1 (h_size h1)) = 0" using True idx(2) by (simp add: unat_eq_zero)
    then have "hat_grow h = Inr (h1\<lparr>h_blockList := bs\<rparr>)"
      using h1(1) idx(1) q sh by (cases "hat_index h1 (h_size h1)") (auto simp: hat_grow_def bs_def)
    ultimately show thesis using that [of "h1\<lparr>h_blockList := bs\<rparr>" k] at' h1(3) by simp
  next
    case False
    have "i * ?N \<noteq> ?s" for i using False by (metis mod_mult_self2_is_0)
    then have "length (?B ! i) = (if i * ?N < ?s + 1 then ?N else 0)" if "i < ?N" for i
      using that sh(2) by (auto simp: less_Suc_eq)
    then have "hat_shape k (h1\<lparr>h_size := h_size h + 1\<rparr>)" using h1(2,5) us by (simp add: hat_shape_def)
    moreover have "snd (hat_index h1 (h_size h1)) \<noteq> 0" using False idx(2) by (metis unat_0)
    then have "hat_grow h = Inr h1" using h1(1) by (cases "hat_index h1 (h_size h1)") (auto simp: hat_grow_def)
    ultimately show thesis using that [of h1 k] at h1(3) by simp
  qed
qed

lemma Alloc_entries:
  assumes "hat_inv h" "unat (h_size h) < 2 ^ 62"
  obtains h' e where "Alloc h = Inr (h', h_size h)" "hat_inv h'" "hat_entries h' = hat_entries h @ [e]"
proof -
  obtain h1 k where h1: "hat_grow h = Inr h1" "hat_shape k (h1\<lparr>h_size := h_size h + 1\<rparr>)" "h_size h1 = h_size h"
    "\<forall>l < unat (h_size h). hat_at h1 l = hat_at h l"
    by (rule hat_grow_shape [OF assms])
  let ?h = "h1\<lparr>h_size := h_size h + 1\<rparr>"
  have us: "unat (h_size h + 1) = unat (h_size h) + 1" using assms(2) by (intro unat_word_inc) simp
  have "h_size h < h_size h + 1" using us by (simp add: word_less_nat_alt)
  then obtain e where "Ref ?h (h_size h) = Inr e"
    using Ref_entries [of ?h "h_size h"] h1(2) by (auto simp: hat_inv_def hat_shape_def)
  then have "block_get h1 (hat_index h1 (h_size h)) = Inr e"
    by (simp add: Ref_def block_get_def hat_index_def split: if_splits)
  then have "Alloc h = Inr (?h, h_size h)" using h1(1,3) by (simp add: Alloc_def)
  moreover have "hat_entries ?h = hat_entries h @ [hat_at ?h (unat (h_size h))]"
  proof -
    have "hat_at ?h l = hat_at h l" if "l < unat (h_size h)" for l using h1(4) that by (simp add: hat_at_def)
    then show ?thesis by (simp add: hat_entries_def us)
  qed
  moreover have "hat_inv ?h" using h1(2) by (auto simp: hat_inv_def hat_shape_def)
  ultimately show thesis using that by blast
qed

lemma newHAT_inv: "hat_inv newHAT" "hat_entries newHAT = []"
proof -
  have "push_bit 2 1 = (4 :: u64)" by (simp add: push_bit_eq_mult)
  then have "hat_shape 2 newHAT"
    by (auto simp: newHAT_def Let_def hat_shape_def mask_eq_exp_minus_1)
  then show "hat_inv newHAT" by (rule hat_invI)
  show "hat_entries newHAT = []" by (simp add: newHAT_def Let_def hat_entries_def)
qed

section \<open>The interface\<close>

text \<open>A store of index entries addressed by position. \<open>cap\<close> bounds the number of entries: 64-bit positions
  do not wrap below it.\<close>

locale entry_store =
  fixes inv :: "'s \<Rightarrow> bool"
    and entries :: "'s \<Rightarrow> indexEntry list"
    and ref :: "'s \<Rightarrow> u64 \<Rightarrow> indexEntry result"
    and upd :: "'s \<Rightarrow> u64 \<Rightarrow> indexEntry \<Rightarrow> 's result"
    and alloc :: "'s \<Rightarrow> ('s \<times> u64) result"
    and reserve :: "'s \<Rightarrow> u64 \<Rightarrow> 's result"
    and cap :: nat
  assumes ref: "inv s \<Longrightarrow> unat pos < length (entries s) \<Longrightarrow> ref s pos = Inr (entries s ! unat pos)"
    and ref_bounds: "inv s \<Longrightarrow> length (entries s) \<le> unat pos \<Longrightarrow> is_panic (ref s pos)"
    and upd: "inv s \<Longrightarrow> unat pos < length (entries s) \<Longrightarrow>
      \<exists>s'. upd s pos e = Inr s' \<and> inv s' \<and> entries s' = (entries s)[unat pos := e]"
    and alloc: "inv s \<Longrightarrow> length (entries s) < cap \<Longrightarrow>
      \<exists>s' e. alloc s = Inr (s', of_nat (length (entries s))) \<and> inv s' \<and> entries s' = entries s @ [e]"
    and reserve: "inv s \<Longrightarrow> 0 < n \<Longrightarrow> n \<le> cap \<Longrightarrow>
      \<exists>s'. reserve s (of_nat n) = Inr s' \<and> inv s' \<and> entries s' = entries s"
begin

text \<open>Allocating and filling an entry appends it.\<close>

lemma alloc_upd:
  assumes "inv s" "length (entries s) < cap" "cap \<le> 2 ^ 64"
  shows "\<exists>s1 s2. alloc s = Inr (s1, of_nat (length (entries s)))
     \<and> upd s1 (of_nat (length (entries s))) e = Inr s2 \<and> inv s2 \<and> entries s2 = entries s @ [e]"
proof -
  from alloc [OF assms(1,2)] obtain s1 e1 where
    1: "alloc s = Inr (s1, of_nat (length (entries s)))" "inv s1" "entries s1 = entries s @ [e1]" by blast
  have "unat (of_nat (length (entries s)) :: u64) = length (entries s)"
    using assms(2,3) by (simp add: unat_of_nat)
  then show ?thesis using upd [OF 1(2), of "of_nat (length (entries s))" e] 1 by auto
qed

end

interpretation hat: entry_store hat_inv hat_entries Ref Ref_set Alloc hat_preallocate "2 ^ 62"
proof
  fix h pos e
  assume h: "hat_inv h"
  show "Ref h pos = Inr (hat_entries h ! unat pos)" if "unat pos < length (hat_entries h)"
    using Ref_entries [OF h] that by (simp add: word_less_nat_alt)
  show "is_panic (Ref h pos)" if "length (hat_entries h) \<le> unat pos"
    using that by (simp add: Ref_def word_le_nat_alt)
  show "\<exists>h'. Ref_set h pos e = Inr h' \<and> hat_inv h' \<and> hat_entries h' = (hat_entries h)[unat pos := e]"
    if "unat pos < length (hat_entries h)"
    using Ref_set_entries [OF h, of pos e] that by (metis length_hat_entries word_less_nat_alt)
  show "\<exists>h' e. Alloc h = Inr (h', of_nat (length (hat_entries h))) \<and> hat_inv h' \<and> hat_entries h' = hat_entries h @ [e]"
    if "length (hat_entries h) < 2 ^ 62"
  proof -
    have "unat (h_size h) < 2 ^ 62" using that by simp
    then obtain h' e where "Alloc h = Inr (h', h_size h)" "hat_inv h'" "hat_entries h' = hat_entries h @ [e]"
      by (rule Alloc_entries [OF h])
    then show ?thesis by auto
  qed
  show "\<exists>h'. hat_preallocate h (of_nat n) = Inr h' \<and> hat_inv h' \<and> hat_entries h' = hat_entries h"
    if "0 < n" "n \<le> 2 ^ 62" for n
    using hat_preallocate_entries [OF h that] hat_invI by metis
qed

end
