(* ===== verification/Index_Map.thy ===== *)
theory Index_Map
  imports Hashed_Array_Tree
begin

text \<open>
  The in-memory hash table of the index, \<^verbatim>\<open>indexMap\<close> of \<^verbatim>\<open>internal/repository/index/indexmap.go\<close>: buckets
  of chained entries, where the upper 28 bits of every chain link hold a bloom filter of the IDs
  further down the chain and the lower 36 bits a position in the array of entries.

  The seeded \<^verbatim>\<open>maphash\<close> is the field \<open>m_mh\<close>, an arbitrary function. Chain traversals run on fuel, one more
  than the number of entries. The locale \<open>blob_multimap\<close> is the contract the index relies on: a
  multimap that keeps its entries in insertion order and finds the entries of an ID latest first.
\<close>

section \<open>Model\<close>

definition bloomShift :: nat where "bloomShift = 36"

definition bloomMask :: u64 where "bloomMask = push_bit bloomShift 1 - 1"

definition bloomCleanID :: "u64 \<Rightarrow> u64" where
  "bloomCleanID idx = and idx bloomMask"

definition bloomForID :: "ID \<Rightarrow> u64" where
  "bloomForID key = (let k1 = (key ! 0) mod of_nat (64 - bloomShift) in push_bit (unat k1) 1)"

definition bloomHasID :: "u64 \<Rightarrow> ID \<Rightarrow> bool" where
  "bloomHasID idx key = (let bloom = drop_bit bloomShift idx in and bloom (bloomForID key) \<noteq> 0)"

definition bloomInsertID :: "u64 \<Rightarrow> u64 \<Rightarrow> ID \<Rightarrow> u64" where
  "bloomInsertID idx nextIdx key =
     (let oldBloom = and nextIdx (not bloomMask); newBloom = push_bit bloomShift (bloomForID key)
      in or (or idx oldBloom) newBloom)"

record indexMap =
  m_buckets :: "u64 list"
  m_numentries :: u64
  m_mh :: "ID \<Rightarrow> u64"
  m_blockList :: hashedArrayTree

text \<open>A zero \<^verbatim>\<open>indexMap\<close> with a hash seed.\<close>

definition zeroMap :: "(ID \<Rightarrow> u64) \<Rightarrow> indexMap" where
  "zeroMap mh = \<lparr>m_buckets = [], m_numentries = 0, m_mh = mh, m_blockList = zeroHAT\<rparr>"

definition maxLoad :: int where "maxLoad = 4"

definition resolve :: "indexMap \<Rightarrow> u64 \<Rightarrow> indexEntry result" where
  "resolve m idx = Ref (m_blockList m) (bloomCleanID idx)"

definition indexMap_hash :: "indexMap \<Rightarrow> ID \<Rightarrow> u64" where
  "indexMap_hash m key = and (m_mh m key) (of_nat (length (m_buckets m)) - 1)"

definition bucket_get :: "indexMap \<Rightarrow> u64 \<Rightarrow> u64 result" where
  "bucket_get m h = (if unat h < length (m_buckets m) then Inr (m_buckets m ! unat h)
     else Inl (Panic ''index out of range''))"

definition newEntry :: "indexMap \<Rightarrow> (indexMap \<times> u64) result" where
  "newEntry m = rbind (Alloc (m_blockList m)) (\<lambda>(t, idx).
     if idx \<noteq> bloomCleanID idx then Inl (Panic ''repository index size overflow'')
     else Inr (m\<lparr>m_blockList := t\<rparr>, idx))"

definition indexMap_init :: "indexMap \<Rightarrow> indexMap result" where
  "indexMap_init m = rbind (newEntry (m\<lparr>m_buckets := replicate 64 0, m_blockList := newHAT\<rparr>)) (\<lambda>(m, _). Inr m)"

text \<open>The bucket count is doubled until it suffices; it is a 64-bit number, so 64 rounds are enough.\<close>

fun grow_buckets :: "nat \<Rightarrow> int \<Rightarrow> int \<Rightarrow> int result" where
  "grow_buckets 0 newSize wanted = Inl Diverges"
| "grow_buckets (Suc n) newSize wanted =
     (if newSize < wanted then grow_buckets n (newSize * 2) wanted else Inr newSize)"

definition rehash_step :: "indexMap \<Rightarrow> u64 \<Rightarrow> indexMap result" where
  "rehash_step m i = rbind (resolve m i) (\<lambda>e. let h = indexMap_hash m (e_id e) in
     rbind (bucket_get m h) (\<lambda>nxt. rbind (Ref_set (m_blockList m) (bloomCleanID i) (e\<lparr>e_next := nxt\<rparr>)) (\<lambda>t.
       Inr (m\<lparr>m_blockList := t, m_buckets := (m_buckets m)[unat h := bloomInsertID i nxt (e_id e)]\<rparr>))))"

definition indexMap_preallocate :: "indexMap \<Rightarrow> int \<Rightarrow> indexMap result" where
  "indexMap_preallocate m numEntries =
     (if numEntries = 0 then Inr m
      else rbind (if m_buckets m = [] then indexMap_init m else Inr m) (\<lambda>m.
        rbind (grow_buckets 64 (int (length (m_buckets m))) ((numEntries + maxLoad - 1) div maxLoad)) (\<lambda>newSize.
          if newSize = int (length (m_buckets m)) then Inr m
          else
            rbind (foldM rehash_step (m\<lparr>m_buckets := replicate (nat newSize) 0\<rparr>)
                     (map of_nat [1 ..< unat (h_size (m_blockList m))])) (\<lambda>m.
              rbind (hat_preallocate (m_blockList m) (of_int numEntries)) (\<lambda>t.
                Inr (m\<lparr>m_blockList := t\<rparr>))))))"

definition indexMap_add :: "indexMap \<Rightarrow> ID \<Rightarrow> u32 \<Rightarrow> u32 \<Rightarrow> u32 \<Rightarrow> u32 \<Rightarrow> indexMap result" where
  "indexMap_add m key packIdx off len uncompressedLength =
     rbind (indexMap_preallocate m (sint (m_numentries m) + 1)) (\<lambda>m. let h = indexMap_hash m key in
       rbind (newEntry m) (\<lambda>(m, idx). rbind (bucket_get m h) (\<lambda>nxt.
         rbind (Ref_set (m_blockList m) idx
                  \<lparr>e_id = key, e_next = nxt, e_packIndex = packIdx, e_offset = off, e_length = len,
                   e_uncompressedLength = uncompressedLength\<rparr>) (\<lambda>t.
           Inr (m\<lparr>m_blockList := t, m_buckets := (m_buckets m)[unat h := bloomInsertID idx nxt key],
                  m_numentries := m_numentries m + 1\<rparr>)))))"

definition indexMap_values :: "indexMap \<Rightarrow> indexEntry list result" where
  "indexMap_values m = mapM (\<lambda>i. resolve m (of_nat i)) [1 ..< unat (h_size (m_blockList m))]"

fun chain_values :: "(u64 \<Rightarrow> indexEntry result) \<Rightarrow> ID \<Rightarrow> nat \<Rightarrow> u64 \<Rightarrow> indexEntry list result" where
  "chain_values res key 0 ei = Inl Diverges"
| "chain_values res key (Suc n) ei =
     (if bloomHasID ei key
      then rbind (res ei) (\<lambda>e. rbind (chain_values res key n (e_next e)) (\<lambda>r.
             Inr (if e_id e \<noteq> key then r else e # r)))
      else Inr [])"

definition valuesWithID :: "indexMap \<Rightarrow> ID \<Rightarrow> indexEntry list result" where
  "valuesWithID m key = (if m_buckets m = [] then Inr []
     else rbind (bucket_get m (indexMap_hash m key))
       (chain_values (resolve m) key (Suc (unat (h_size (m_blockList m))))))"

fun chain_get :: "(u64 \<Rightarrow> indexEntry result) \<Rightarrow> ID \<Rightarrow> nat \<Rightarrow> u64 \<Rightarrow> indexEntry option result" where
  "chain_get res key 0 ei = Inl Diverges"
| "chain_get res key (Suc n) ei =
     (if bloomHasID ei key
      then rbind (res ei) (\<lambda>e. if e_id e = key then Inr (Some e) else chain_get res key n (e_next e))
      else Inr None)"

definition indexMap_get :: "indexMap \<Rightarrow> ID \<Rightarrow> indexEntry option result" where
  "indexMap_get m key = (if m_buckets m = [] then Inr None
     else rbind (bucket_get m (indexMap_hash m key))
       (chain_get (resolve m) key (Suc (unat (h_size (m_blockList m))))))"

fun chain_first :: "(u64 \<Rightarrow> indexEntry result) \<Rightarrow> ID \<Rightarrow> nat \<Rightarrow> u64 \<Rightarrow> int \<Rightarrow> int result" where
  "chain_first res key 0 ei idx = Inl Diverges"
| "chain_first res key (Suc n) ei idx =
     (if bloomHasID ei key
      then rbind (res ei) (\<lambda>e. let cur = bloomCleanID ei in
             chain_first res key n (e_next e)
               (if e_id e \<noteq> key then idx else if sint cur < idx \<or> idx = -1 then sint cur else idx))
      else Inr idx)"

definition firstIndex :: "indexMap \<Rightarrow> ID \<Rightarrow> int result" where
  "firstIndex m key = (if m_buckets m = [] then Inr (-1)
     else rbind (bucket_get m (indexMap_hash m key))
       (\<lambda>ei. chain_first (resolve m) key (Suc (unat (h_size (m_blockList m)))) ei (-1)))"

definition indexMap_len :: "indexMap \<Rightarrow> u64" where
  "indexMap_len m = m_numentries m"

section \<open>The bloom filter\<close>

definition bloom_bit :: "ID \<Rightarrow> nat" where
  "bloom_bit key = unat ((key ! 0) mod 28)"

lemma bloom_bit_lt: "bloom_bit key < 28"
proof -
  have "unat ((key ! 0) mod 28) = unat (key ! 0) mod 28" by (simp add: unat_mod)
  then show ?thesis by (simp add: bloom_bit_def)
qed

lemma bloomForID_bit: "bloomForID key = push_bit (bloom_bit key) 1"
  by (simp add: bloomForID_def bloom_bit_def bloomShift_def)

lemma bloomMask_mask: "bloomMask = mask 36"
  by (simp add: bloomMask_def bloomShift_def mask_eq_exp_minus_1 push_bit_eq_mult)

lemma bloomHasID_iff: "bloomHasID idx key \<longleftrightarrow> bit idx (36 + bloom_bit key)"
proof -
  have "bloomHasID idx key \<longleftrightarrow> bit (drop_bit 36 idx) (bloom_bit key)"
    by (simp add: bloomHasID_def bloomForID_bit bloomShift_def bit_iff_and_push_bit_not_eq_0)
  then show ?thesis by (simp add: bit_drop_bit_eq)
qed

lemma bloomHasID_0 [simp]: "\<not> bloomHasID 0 key"
  by (simp add: bloomHasID_iff)

lemma bloomCleanID_small: "unat i < 2 ^ 36 \<Longrightarrow> bloomCleanID i = i"
proof -
  assume "unat i < 2 ^ 36"
  then have "take_bit 36 (unat i) = unat i" by (simp add: take_bit_nat_eq_self)
  then show ?thesis
    by (simp add: bloomCleanID_def bloomMask_mask take_bit_eq_mask [symmetric] word_unat_eq_iff unsigned_take_bit_eq)
qed

lemma bloomCleanID_overflow: "bloomCleanID (of_nat (2 ^ 36)) \<noteq> of_nat (2 ^ 36)"
  by (simp add: bloomCleanID_def bloomMask_mask mask_eq_exp_minus_1)

lemma small_no_high_bits: "unat (i :: u64) < 2 ^ 36 \<Longrightarrow> 36 \<le> n \<Longrightarrow> \<not> bit i n"
proof -
  assume "unat i < 2 ^ 36" "36 \<le> n"
  then have "bloomCleanID i = i" by (simp add: bloomCleanID_small)
  then have "i = and i (mask 36)" by (simp add: bloomCleanID_def bloomMask_mask)
  then have "bit i n = bit (and i (mask 36)) n" by simp
  then show ?thesis using \<open>36 \<le> n\<close> by (simp add: bit_and_iff bit_mask_iff)
qed

lemma bloomClean_insert:
  assumes "unat i < 2 ^ 36"
  shows "bloomCleanID (bloomInsertID i nxt key) = i"
proof (rule bit_word_eqI)
  fix n
  have "bit i n \<Longrightarrow> n < 36" using small_no_high_bits [OF assms, of n] by (meson not_le)
  then show "bit (bloomCleanID (bloomInsertID i nxt key)) n \<longleftrightarrow> bit i n" if "n < LENGTH(64)"
    using that by (auto simp: bloomCleanID_def bloomInsertID_def bloomMask_mask Let_def bloomShift_def bit_simps)
qed

lemma bloomHas_insert:
  assumes "unat i < 2 ^ 36"
  shows "bloomHasID (bloomInsertID i nxt key) key' \<longleftrightarrow> bloom_bit key = bloom_bit key' \<or> bloomHasID nxt key'"
  using small_no_high_bits [OF assms, of "36 + bloom_bit key'"] bloom_bit_lt [of key'] bloom_bit_lt [of key]
  by (auto simp: bloomHasID_iff bloomInsertID_def Let_def bloomForID_bit bloomShift_def bloomMask_mask bit_simps)

section \<open>Chains\<close>

fun chain :: "indexEntry list \<Rightarrow> u64 \<Rightarrow> nat list \<Rightarrow> bool" where
  "chain es w [] \<longleftrightarrow> w = 0"
| "chain es w (i # is) \<longleftrightarrow> w = bloomInsertID (of_nat i) (e_next (es ! i)) (e_id (es ! i))
     \<and> chain es (e_next (es ! i)) is"

lemma chain_cong: "(\<And>i. i \<in> set is \<Longrightarrow> es ! i = es' ! i) \<Longrightarrow> chain es w is = chain es' w is"
  by (induction "is" arbitrary: w) auto

lemma chain_bloom:
  "chain es w is \<Longrightarrow> \<forall>i \<in> set is. i < 2 ^ 36 \<Longrightarrow> i \<in> set is \<Longrightarrow> e_id (es ! i) = key \<Longrightarrow> bloomHasID w key"
proof (induction "is" arbitrary: w)
  case (Cons j "is")
  then have "unat (of_nat j :: u64) < 2 ^ 36" by (auto simp: unat_of_nat)
  then show ?case using Cons by (auto simp: bloomHas_insert)
qed simp

text \<open>\<open>linked f es bs c\<close>: the entries below position \<open>c\<close> are linked into the buckets \<open>bs\<close> that \<open>f\<close> selects
  for their IDs, latest first. Position 0 is the null entry.\<close>

definition bucket_of :: "(ID \<Rightarrow> nat) \<Rightarrow> indexEntry list \<Rightarrow> nat \<Rightarrow> nat \<Rightarrow> nat list" where
  "bucket_of f es c b = rev (filter (\<lambda>i. f (e_id (es ! i)) = b) [1 ..< c])"

definition linked :: "(ID \<Rightarrow> nat) \<Rightarrow> indexEntry list \<Rightarrow> u64 list \<Rightarrow> nat \<Rightarrow> bool" where
  "linked f es bs c \<longleftrightarrow> (\<forall>b < length bs. chain es (bs ! b) (bucket_of f es c b))"

lemma linked_start: "linked f es (replicate n 0) 1"
  by (simp add: linked_def bucket_of_def)

lemma linked_link:
  assumes "linked f es bs c" "1 \<le> c" "c < length es'" "f (e_id e) < length bs"
    and e: "es' ! c = e\<lparr>e_next := bs ! f (e_id e)\<rparr>" and es': "\<And>i. i < c \<Longrightarrow> es' ! i = es ! i"
  shows "linked f es' (bs[f (e_id e) := bloomInsertID (of_nat c) (bs ! f (e_id e)) (e_id e)]) (Suc c)"
proof -
  have eq: "bucket_of f es' c b = bucket_of f es c b" for b
    using es' by (auto simp: bucket_of_def intro!: filter_cong)
  have lt: "i < c" if "i \<in> set (bucket_of f es c b)" for i b using that by (auto simp: bucket_of_def)
  have old: "chain es' w (bucket_of f es c b) = chain es w (bucket_of f es c b)" for w b
    using es' lt by (intro chain_cong) auto
  have "bucket_of f es' (Suc c) b = (if f (e_id e) = b then c # bucket_of f es c b else bucket_of f es c b)" for b
    using assms(2) e eq [of b] by (simp add: bucket_of_def)
  then show ?thesis using assms(1,4) e old by (auto simp: linked_def nth_list_update)
qed

lemma bucket_of_filter:
  "f key = b \<Longrightarrow> filter (\<lambda>i. e_id (es ! i) = key) (bucket_of f es c b) = rev (filter (\<lambda>i. e_id (es ! i) = key) [1 ..< c])"
  by (auto simp: bucket_of_def rev_filter [symmetric] intro: filter_cong)

section \<open>Traversal\<close>

text \<open>The three chain traversals, on any store of entries.\<close>

context entry_store
begin

lemma chain_step:
  assumes "inv s" "chain (entries s) w (i # is)" "i < length (entries s)" "length (entries s) \<le> 2 ^ 36"
  shows "ref s (bloomCleanID w) = Inr (entries s ! i)" "bloomCleanID w = of_nat i" "sint (bloomCleanID w) = int i"
proof -
  have i: "unat (of_nat i :: u64) = i" using assms(3,4) by (simp add: unat_of_nat)
  then show 1: "bloomCleanID w = of_nat i" using assms by (simp add: bloomClean_insert)
  then show "ref s (bloomCleanID w) = Inr (entries s ! i)" using ref [OF assms(1), of "of_nat i"] i assms(3) by simp
  have "i < 2 ^ 63" using assms(3,4) by simp
  then show "sint (bloomCleanID w) = int i" unfolding 1 using sint_small [of "of_nat i"] i by simp
qed

lemma chain_values_spec:
  assumes "inv s" "length (entries s) \<le> 2 ^ 36"
  shows "chain (entries s) w is \<Longrightarrow> \<forall>i \<in> set is. i < length (entries s) \<Longrightarrow> length is < n \<Longrightarrow>
    chain_values (\<lambda>w. ref s (bloomCleanID w)) key n w
      = Inr (map (nth (entries s)) (filter (\<lambda>i. e_id (entries s ! i) = key) is))"
proof (induction "is" arbitrary: w n)
  case Nil
  then show ?case by (cases n) auto
next
  case (Cons i "is")
  from Cons(4) obtain m where n: "n = Suc m" "length is < m" by (cases n) auto
  have nxt: "chain (entries s) (e_next (entries s ! i)) is" using Cons(2) by simp
  show ?case
  proof (cases "bloomHasID w key")
    case True
    then show ?thesis
      using chain_step(1) [OF assms(1) Cons(2) _ assms(2)] Cons(1) [OF nxt _ n(2)] Cons(3) by (simp add: n)
  next
    case False
    then have "\<forall>j \<in> set (i # is). e_id (entries s ! j) \<noteq> key"
      using chain_bloom [OF Cons(2)] Cons(3) assms(2) by fastforce
    then have "filter (\<lambda>i. e_id (entries s ! i) = key) (i # is) = []" by (simp add: filter_empty_conv)
    then show ?thesis using False by (simp add: n)
  qed
qed

lemma chain_get_spec:
  assumes "inv s" "length (entries s) \<le> 2 ^ 36"
  shows "chain (entries s) w is \<Longrightarrow> \<forall>i \<in> set is. i < length (entries s) \<Longrightarrow> length is < n \<Longrightarrow>
    chain_get (\<lambda>w. ref s (bloomCleanID w)) key n w
      = Inr (map_option (nth (entries s)) (find (\<lambda>i. e_id (entries s ! i) = key) is))"
proof (induction "is" arbitrary: w n)
  case Nil
  then show ?case by (cases n) auto
next
  case (Cons i "is")
  from Cons(4) obtain m where n: "n = Suc m" "length is < m" by (cases n) auto
  have nxt: "chain (entries s) (e_next (entries s ! i)) is" using Cons(2) by simp
  show ?case
  proof (cases "bloomHasID w key")
    case True
    then show ?thesis
      using chain_step(1) [OF assms(1) Cons(2) _ assms(2)] Cons(1) [OF nxt _ n(2)] Cons(3) by (simp add: n)
  next
    case False
    then have "\<forall>j \<in> set (i # is). e_id (entries s ! j) \<noteq> key"
      using chain_bloom [OF Cons(2)] Cons(3) assms(2) by fastforce
    then have "find (\<lambda>i. e_id (entries s ! i) = key) (i # is) = None" by (simp only: find_None_iff) blast
    then show ?thesis using False by (simp add: n)
  qed
qed

lemma chain_first_spec:
  assumes "inv s" "length (entries s) \<le> 2 ^ 36"
  shows "chain (entries s) w is \<Longrightarrow> \<forall>i \<in> set is. i < length (entries s) \<Longrightarrow> length is < n \<Longrightarrow>
    sorted_wrt (>) is \<Longrightarrow> idx = -1 \<or> (\<forall>i \<in> set is. int i < idx) \<Longrightarrow>
    chain_first (\<lambda>w. ref s (bloomCleanID w)) key n w idx
      = Inr (last (idx # map int (filter (\<lambda>i. e_id (entries s ! i) = key) is)))"
proof (induction "is" arbitrary: w n idx)
  case Nil
  then show ?case by (cases n) auto
next
  case (Cons i "is")
  from Cons(4) obtain m where n: "n = Suc m" "length is < m" by (cases n) auto
  have nxt: "chain (entries s) (e_next (entries s ! i)) is" using Cons(2) by simp
  show ?case
  proof (cases "bloomHasID w key")
    case True
    then show ?thesis
      using chain_step [OF assms(1) Cons(2) _ assms(2)] Cons(1) [OF nxt _ n(2)] Cons(3,5,6)
      by (auto simp: n Let_def)
  next
    case False
    then have "\<forall>j \<in> set (i # is). e_id (entries s ! j) \<noteq> key"
      using chain_bloom [OF Cons(2)] Cons(3) assms(2) by fastforce
    then have "filter (\<lambda>i. e_id (entries s ! i) = key) (i # is) = []" by (simp add: filter_empty_conv)
    then show ?thesis using False by (simp add: n)
  qed
qed

end

section \<open>Invariant and contents\<close>

text \<open>What an entry says, without the link.\<close>

definition payload :: "indexEntry \<Rightarrow> indexEntry" where
  "payload e = e\<lparr>e_next := 0\<rparr>"

lemma payload_id [simp]: "e_id (payload e) = e_id e" "payload (e\<lparr>e_next := n\<rparr>) = payload e"
  by (simp_all add: payload_def)

definition map_entries :: "indexMap \<Rightarrow> indexEntry list" where
  "map_entries m = hat_entries (m_blockList m)"

definition map_contents :: "indexMap \<Rightarrow> indexEntry list" where
  "map_contents m = map payload (tl (map_entries m))"

abbreviation map_bucket :: "indexMap \<Rightarrow> ID \<Rightarrow> nat" where
  "map_bucket m \<equiv> \<lambda>key. unat (indexMap_hash m key)"

text \<open>A map in use: the number of buckets is a power of two, position 0 of the array is the null entry,
  the positions fit the 36 bits of a link, and every entry is on its bucket's chain.\<close>

definition map_ready :: "indexMap \<Rightarrow> bool" where
  "map_ready m \<longleftrightarrow> (\<exists>j \<le> 61. length (m_buckets m) = 2 ^ j) \<and> hat_inv (m_blockList m)
     \<and> length (map_entries m) = unat (m_numentries m) + 1 \<and> length (map_entries m) \<le> 2 ^ 36
     \<and> linked (map_bucket m) (map_entries m) (m_buckets m) (length (map_entries m))"

definition map_inv :: "indexMap \<Rightarrow> bool" where
  "map_inv m \<longleftrightarrow> map_ready m \<or> m_buckets m = [] \<and> m_numentries m = 0 \<and> m_blockList m = zeroHAT"

lemma indexMap_hash_lt:
  assumes "length (m_buckets m) = 2 ^ j" "j \<le> 61"
  shows "unat (indexMap_hash m key) < length (m_buckets m)"
proof -
  have "indexMap_hash m key = take_bit j (m_mh m key)"
    by (simp add: indexMap_hash_def assms(1) take_bit_eq_mask mask_eq_exp_minus_1)
  then have "unat (indexMap_hash m key) = unat (m_mh m key) mod 2 ^ j"
    using take_bit_eq_mod [of j "unat (m_mh m key)"] by (simp add: unsigned_take_bit_eq)
  then show ?thesis by (simp add: assms(1))
qed

lemma zeroMap_inv: "map_inv (zeroMap mh)" "map_contents (zeroMap mh) = []"
  by (simp_all add: map_inv_def zeroMap_def map_contents_def map_entries_def zeroHAT_def hat_entries_def)

lemma length_map_contents: "map_inv m \<Longrightarrow> length (map_contents m) = unat (m_numentries m)"
  by (auto simp: map_inv_def map_ready_def map_contents_def map_entries_def hat_entries_def zeroHAT_def)

text \<open>Linking an entry at position \<open>c\<close>, which both rehashing and adding do.\<close>

lemma rehash_step_linked:
  assumes "hat_inv (m_blockList m)" "length (m_buckets m) = 2 ^ j" "j \<le> 61" "1 \<le> c" "c < length (map_entries m)"
    "length (map_entries m) \<le> 2 ^ 36" "linked (map_bucket m) (map_entries m) (m_buckets m) c"
  shows "\<exists>m'. rehash_step m (of_nat c) = Inr m' \<and> hat_inv (m_blockList m') \<and> length (m_buckets m') = 2 ^ j
    \<and> m_mh m' = m_mh m \<and> m_numentries m' = m_numentries m
    \<and> map payload (map_entries m') = map payload (map_entries m)
    \<and> linked (map_bucket m') (map_entries m') (m_buckets m') (Suc c)"
proof -
  let ?es = "map_entries m" and ?t = "m_blockList m"
  let ?e = "?es ! c"
  have c: "unat (of_nat c :: u64) = c" using assms(5,6) by (simp add: unat_of_nat)
  have cl: "bloomCleanID (of_nat c) = of_nat c" using c assms(5,6) by (intro bloomCleanID_small) simp
  have r: "resolve m (of_nat c) = Inr ?e"
    using hat.ref [OF assms(1), of "of_nat c"] c assms(5) by (simp add: resolve_def cl map_entries_def)
  have h: "map_bucket m (e_id ?e) < length (m_buckets m)" by (rule indexMap_hash_lt [OF assms(2,3)])
  let ?n = "m_buckets m ! map_bucket m (e_id ?e)"
  obtain t where t: "Ref_set ?t (of_nat c) (?e\<lparr>e_next := ?n\<rparr>) = Inr t" "hat_inv t"
    "hat_entries t = ?es[c := ?e\<lparr>e_next := ?n\<rparr>]"
    using hat.upd [OF assms(1), of "of_nat c" "?e\<lparr>e_next := ?n\<rparr>"] c assms(5) by (auto simp: map_entries_def)
  let ?m = "m\<lparr>m_blockList := t, m_buckets := (m_buckets m)[map_bucket m (e_id ?e) := bloomInsertID (of_nat c) ?n (e_id ?e)]\<rparr>"
  have mh: "indexMap_hash ?m = indexMap_hash m" by (rule ext) (simp add: indexMap_hash_def)
  have "rehash_step m (of_nat c) = Inr ?m"
    using r t(1) h by (simp add: rehash_step_def Let_def bucket_get_def cl)
  moreover have "linked (map_bucket ?m) (map_entries ?m) (m_buckets ?m) (Suc c)"
    using linked_link [of "map_bucket m" ?es "m_buckets m" c "hat_entries t" ?e] assms(4,5,7) t(3) h
    unfolding mh by (simp add: map_entries_def)
  moreover have same: "(map payload ?es)[c := payload ?e] = map payload ?es"
    using assms(5) by (metis list_update_id nth_map)
  have "map payload (map_entries ?m) = map payload ?es"
    using t(3) same by (simp add: map_entries_def map_update)
  ultimately show ?thesis using t(2) assms(2) by auto
qed

lemma payload_length: "map payload xs = map payload ys \<Longrightarrow> length xs = length ys"
  by (metis length_map)

lemma rehash_all:
  assumes "hat_inv (m_blockList m)" "length (m_buckets m) = 2 ^ j" "j \<le> 61" "1 \<le> c" "c + k = length (map_entries m)"
    "length (map_entries m) \<le> 2 ^ 36" "linked (map_bucket m) (map_entries m) (m_buckets m) c"
  shows "\<exists>m'. foldM rehash_step m (map of_nat [c ..< c + k]) = Inr m' \<and> hat_inv (m_blockList m')
    \<and> length (m_buckets m') = 2 ^ j \<and> m_mh m' = m_mh m \<and> m_numentries m' = m_numentries m
    \<and> map payload (map_entries m') = map payload (map_entries m)
    \<and> linked (map_bucket m') (map_entries m') (m_buckets m') (length (map_entries m'))"
  using assms
proof (induction k arbitrary: m c)
  case 0
  then show ?case by simp
next
  case (Suc k)
  have "c < length (map_entries m)" using Suc.prems(5) by simp
  from rehash_step_linked [OF Suc.prems(1-4) this Suc.prems(6,7)] obtain m1 where
    m1: "rehash_step m (of_nat c) = Inr m1" "hat_inv (m_blockList m1)" "length (m_buckets m1) = 2 ^ j"
      "m_mh m1 = m_mh m" "m_numentries m1 = m_numentries m"
      "map payload (map_entries m1) = map payload (map_entries m)"
      "linked (map_bucket m1) (map_entries m1) (m_buckets m1) (Suc c)" by blast
  have l: "length (map_entries m1) = length (map_entries m)" using m1(6) by (rule payload_length)
  have "Suc c + k = length (map_entries m1)" using Suc.prems(5) l by simp
  moreover have "[c ..< c + Suc k] = c # [Suc c ..< Suc c + k]" by (simp add: upt_conv_Cons del: upt_Suc)
  ultimately show ?case
    using Suc.IH [OF m1(2,3) Suc.prems(3), of "Suc c"] m1 l Suc.prems(6) by (simp del: upt_Suc)
qed

lemma grow_buckets_spec:
  "0 < n0 \<Longrightarrow> wanted \<le> n0 * 2 ^ k \<Longrightarrow> \<exists>i \<le> k. grow_buckets (Suc k) n0 wanted = Inr (n0 * 2 ^ i)
     \<and> (i = 0 \<or> n0 * 2 ^ i < 2 * wanted)"
proof (induction k arbitrary: n0)
  case (Suc k)
  show ?case
  proof (cases "n0 < wanted")
    case True
    with Suc.IH [of "n0 * 2"] Suc.prems obtain i where
      "i \<le> k" "grow_buckets (Suc k) (n0 * 2) wanted = Inr (n0 * 2 * 2 ^ i)" "i = 0 \<or> n0 * 2 * 2 ^ i < 2 * wanted"
      by auto
    then show ?thesis using True by (intro exI [of _ "Suc i"]) auto
  qed (auto intro: exI [of _ 0])
qed auto

declare grow_buckets.simps [simp del]

lemma indexMap_init_ready:
  assumes "map_inv m" "m_buckets m = []"
  obtains m' where "indexMap_init m = Inr m'" "map_ready m'" "map_contents m' = map_contents m" "m_mh m' = m_mh m"
    "m_numentries m' = m_numentries m"
proof -
  have m: "m_numentries m = 0" "m_blockList m = zeroHAT"
    using assms by (auto simp: map_inv_def map_ready_def)
  obtain t e where t: "Alloc newHAT = Inr (t, 0)" "hat_inv t" "hat_entries t = [e]"
    using hat.alloc [OF newHAT_inv(1)] newHAT_inv(2) by auto
  let ?m = "m\<lparr>m_buckets := replicate 64 0, m_blockList := t\<rparr>"
  have "indexMap_init m = Inr ?m" by (simp add: indexMap_init_def newEntry_def t(1) bloomCleanID_small)
  moreover have "map_ready ?m"
    using t m linked_start [of "map_bucket ?m" "[e]" 64]
    by (auto simp: map_ready_def map_entries_def intro: exI [of _ 6])
  moreover have "map_contents ?m = map_contents m"
    using t m by (simp add: map_contents_def map_entries_def zeroHAT_def hat_entries_def)
  ultimately show thesis using that by simp
qed

lemma indexMap_preallocate_ready:
  assumes "map_inv m" "0 < n" "n \<le> 2 ^ 62"
  obtains m' where "indexMap_preallocate m n = Inr m'" "map_ready m'" "map_contents m' = map_contents m"
    "m_numentries m' = m_numentries m"
proof -
  obtain m1 where m1: "(if m_buckets m = [] then indexMap_init m else Inr m) = Inr m1" "map_ready m1"
    "map_contents m1 = map_contents m" "m_numentries m1 = m_numentries m"
  proof (cases "m_buckets m = []")
    case True
    then show thesis using indexMap_init_ready [OF assms(1)] that by metis
  next
    case False
    then show thesis using assms(1) that by (auto simp: map_inv_def)
  qed
  from m1(2) obtain j where j: "j \<le> 61" "length (m_buckets m1) = 2 ^ j" by (auto simp: map_ready_def)
  let ?w = "(n + maxLoad - 1) div maxLoad"
  have w: "?w \<le> 2 ^ 60" "0 < ?w" using assms(2,3) by (simp_all add: maxLoad_def)
  have "?w \<le> 2 ^ 63" using w(1) by simp
  also have "2 ^ 63 \<le> 2 ^ j * (2 :: int) ^ 63" by simp
  finally have "?w \<le> 2 ^ j * 2 ^ 63" .
  from grow_buckets_spec [OF zero_less_power [OF zero_less_numeral] this] obtain i where
    "grow_buckets (Suc 63) (2 ^ j) ?w = Inr (2 ^ j * 2 ^ i)" "i = 0 \<or> 2 ^ j * 2 ^ i < 2 * ?w"
    by (elim exE conjE)
  then have i: "grow_buckets 64 (2 ^ j) ?w = Inr (2 ^ (j + i))" "i = 0 \<or> 2 ^ (j + i) < 2 * ?w"
    by (simp_all add: power_add)
  show thesis
  proof (cases "i = 0")
    case True
    then have "indexMap_preallocate m n = Inr m1" using assms(2) m1(1) i(1) j(2) by (simp add: indexMap_preallocate_def)
    then show thesis using that m1 by simp
  next
    case False
    then have "(2 :: int) ^ (j + i) < 2 ^ 61" using i(2) w(1) by simp
    then have "j + i < 61" by (rule power_less_imp_less_exp [rotated]) simp
    then have ji: "j + i \<le> 61" by simp
    let ?m2 = "m1\<lparr>m_buckets := replicate (2 ^ (j + i)) 0\<rparr>"
    have r: "hat_inv (m_blockList ?m2)" "length (map_entries ?m2) \<le> 2 ^ 36" "1 + (length (map_entries ?m2) - 1) = length (map_entries ?m2)"
      using m1(2) by (auto simp: map_ready_def map_entries_def)
    have "length (m_buckets ?m2) = 2 ^ (j + i)" "linked (map_bucket ?m2) (map_entries ?m2) (m_buckets ?m2) 1"
      using linked_start by simp_all
    from rehash_all [OF r(1) this(1) ji order_refl r(3,2) this(2)] obtain m3 where
      m3: "foldM rehash_step ?m2 (map of_nat [1 ..< length (map_entries ?m2)]) = Inr m3" "hat_inv (m_blockList m3)"
        "length (m_buckets m3) = 2 ^ (j + i)" "m_numentries m3 = m_numentries ?m2"
        "map payload (map_entries m3) = map payload (map_entries ?m2)"
        "linked (map_bucket m3) (map_entries m3) (m_buckets m3) (length (map_entries m3))"
      unfolding r(3) by (elim exE conjE)
    have n62: "nat n \<le> 2 ^ 62" using assms(3) by (simp add: nat_le_iff)
    obtain t where t: "hat_preallocate (m_blockList m3) (of_int n) = Inr t" "hat_inv t" "hat_entries t = map_entries m3"
      using hat.reserve [OF m3(2), of "nat n"] assms(2) n62 by (auto simp: map_entries_def)
    let ?m4 = "m3\<lparr>m_blockList := t\<rparr>"
    have "indexMap_preallocate m n = Inr ?m4"
      using False assms(2) m1(1) i(1) j(2) m3(1) t(1)
      by (simp add: indexMap_preallocate_def map_entries_def nat_power_eq)
    moreover have mh: "indexMap_hash ?m4 = indexMap_hash m3" by (rule ext) (simp add: indexMap_hash_def)
    have "map_ready ?m4"
      using m1(2,4) m3 t ji payload_length [OF m3(5)] unfolding map_ready_def mh
      by (auto simp: map_entries_def)
    moreover have "map_contents ?m4 = map_contents m"
      using m3(5) m1(3) t(3) by (simp add: map_contents_def map_entries_def map_tl)
    ultimately show thesis using that m1(4) m3(4) by simp
  qed
qed

section \<open>Operations\<close>

definition new_payload :: "ID \<Rightarrow> u32 \<Rightarrow> u32 \<Rightarrow> u32 \<Rightarrow> u32 \<Rightarrow> indexEntry" where
  "new_payload key p off len ul = \<lparr>e_id = key, e_next = 0, e_packIndex = p, e_offset = off, e_length = len,
     e_uncompressedLength = ul\<rparr>"

lemma indexMap_add_ok:
  assumes "map_inv m" "length (map_contents m) < 2 ^ 36 - 1"
  obtains m' where "indexMap_add m key p off len ul = Inr m'" "map_inv m'"
    "map_contents m' = map_contents m @ [new_payload key p off len ul]"
proof -
  have l: "unat (m_numentries m) < 2 ^ 36 - 1" using assms length_map_contents by simp
  then have s: "sint (m_numentries m) = int (unat (m_numentries m))" by (intro sint_small) simp
  have "int (unat (m_numentries m)) < int (2 ^ 36)" unfolding of_nat_less_iff using l by simp
  then have b: "0 < sint (m_numentries m) + 1" "sint (m_numentries m) + 1 \<le> 2 ^ 62" unfolding s by simp_all
  obtain m1 where m1: "indexMap_preallocate m (sint (m_numentries m) + 1) = Inr m1" "map_ready m1"
    "map_contents m1 = map_contents m" "m_numentries m1 = m_numentries m"
    by (rule indexMap_preallocate_ready [OF assms(1) b])
  let ?es = "map_entries m1" and ?h = "map_bucket m1 key"
  have es: "length ?es = unat (m_numentries m) + 1" "hat_inv (m_blockList m1)"
    "linked (map_bucket m1) ?es (m_buckets m1) (length ?es)" using m1 by (auto simp: map_ready_def)
  have h: "?h < length (m_buckets m1)" using m1(2) indexMap_hash_lt by (auto simp: map_ready_def)
  let ?e = "\<lparr>e_id = key, e_next = m_buckets m1 ! ?h, e_packIndex = p, e_offset = off, e_length = len,
     e_uncompressedLength = ul\<rparr>"
  have "length (hat_entries (m_blockList m1)) < 2 ^ 62" using es(1) l by (simp add: map_entries_def)
  from hat.alloc_upd [OF es(2) this, of ?e] obtain t1 t2 where
    t: "Alloc (m_blockList m1) = Inr (t1, of_nat (length ?es))" "Ref_set t1 (of_nat (length ?es)) ?e = Inr t2"
      "hat_inv t2" "hat_entries t2 = ?es @ [?e]" by (auto simp: map_entries_def)
  have c: "bloomCleanID (of_nat (length ?es)) = of_nat (length ?es)"
  proof (rule bloomCleanID_small)
    have "length ?es < 2 ^ 36" using es(1) l by simp
    then show "unat (of_nat (length ?es) :: u64) < 2 ^ 36" unfolding unat_of_nat by simp
  qed
  define bs where "bs = (m_buckets m1)[?h := bloomInsertID (of_nat (length ?es)) (m_buckets m1 ! ?h) key]"
  let ?m = "m1\<lparr>m_blockList := t2, m_buckets := bs, m_numentries := m_numentries m1 + 1\<rparr>"
  have ad: "indexMap_add m key p off len ul = Inr ?m"
    using m1(1) t(1,2) h by (simp add: indexMap_add_def Let_def newEntry_def c bucket_get_def bs_def)
  have mh: "indexMap_hash ?m = indexMap_hash m1" by (rule ext) (simp add: indexMap_hash_def bs_def)
  have me: "map_entries ?m = ?es @ [?e]" using t(4) by (simp add: map_entries_def)
  have un: "unat (m_numentries m1 + 1) = unat (m_numentries m) + 1"
    using l m1(4) by (intro trans [OF unat_word_inc]) simp_all
  have "linked (map_bucket m1) (?es @ [?e]) bs (length (?es @ [?e]))"
    using linked_link [of "map_bucket m1" ?es "m_buckets m1" "length ?es" "?es @ [?e]" ?e] es h
    by (simp add: nth_append bs_def)
  moreover have "length bs = length (m_buckets m1)" by (simp add: bs_def)
  ultimately have "map_ready ?m"
    using m1(2) t(3) es(1) un l unfolding map_ready_def mh me by simp
  then have "map_inv ?m" by (simp add: map_inv_def)
  moreover have "map_contents ?m = map_contents m @ [new_payload key p off len ul]"
  proof -
    have "?es \<noteq> []" using es(1) by auto
    then show ?thesis
      using m1(3) t(4) by (simp add: map_contents_def map_entries_def new_payload_def payload_def)
  qed
  ultimately show thesis using that ad by blast
qed

text \<open>The guard of \<^verbatim>\<open>newEntry\<close>: the table refuses an entry whose position does not fit 36 bits.\<close>

lemma indexMap_add_overflow:
  assumes "map_inv m" "length (map_contents m) = 2 ^ 36 - 1"
  shows "indexMap_add m key p off len ul = Inl (Panic ''repository index size overflow'')"
proof -
  have l: "unat (m_numentries m) = 2 ^ 36 - 1" using assms length_map_contents by simp
  then have s: "sint (m_numentries m) = int (unat (m_numentries m))" by (intro sint_small) simp
  have "int (unat (m_numentries m)) < int (2 ^ 36)" unfolding of_nat_less_iff using l by simp
  then have b: "0 < sint (m_numentries m) + 1" "sint (m_numentries m) + 1 \<le> 2 ^ 62" unfolding s by simp_all
  obtain m1 where m1: "indexMap_preallocate m (sint (m_numentries m) + 1) = Inr m1" "map_ready m1"
    "m_numentries m1 = m_numentries m"
    by (rule indexMap_preallocate_ready [OF assms(1) b])
  have es: "length (hat_entries (m_blockList m1)) = 2 ^ 36" "hat_inv (m_blockList m1)"
    using m1 l by (auto simp: map_ready_def map_entries_def)
  from hat.alloc [OF es(2)] es(1) obtain t where
    "Alloc (m_blockList m1) = Inr (t, of_nat (length (hat_entries (m_blockList m1))))" by fastforce
  then have "Alloc (m_blockList m1) = Inr (t, of_nat (2 ^ 36))" by (simp only: es(1))
  then show ?thesis using m1(1) bloomCleanID_overflow by (simp add: indexMap_add_def newEntry_def Let_def)
qed

lemma indexMap_values_contents:
  assumes "map_inv m"
  shows "\<exists>es. indexMap_values m = Inr es \<and> map payload es = map_contents m"
proof (cases "map_ready m")
  case True
  let ?es = "map_entries m"
  have h: "hat_inv (m_blockList m)" "length ?es \<le> 2 ^ 36" using True by (auto simp: map_ready_def)
  have res: "resolve m (of_nat i) = Inr (?es ! i)" if "i \<in> set [1 ..< length ?es]" for i
  proof -
    have i: "unat (of_nat i :: u64) = i" "i < length ?es" using that h(2) by (simp_all add: unat_of_nat)
    then have "bloomCleanID (of_nat i) = of_nat i" using h(2) by (intro bloomCleanID_small) simp
    then show ?thesis using hat.ref [OF h(1), of "of_nat i"] i by (simp add: resolve_def map_entries_def)
  qed
  have "mapM (\<lambda>i. resolve m (of_nat i)) [1 ..< length ?es] = Inr (map (nth ?es) [1 ..< length ?es])"
    by (rule mapM_Inr) (rule res)
  then have "indexMap_values m = Inr (map (nth ?es) [1 ..< length ?es])"
    by (simp add: indexMap_values_def map_entries_def)
  moreover have "map (nth ?es) [1 ..< length ?es] = tl ?es"
    by (rule nth_equalityI) (auto simp: nth_tl)
  ultimately show ?thesis by (simp add: map_contents_def)
next
  case False
  then have "m_blockList m = zeroHAT" using assms by (simp add: map_inv_def)
  then show ?thesis by (simp add: indexMap_values_def map_contents_def map_entries_def zeroHAT_def hat_entries_def)
qed

text \<open>Lookups: the entry of a bucket's chain with the key are all entries with the key.\<close>

lemma lookup_start:
  assumes "map_ready m"
  obtains w "is" where "bucket_get m (indexMap_hash m key) = Inr w" "chain (map_entries m) w is"
    "\<forall>i \<in> set is. i < length (map_entries m)" "length is < Suc (unat (h_size (m_blockList m)))"
    "sorted_wrt (>) is"
    "filter (\<lambda>i. e_id (map_entries m ! i) = key) is
       = rev (filter (\<lambda>i. e_id (map_entries m ! i) = key) [1 ..< length (map_entries m)])"
proof -
  let ?es = "map_entries m" and ?b = "map_bucket m key"
  let ?is = "bucket_of (map_bucket m) ?es (length ?es) ?b"
  have b: "?b < length (m_buckets m)" using assms indexMap_hash_lt by (auto simp: map_ready_def)
  have "chain ?es (m_buckets m ! ?b) ?is" using assms b unfolding map_ready_def linked_def by blast
  moreover have "\<forall>i \<in> set ?is. i < length ?es" by (simp add: bucket_of_def)
  moreover have "length ?is \<le> length [1 ..< length ?es]" unfolding bucket_of_def length_rev by (rule length_filter_le)
  then have "length ?is < Suc (unat (h_size (m_blockList m)))" by (simp add: map_entries_def)
  moreover have "sorted_wrt (>) ?is"
    by (simp add: bucket_of_def sorted_wrt_rev sorted_wrt_filter strict_sorted_iff [symmetric])
  moreover have "filter (\<lambda>i. e_id (?es ! i) = key) ?is = rev (filter (\<lambda>i. e_id (?es ! i) = key) [1 ..< length ?es])"
    by (rule bucket_of_filter) simp
  ultimately show thesis using that [of "m_buckets m ! ?b" ?is] b by (simp add: bucket_get_def)
qed

lemma map_nth_filter:
  assumes "1 \<le> length es"
  shows "map payload (map (nth es) (filter (\<lambda>i. e_id (es ! i) = key) [1 ..< length es]))
     = filter (\<lambda>e. e_id e = key) (map payload (tl es))"
proof -
  have "tl es = map (nth es) [1 ..< length es]" by (rule nth_equalityI) (auto simp: nth_tl)
  then show ?thesis by (simp add: filter_map o_def)
qed

lemma resolve_ref: "resolve m = (\<lambda>w. Ref (m_blockList m) (bloomCleanID w))"
  by (simp add: resolve_def fun_eq_iff)

lemma unready_contents: "map_inv m \<Longrightarrow> \<not> map_ready m \<Longrightarrow> m_buckets m = [] \<and> map_contents m = []"
  by (auto simp: map_inv_def map_contents_def map_entries_def hat_entries_def zeroHAT_def)

lemma map_ready_buckets: "map_ready m \<Longrightarrow> m_buckets m \<noteq> []"
  by (auto simp: map_ready_def)

lemma valuesWithID_contents:
  assumes "map_inv m"
  shows "\<exists>es. valuesWithID m key = Inr es \<and> map payload es = rev (filter (\<lambda>e. e_id e = key) (map_contents m))"
proof (cases "map_ready m")
  case True
  then have h: "hat_inv (m_blockList m)" "length (map_entries m) \<le> 2 ^ 36" "1 \<le> length (map_entries m)"
    by (auto simp: map_ready_def)
  obtain w "is" where r: "bucket_get m (indexMap_hash m key) = Inr w" "chain (map_entries m) w is"
    "\<forall>i \<in> set is. i < length (map_entries m)" "length is < Suc (unat (h_size (m_blockList m)))"
    "filter (\<lambda>i. e_id (map_entries m ! i) = key) is
       = rev (filter (\<lambda>i. e_id (map_entries m ! i) = key) [1 ..< length (map_entries m)])"
    by (rule lookup_start [OF True])
  have "valuesWithID m key = Inr (map (nth (map_entries m)) (filter (\<lambda>i. e_id (map_entries m ! i) = key) is))"
    using hat.chain_values_spec [OF h(1,2) [unfolded map_entries_def] r(2-4) [unfolded map_entries_def]]
      map_ready_buckets [OF True] r(1)
    by (simp add: valuesWithID_def resolve_ref map_entries_def)
  then show ?thesis
    using map_nth_filter [OF h(3), of key] by (simp add: r(5) rev_map [symmetric] map_contents_def)
next
  case False
  then show ?thesis using unready_contents [OF assms] by (simp add: valuesWithID_def)
qed

lemma find_filter: "find P xs = (case filter P xs of [] \<Rightarrow> None | x # _ \<Rightarrow> Some x)"
  by (induction xs) auto

lemma indexMap_get_contents:
  assumes "map_inv m"
  shows "\<exists>r. indexMap_get m key = Inr r \<and>
    map_option payload r = find (\<lambda>e. e_id e = key) (rev (map_contents m))"
proof (cases "map_ready m")
  case True
  then have h: "hat_inv (m_blockList m)" "length (map_entries m) \<le> 2 ^ 36" "1 \<le> length (map_entries m)"
    by (auto simp: map_ready_def)
  obtain w "is" where r: "bucket_get m (indexMap_hash m key) = Inr w" "chain (map_entries m) w is"
    "\<forall>i \<in> set is. i < length (map_entries m)" "length is < Suc (unat (h_size (m_blockList m)))"
    "filter (\<lambda>i. e_id (map_entries m ! i) = key) is
       = rev (filter (\<lambda>i. e_id (map_entries m ! i) = key) [1 ..< length (map_entries m)])"
    by (rule lookup_start [OF True])
  have g: "indexMap_get m key = Inr (map_option (nth (map_entries m)) (find (\<lambda>i. e_id (map_entries m ! i) = key) is))"
    using hat.chain_get_spec [OF h(1,2) [unfolded map_entries_def] r(2-4) [unfolded map_entries_def]]
      map_ready_buckets [OF True] r(1)
    by (simp add: indexMap_get_def resolve_ref map_entries_def)
  have "filter (\<lambda>e. e_id e = key) (rev (map_contents m))
      = map payload (map (nth (map_entries m)) (filter (\<lambda>i. e_id (map_entries m ! i) = key) is))"
    using map_nth_filter [OF h(3), of key] by (simp add: r(5) rev_map [symmetric] map_contents_def rev_filter [symmetric])
  then show ?thesis unfolding g find_filter by (auto split: list.splits)
next
  case False
  then show ?thesis using unready_contents [OF assms] by (simp add: indexMap_get_def)
qed

lemma hd_filter_upt:
  assumes "\<exists>e \<in> set es. P e"
  shows "filter (\<lambda>i. P (es ! i)) [0 ..< length es] \<noteq> []"
    "hd (filter (\<lambda>i. P (es ! i)) [0 ..< length es]) = length (takeWhile (\<lambda>e. \<not> P e) es)"
proof -
  let ?k = "length (takeWhile (\<lambda>e. \<not> P e) es)"
  have k: "?k < length es" using assms by (induction es) auto
  have p: "P (es ! ?k)" using nth_length_takeWhile [OF k] by simp
  have "\<not> P (es ! i)" if "i < ?k" for i
    using that k nth_mem [OF that] takeWhile_nth [OF that] set_takeWhileD by metis
  then have e: "filter (\<lambda>i. P (es ! i)) [0 ..< ?k] = []" by (simp add: filter_empty_conv)
  have s: "[0 ..< length es] = [0 ..< ?k] @ ?k # [Suc ?k ..< length es]"
    using upt_add_eq_append [of 0 ?k "length es - ?k"] k upt_conv_Cons [OF k] by simp
  have "filter (\<lambda>i. P (es ! i)) [0 ..< length es] = ?k # filter (\<lambda>i. P (es ! i)) [Suc ?k ..< length es]"
    unfolding s filter_append e by (simp add: p)
  then show "filter (\<lambda>i. P (es ! i)) [0 ..< length es] \<noteq> []"
    "hd (filter (\<lambda>i. P (es ! i)) [0 ..< length es]) = ?k" by simp_all
qed

text \<open>Positions count from 1, in insertion order.\<close>

definition first_pos :: "ID \<Rightarrow> indexEntry list \<Rightarrow> int" where
  "first_pos key es = (if key \<in> e_id ` set es then int (length (takeWhile (\<lambda>e. e_id e \<noteq> key) es)) + 1 else -1)"

lemma first_pos_filter:
  assumes "1 \<le> length es"
  shows "last (-1 # map int (rev (filter (\<lambda>i. e_id (es ! i) = key) [1 ..< length es])))
    = first_pos key (map payload (tl es))"
proof -
  let ?ts = "map payload (tl es)"
  have "[1 ..< length es] = map Suc [0 ..< length ?ts]" 
    using assms by (cases es) (simp_all add: map_Suc_upt del: upt_Suc)
  then have "filter (\<lambda>i. e_id (es ! i) = key) [1 ..< length es]
      = map Suc (filter (\<lambda>i. e_id (es ! Suc i) = key) [0 ..< length ?ts])" by (simp add: filter_map o_def)
  also have "\<dots> = map Suc (filter (\<lambda>i. e_id (?ts ! i) = key) [0 ..< length ?ts])"
    by (intro arg_cong [of _ _ "map Suc"] filter_cong) (auto simp: nth_tl)
  finally have f: "filter (\<lambda>i. e_id (es ! i) = key) [1 ..< length es]
    = map Suc (filter (\<lambda>i. e_id (?ts ! i) = key) [0 ..< length ?ts])" .
  show ?thesis
  proof (cases "\<exists>e \<in> set ?ts. e_id e = key")
    case True
    then show ?thesis
      unfolding f using hd_filter_upt [OF True]
      by (auto simp: first_pos_def rev_map [symmetric] last_rev hd_map image_iff)
  next
    case False
    then have "filter (\<lambda>i. e_id (?ts ! i) = key) [0 ..< length ?ts] = []" by (auto simp: filter_empty_conv)
    then show ?thesis unfolding f using False by (auto simp: first_pos_def)
  qed
qed

lemma firstIndex_contents:
  assumes "map_inv m"
  shows "firstIndex m key = Inr (first_pos key (map_contents m))"
proof (cases "map_ready m")
  case True
  then have h: "hat_inv (m_blockList m)" "length (map_entries m) \<le> 2 ^ 36" "1 \<le> length (map_entries m)"
    by (auto simp: map_ready_def)
  obtain w "is" where r: "bucket_get m (indexMap_hash m key) = Inr w" "chain (map_entries m) w is"
    "\<forall>i \<in> set is. i < length (map_entries m)" "length is < Suc (unat (h_size (m_blockList m)))" "sorted_wrt (>) is"
    "filter (\<lambda>i. e_id (map_entries m ! i) = key) is
       = rev (filter (\<lambda>i. e_id (map_entries m ! i) = key) [1 ..< length (map_entries m)])"
    by (rule lookup_start [OF True])
  have "firstIndex m key = Inr (last (-1 # map int (filter (\<lambda>i. e_id (map_entries m ! i) = key) is)))"
    using hat.chain_first_spec [OF h(1,2) [unfolded map_entries_def] r(2-5) [unfolded map_entries_def], of "-1"]
      map_ready_buckets [OF True] r(1)
    by (simp add: firstIndex_def resolve_ref map_entries_def del: last.simps)
  then show ?thesis
    using first_pos_filter [OF h(3), of key] by (simp add: r(6) map_contents_def del: last.simps)
next
  case False
  then show ?thesis using unready_contents [OF assms] by (simp add: firstIndex_def first_pos_def)
qed

lemma first_pos_append: "key \<in> e_id ` set es \<Longrightarrow> first_pos key (es @ es') = first_pos key es"
  by (auto simp: first_pos_def image_iff)

lemma first_pos_inj: "first_pos key es \<noteq> -1 \<Longrightarrow> first_pos key' es = first_pos key es \<Longrightarrow> key' = key"
proof -
  assume n: "first_pos key es \<noteq> -1" "first_pos key' es = first_pos key es"
  have at: "e_id (es ! nat (first_pos k es - 1)) = k" if "first_pos k es \<noteq> -1" for k
  proof -
    have "\<exists>e \<in> set es. e_id e = k" using that by (auto simp: first_pos_def split: if_splits)
    then have "length (takeWhile (\<lambda>e. e_id e \<noteq> k) es) < length es" by (induction es) auto
    then have "e_id (es ! length (takeWhile (\<lambda>e. e_id e \<noteq> k) es)) = k"
      using nth_length_takeWhile [of "\<lambda>e. e_id e \<noteq> k" es] by simp
    then show ?thesis using that by (auto simp: first_pos_def split: if_splits)
  qed
  show ?thesis using at n by metis
qed

section \<open>The interface\<close>

text \<open>A multimap from IDs to entries that remembers the order of insertion.\<close>

locale blob_multimap =
  fixes inv :: "'m \<Rightarrow> bool"
    and contents :: "'m \<Rightarrow> indexEntry list"
    and add :: "'m \<Rightarrow> ID \<Rightarrow> u32 \<Rightarrow> u32 \<Rightarrow> u32 \<Rightarrow> u32 \<Rightarrow> 'm result"
    and all :: "'m \<Rightarrow> indexEntry list result"
    and lookup :: "'m \<Rightarrow> ID \<Rightarrow> indexEntry list result"
    and get :: "'m \<Rightarrow> ID \<Rightarrow> indexEntry option result"
    and cap :: nat
  assumes add: "inv m \<Longrightarrow> length (contents m) < cap \<Longrightarrow>
      \<exists>m'. add m key p off len ul = Inr m' \<and> inv m' \<and> contents m' = contents m @ [new_payload key p off len ul]"
    and all: "inv m \<Longrightarrow> \<exists>es. all m = Inr es \<and> map payload es = contents m"
    and lookup: "inv m \<Longrightarrow>
      \<exists>es. lookup m key = Inr es \<and> map payload es = rev (filter (\<lambda>e. e_id e = key) (contents m))"
    and get: "inv m \<Longrightarrow>
      \<exists>r. get m key = Inr r \<and> map_option payload r = find (\<lambda>e. e_id e = key) (rev (contents m))"
begin

definition add_entry :: "'m \<Rightarrow> indexEntry \<Rightarrow> 'm result" where
  "add_entry m e = add m (e_id e) (e_packIndex e) (e_offset e) (e_length e) (e_uncompressedLength e)"

lemma new_payload_fields:
  "new_payload (e_id e) (e_packIndex e) (e_offset e) (e_length e) (e_uncompressedLength e) = payload e"
  by (simp add: new_payload_def payload_def)

text \<open>Adding a list of entries appends it.\<close>

lemma add_entries:
  "inv m \<Longrightarrow> length (contents m) + length es \<le> cap \<Longrightarrow>
     \<exists>m'. foldM add_entry m es = Inr m' \<and> inv m' \<and> contents m' = contents m @ map payload es"
proof (induction es arbitrary: m)
  case (Cons e es)
  then have "length (contents m) < cap" by simp
  from add [OF Cons.prems(1) this] obtain m1 where
    m1: "add_entry m e = Inr m1" "inv m1" "contents m1 = contents m @ [payload e]"
    unfolding add_entry_def by (metis new_payload_fields)
  then show ?case using Cons.IH [OF m1(2)] Cons.prems(2) by auto
qed simp

text \<open>A lookup finds an entry exactly when \<open>get\<close> does.\<close>

lemma get_lookup:
  assumes "inv m"
  shows "(\<exists>e. get m key = Inr (Some e)) \<longleftrightarrow> key \<in> e_id ` set (contents m)"
    "get m key = Inr None \<longleftrightarrow> lookup m key = Inr []"
proof -
  obtain r where r: "get m key = Inr r" "map_option payload r = find (\<lambda>e. e_id e = key) (rev (contents m))"
    using get [OF assms] by blast
  obtain es where es: "lookup m key = Inr es" "map payload es = rev (filter (\<lambda>e. e_id e = key) (contents m))"
    using lookup [OF assms] by blast
  have n: "r = None \<longleftrightarrow> key \<notin> e_id ` set (contents m)"
    using arg_cong [OF r(2), of "\<lambda>x. x = None"] by (auto simp: find_None_iff)
  then show "(\<exists>e. get m key = Inr (Some e)) \<longleftrightarrow> key \<in> e_id ` set (contents m)" using r(1) by auto
  have "es = [] \<longleftrightarrow> key \<notin> e_id ` set (contents m)"
    using arg_cong [OF es(2), of "\<lambda>x. x = []"] by (auto simp: filter_empty_conv)
  then show "get m key = Inr None \<longleftrightarrow> lookup m key = Inr []" using n r(1) es(1) by auto
qed

end

interpretation im: blob_multimap map_inv map_contents indexMap_add indexMap_values valuesWithID indexMap_get "2 ^ 36 - 1"
proof
  fix m key p off len ul
  assume m: "map_inv m"
  show "\<exists>m'. indexMap_add m key p off len ul = Inr m' \<and> map_inv m'
      \<and> map_contents m' = map_contents m @ [new_payload key p off len ul]"
    if "length (map_contents m) < 2 ^ 36 - 1"
    using indexMap_add_ok [OF m that] by metis
qed (rule indexMap_values_contents valuesWithID_contents indexMap_get_contents; assumption)+

section \<open>Main results\<close>

definition insert_entry :: "indexMap \<Rightarrow> indexEntry \<Rightarrow> indexMap result" where
  "insert_entry m e = indexMap_add m (e_id e) (e_packIndex e) (e_offset e) (e_length e) (e_uncompressedLength e)"

lemma insert_entry_im: "insert_entry = im.add_entry"
  by (simp add: fun_eq_iff insert_entry_def im.add_entry_def)

text \<open>C11: The hash table is a multimap: after adding any list of up to \<open>2 ^ 36 - 1\<close> entries to an empty table
  with any hash function, iterating gives them all in order of insertion, and looking up an ID gives
  exactly the entries with that ID, latest first. Rehashing, block doubling and the bloom filter
  are not observable.\<close>

theorem indexMap_multimap:
  assumes "length es \<le> 2 ^ 36 - 1"
  shows "\<exists>m. foldM insert_entry (zeroMap mh) es = Inr m \<and> map_inv m
    \<and> (\<exists>vs. indexMap_values m = Inr vs \<and> map payload vs = map payload es)
    \<and> (\<forall>key. \<exists>vs. valuesWithID m key = Inr vs \<and> map payload vs = rev (filter (\<lambda>e. e_id e = key) (map payload es)))"
proof -
  have "length (map_contents (zeroMap mh)) + length es \<le> 2 ^ 36 - 1" using assms by (simp add: zeroMap_inv)
  from im.add_entries [OF zeroMap_inv(1) this] obtain m where
    m: "foldM insert_entry (zeroMap mh) es = Inr m" "map_inv m" "map_contents m = map payload es"
    by (auto simp: insert_entry_im zeroMap_inv)
  then show ?thesis using im.all [OF m(2)] im.lookup [OF m(2)] by auto
qed

theorem indexMap_multimap_witness:
  "\<exists>m. foldM insert_entry (zeroMap (\<lambda>_. 3)) [zeroEntry, zeroEntry] = Inr m \<and> map_inv m
    \<and> (\<exists>vs. indexMap_values m = Inr vs \<and> map payload vs = map payload [zeroEntry, zeroEntry])
    \<and> (\<forall>key. \<exists>vs. valuesWithID m key = Inr vs
         \<and> map payload vs = rev (filter (\<lambda>e. e_id e = key) (map payload [zeroEntry, zeroEntry])))"
  by (rule indexMap_multimap) simp

text \<open>C12: The position \<^verbatim>\<open>firstIndex\<close> reports for a known ID never changes, whatever is added later (the
  property \<^verbatim>\<open>AssociatedSet\<close> relies on), and distinct IDs have distinct positions.\<close>

theorem firstIndex_stable:
  assumes "map_inv m" and "length (map_contents m) + length es \<le> 2 ^ 36 - 1" and "firstIndex m key = Inr i" and "i \<noteq> -1"
  shows "\<exists>m'. foldM insert_entry m es = Inr m' \<and> firstIndex m' key = Inr i
    \<and> (\<forall>key'. key' \<noteq> key \<longrightarrow> firstIndex m' key' \<noteq> Inr i)"
proof -
  from im.add_entries [OF assms(1,2)] obtain m' where
    m': "foldM insert_entry m es = Inr m'" "map_inv m'" "map_contents m' = map_contents m @ map payload es"
    by (auto simp: insert_entry_im)
  have k: "key \<in> e_id ` set (map_contents m)" "i = first_pos key (map_contents m)"
    using assms(3,4) firstIndex_contents [OF assms(1)] by (auto simp: first_pos_def split: if_splits)
  then have i: "first_pos key (map_contents m') = i" by (simp add: m'(3) first_pos_append)
  have "first_pos key' (map_contents m') \<noteq> i" if "key' \<noteq> key" for key'
    using first_pos_inj [of key "map_contents m'" key'] i assms(4) that by auto
  then show ?thesis using m'(1) i firstIndex_contents [OF m'(2)] by auto
qed

theorem firstIndex_stable_witness:
  "\<exists>m m'. foldM insert_entry (zeroMap (\<lambda>_. 3)) [zeroEntry] = Inr m \<and> firstIndex m nullID = Inr 1
     \<and> foldM insert_entry m [zeroEntry, zeroEntry] = Inr m' \<and> firstIndex m' nullID = Inr 1
     \<and> (\<forall>key'. key' \<noteq> nullID \<longrightarrow> firstIndex m' key' \<noteq> Inr 1)"
proof -
  obtain m where m: "foldM insert_entry (zeroMap (\<lambda>_. 3)) [zeroEntry] = Inr m" "map_inv m"
      "map_contents m = [payload zeroEntry]"
    using im.add_entries [OF zeroMap_inv(1), of "\<lambda>_. 3" "[zeroEntry]"] by (auto simp: insert_entry_im zeroMap_inv)
  then have "firstIndex m nullID = Inr 1"
    by (simp add: firstIndex_contents first_pos_def zeroEntry_def)
  then show ?thesis using firstIndex_stable [OF m(2), of "[zeroEntry, zeroEntry]" nullID 1] m by auto
qed

end
