(* ===== verification/Crypto.thy ===== *)
theory Crypto
  imports Vaultic_Prelude
begin

unbundle bit_operations_syntax

text \<open>
  The repository's authenticated encryption, \<^verbatim>\<open>internal/repository/crypto\<close> (\<^verbatim>\<open>crypto.go\<close>,
  \<^verbatim>\<open>buffer.go\<close>): AES-256 in counter mode with a Poly1305-AES tag over the ciphertext.

  The two primitives the package calls, the AES block function and Poly1305, are the fields of
  the record \<open>prims\<close>, an argument of every operation; \<open>prims_ok\<close> collects what the package relies
  on of them (block and tag sizes, and that \<^verbatim>\<open>poly1305.Verify\<close> accepts exactly the tag
  \<^verbatim>\<open>poly1305.Sum\<close> computes). Counter mode itself is modelled. \<^verbatim>\<open>Seal\<close> and \<^verbatim>\<open>Open\<close> append to \<open>dst\<close>; the
  in-place reuse of a buffer by the callers is value semantics here.

  The locale \<open>aead\<close> is the contract the pack format relies on, interpreted on \<open>Seal\<close> and \<open>Open\<close>.
\<close>

section \<open>Sizes\<close>

definition aesKeySize :: nat where "aesKeySize = 32"
definition macKeySizeK :: nat where "macKeySizeK = 16"
definition macKeySizeR :: nat where "macKeySizeR = 16"
definition ivSize :: nat where "ivSize = 16"
definition macSize :: nat where "macSize = 16"

definition Extension :: nat where
  "Extension = ivSize + macSize"

definition PlaintextLength :: "int \<Rightarrow> int" where
  "PlaintextLength ciphertextSize = ciphertextSize - int Extension"

definition CiphertextLength :: "int \<Rightarrow> int" where
  "CiphertextLength plaintextSize = plaintextSize + int Extension"

lemmas size_defs = aesKeySize_def macKeySizeK_def macKeySizeR_def ivSize_def macSize_def
  Extension_def

section \<open>Keys and primitives\<close>

record MACKey =
  mk_K :: bytes
  mk_R :: bytes

record Key =
  k_mac :: MACKey
  k_enc :: bytes

record prims =
  aes_block :: "bytes \<Rightarrow> bytes \<Rightarrow> bytes"
  poly_sum :: "bytes \<Rightarrow> bytes \<Rightarrow> bytes"
  poly_verify :: "bytes \<Rightarrow> bytes \<Rightarrow> bytes \<Rightarrow> bool"

definition prims_ok :: "prims \<Rightarrow> bool" where
  "prims_ok P \<longleftrightarrow>
     (\<forall>k b. length k \<in> {16, 24, 32} \<longrightarrow> length b = 16 \<longrightarrow> length (aes_block P k b) = 16) \<and>
     (\<forall>m k. length k = 32 \<longrightarrow> length (poly_sum P m k) = 16) \<and>
     (\<forall>t m k. length t = 16 \<longrightarrow> length k = 32 \<longrightarrow> poly_verify P t m k \<longleftrightarrow> t = poly_sum P m k)"

text \<open>The lengths that Go's array types fix.\<close>

definition key_sized :: "Key \<Rightarrow> bool" where
  "key_sized k \<longleftrightarrow> length (mk_K (k_mac k)) = macKeySizeK \<and> length (mk_R (k_mac k)) = macKeySizeR
     \<and> length (k_enc k) = aesKeySize"

definition MACKey_Valid :: "MACKey \<Rightarrow> bool" where
  "MACKey_Valid m \<longleftrightarrow> (if \<not> list_ex (\<lambda>b. b \<noteq> 0) (mk_K m) then False
                      else list_ex (\<lambda>b. b \<noteq> 0) (mk_R m))"

definition EncryptionKey_Valid :: "bytes \<Rightarrow> bool" where
  "EncryptionKey_Valid k \<longleftrightarrow> list_ex (\<lambda>b. b \<noteq> 0) k"

definition Key_Valid :: "Key \<Rightarrow> bool" where
  "Key_Valid k \<longleftrightarrow> EncryptionKey_Valid (k_enc k) \<and> MACKey_Valid (k_mac k)"

text \<open>\<^verbatim>\<open>validNonce\<close> ors all bytes together.\<close>

definition validNonce :: "bytes \<Rightarrow> bool" where
  "validNonce nonce \<longleftrightarrow> foldl (\<lambda>s b. s OR b) 0 nonce > (0 :: u8)"

section \<open>Poly1305-AES\<close>

definition poly1305PrepareKey :: "prims \<Rightarrow> bytes \<Rightarrow> MACKey \<Rightarrow> bytes" where
  "poly1305PrepareKey P nonce key = mk_R key @ aes_block P (mk_K key) nonce"

definition poly1305MAC :: "prims \<Rightarrow> bytes \<Rightarrow> bytes \<Rightarrow> MACKey \<Rightarrow> bytes" where
  "poly1305MAC P msg nonce key = poly_sum P msg (poly1305PrepareKey P nonce key)"

definition poly1305Verify :: "prims \<Rightarrow> bytes \<Rightarrow> bytes \<Rightarrow> MACKey \<Rightarrow> bytes \<Rightarrow> bool" where
  "poly1305Verify P msg nonce key mac = poly_verify P mac msg (poly1305PrepareKey P nonce key)"

text \<open>\<^verbatim>\<open>macKeyFromSlice\<close> and the JSON decoder copy a key out of a slice: \<^verbatim>\<open>copy\<close> keeps the old bytes
  where the source is too short.\<close>

definition copy_into :: "bytes \<Rightarrow> bytes \<Rightarrow> bytes" where
  "copy_into dst src = take (length dst) src @ drop (length src) dst"

definition macKeyFromSlice :: "bytes \<Rightarrow> MACKey result" where
  "macKeyFromSlice dat =
     (if length dat < 32 then Inl (Panic ''slice bounds out of range'')
      else Inr \<lparr>mk_K = take 16 dat, mk_R = take 16 (drop 16 dat)\<rparr>)"

section \<open>Counter mode\<close>

text \<open>\<^verbatim>\<open>cipher.NewCTR(c, iv)\<close>: the counter block is a big-endian number; the key stream is the
  encryption of \<open>iv\<close>, \<open>iv + 1\<close>, and so on.\<close>

fun incr_le :: "bytes \<Rightarrow> bytes" where
  "incr_le [] = []"
| "incr_le (b # bs) = (if b + 1 = 0 then 0 # incr_le bs else (b + 1) # bs)"

definition ctr_incr :: "bytes \<Rightarrow> bytes" where
  "ctr_incr c = rev (incr_le (rev c))"

function XORKeyStream :: "(bytes \<Rightarrow> bytes) \<Rightarrow> bytes \<Rightarrow> bytes \<Rightarrow> bytes" where
  "XORKeyStream E ctr src =
     (if src = [] then []
      else map2 (\<lambda>x y. x XOR y) (take 16 src) (E ctr) @ XORKeyStream E (ctr_incr ctr) (drop 16 src))"
  by pat_completeness auto
termination
  by (relation "measure (\<lambda>(E, ctr, src). length src)") auto

declare XORKeyStream.simps [simp del]

section \<open>Seal and Open\<close>

definition Seal :: "prims \<Rightarrow> Key \<Rightarrow> bytes \<Rightarrow> bytes \<Rightarrow> bytes \<Rightarrow> bytes \<Rightarrow> bytes result" where
  "Seal P k dst nonce plaintext additionalData =
     (if \<not> Key_Valid k then Inl (Panic ''key is invalid'')
      else if length additionalData > 0 then Inl (Panic ''additional data is not supported'')
      else if length nonce \<noteq> ivSize then Inl (Panic ''incorrect nonce length'')
      else if \<not> validNonce nonce then Inl (Panic ''nonce is invalid'')
      else let out = XORKeyStream (aes_block P (k_enc k)) nonce plaintext;
               mac = poly1305MAC P out nonce (k_mac k)
           in Inr (dst @ out @ mac))"

definition ErrUnauthenticated :: go_error where
  "ErrUnauthenticated = Error ''ciphertext verification failed''"

definition Open :: "prims \<Rightarrow> Key \<Rightarrow> bytes \<Rightarrow> bytes \<Rightarrow> bytes \<Rightarrow> bytes result" where
  "Open P k dst nonce ciphertext =
     (if \<not> Key_Valid k then Inl (Error ''invalid key'')
      else if length nonce \<noteq> ivSize then Inl (Panic ''incorrect nonce length'')
      else if \<not> validNonce nonce then Inl (Error ''nonce is invalid'')
      else if length ciphertext < macSize
        then Inl (Error ''trying to decrypt invalid data: ciphertext too short'')
      else let l = length ciphertext - macSize;
               ct = take l ciphertext;
               mac = drop l ciphertext
           in if \<not> poly1305Verify P ct nonce (k_mac k) mac then Inl ErrUnauthenticated
              else Inr (dst @ XORKeyStream (aes_block P (k_enc k)) nonce ct))"

section \<open>Properties\<close>

lemma length_incr_le [simp]: "length (incr_le bs) = length bs"
  by (induction bs) auto

lemma length_ctr_incr [simp]: "length (ctr_incr c) = length c"
  by (simp add: ctr_incr_def)

lemma unat_u8_succ: "unat (b + 1 :: u8) = (unat b + 1) mod 256"
  by (simp add: unat_word_ariths)

lemma le_val_incr_le: "le_val (incr_le bs) = (le_val bs + 1) mod 256 ^ length bs"
proof (induction bs)
  case Nil
  then show ?case by simp
next
  case (Cons b bs)
  have lt: "unat b < 256" using unat_lt2p [of b] by simp
  show ?case
  proof (cases "b + 1 = 0")
    case True
    then have "(unat b + 1) mod 256 = 0" using unat_u8_succ [of b] by simp
    then have "unat b = 255" using lt by presburger
    then have "le_val (b # bs) + 1 = 256 * (le_val bs + 1)" by simp
    then show ?thesis using True Cons by (simp add: mult_mod_right)
  next
    case False
    then have "unat (b + 1) \<noteq> 0" by (simp add: unat_eq_zero)
    then have b: "unat (b + 1) = unat b + 1" "unat b < 255"
      using lt unat_u8_succ [of b] by (auto simp: mod_if split: if_splits)
    have "le_val (b # bs) + 1 < 256 ^ length (b # bs)"
      using b le_val_bound [of "(b + 1) # bs"] by simp
    then show ?thesis using False b by simp
  qed
qed

text \<open>The counter block advances by one, modulo \<open>2\<^sup>1\<^sup>2\<^sup>8\<close>.\<close>

lemma be_val_ctr_incr: "be_val (ctr_incr c) = (be_val c + 1) mod 256 ^ length c"
  by (simp add: be_val_def ctr_incr_def le_val_incr_le)

lemma validNonce_iff: "validNonce n \<longleftrightarrow> (\<exists>b \<in> set n. b \<noteq> 0)"
proof -
  have "foldl (\<lambda>s b. s OR b) a n = 0 \<longleftrightarrow> a = 0 \<and> (\<forall>b \<in> set n. b = 0)" for a :: u8
    by (induction n arbitrary: a) (auto simp: or_eq_0_iff)
  from this [of 0] show ?thesis
    by (simp add: validNonce_def word_neq_0_conv [symmetric])
qed

lemma XORKeyStream_Nil [simp]: "XORKeyStream E ctr [] = []"
  by (simp add: XORKeyStream.simps)

lemma XORKeyStream_step:
  "src \<noteq> [] \<Longrightarrow> XORKeyStream E ctr src =
     map2 (\<lambda>x y. x XOR y) (take 16 src) (E ctr) @ XORKeyStream E (ctr_incr ctr) (drop 16 src)"
  by (subst XORKeyStream.simps) simp

lemma length_XORKeyStream:
  assumes "\<And>c. length c = 16 \<Longrightarrow> length (E c) = 16" and "length ctr = 16"
  shows "length (XORKeyStream E ctr src) = length src"
  using assms(2)
proof (induction "length src" arbitrary: ctr src rule: less_induct)
  case less
  show ?case
  proof (cases "src = []")
    case False
    then have "length (XORKeyStream E (ctr_incr ctr) (drop 16 src)) = length (drop 16 src)"
      using less by (intro less(1)) auto
    then show ?thesis using less(2) assms(1) False
      by (simp add: XORKeyStream_step)
  qed simp
qed

lemma map2_xor_cancel:
  "length xs \<le> length ys \<Longrightarrow> map2 (\<lambda>x y. x XOR y) (map2 (\<lambda>x y. x XOR y) xs ys) ys = (xs :: bytes)"
  by (induction xs ys rule: list_induct2') (auto simp: xor.assoc)

text \<open>Applying the key stream twice gives the input back.\<close>

lemma XORKeyStream_twice:
  assumes "\<And>c. length c = 16 \<Longrightarrow> length (E c) = 16" and "length ctr = 16"
  shows "XORKeyStream E ctr (XORKeyStream E ctr src) = src"
  using assms(2)
proof (induction "length src" arbitrary: ctr src rule: less_induct)
  case less
  show ?case
  proof (cases "src = []")
    case False
    let ?b = "map2 (\<lambda>x y. x XOR y) (take 16 src) (E ctr)"
    let ?r = "XORKeyStream E (ctr_incr ctr) (drop 16 src)"
    have step: "XORKeyStream E ctr src = ?b @ ?r"
      using False by (rule XORKeyStream_step)
    have IH: "XORKeyStream E (ctr_incr ctr) ?r = drop 16 src"
      using less False by (intro less(1)) auto
    have lb: "length ?b = min 16 (length src)"
      using assms(1) less(2) by simp
    have lr: "length src \<le> 16 \<Longrightarrow> ?r = []" by simp
    have "length ?b \<noteq> 0" using False by (subst lb) simp
    then have "?b @ ?r \<noteq> []" by (metis append_is_Nil_conv length_0_conv)
    then have "XORKeyStream E ctr (?b @ ?r)
        = map2 (\<lambda>x y. x XOR y) (take 16 (?b @ ?r)) (E ctr)
          @ XORKeyStream E (ctr_incr ctr) (drop 16 (?b @ ?r))"
      by (rule XORKeyStream_step)
    also have "take 16 (?b @ ?r) = ?b" using lb lr by (cases "length src \<le> 16") auto
    also have "drop 16 (?b @ ?r) = ?r" using lb lr by (cases "length src \<le> 16") auto
    also have "map2 (\<lambda>x y. x XOR y) ?b (E ctr) = take 16 src"
      using assms(1) less(2) by (intro map2_xor_cancel) simp
    finally show ?thesis using step IH by simp
  qed simp
qed

section \<open>The contract of an authenticated cipher\<close>

text \<open>
  What the pack and file formats rely on: sealing works under a usable key and an admissible
  nonce and adds one tag, opening inverts it, and opening accepts nothing but sealed data.
\<close>

locale aead =
  fixes usable :: "'k \<Rightarrow> bool"
    and nonce_ok :: "bytes \<Rightarrow> bool"
    and seal :: "'k \<Rightarrow> bytes \<Rightarrow> bytes \<Rightarrow> bytes result"
    and unseal :: "'k \<Rightarrow> bytes \<Rightarrow> bytes \<Rightarrow> bytes result"
  assumes seal_total: "usable k \<Longrightarrow> nonce_ok n \<Longrightarrow> \<exists>c. seal k n p = Inr c"
    and seal_length: "usable k \<Longrightarrow> seal k n p = Inr c \<Longrightarrow> length c = length p + macSize"
    and seal_nonce: "seal k n p = Inr c \<Longrightarrow> nonce_ok n"
    and nonce_length: "nonce_ok n \<Longrightarrow> length n = ivSize"
    and unseal_iff: "usable k \<Longrightarrow> unseal k n c = Inr p \<longleftrightarrow> seal k n p = Inr c"
begin

lemma seal_injective:
  "usable k \<Longrightarrow> seal k n p = Inr c \<Longrightarrow> seal k n p' = Inr c \<Longrightarrow> p = p'"
  by (metis unseal_iff sum.inject(2))

text \<open>A nonce followed by sealed data, the form every encrypted object of the repository has:
  splitting at the nonce size and opening gives the plaintext back.\<close>

lemma box_roundtrip:
  assumes "usable k" "nonce_ok n"
  obtains c where "seal k n p = Inr c" "length (n @ c) = length p + Extension"
    "unseal k (take ivSize (n @ c)) (drop ivSize (n @ c)) = Inr p"
proof -
  from seal_total [OF assms] obtain c where c: "seal k n p = Inr c" by blast
  moreover have "length (n @ c) = length p + Extension"
    using seal_length [OF assms(1) c] nonce_length [OF assms(2)] by (simp add: Extension_def)
  moreover have "unseal k (take ivSize (n @ c)) (drop ivSize (n @ c)) = Inr p"
    using c nonce_length [OF assms(2)] unseal_iff [OF assms(1)] by simp
  ultimately show thesis by (rule that)
qed

end

definition usable_key :: "prims \<times> Key \<Rightarrow> bool" where
  "usable_key = (\<lambda>(P, k). prims_ok P \<and> key_sized k \<and> Key_Valid k)"

definition nonce_ok :: "bytes \<Rightarrow> bool" where
  "nonce_ok n \<longleftrightarrow> length n = ivSize \<and> validNonce n"

lemma block_length:
  "prims_ok P \<Longrightarrow> key_sized k \<Longrightarrow> length c = 16 \<Longrightarrow> length (aes_block P (k_enc k) c) = 16"
  by (simp add: prims_ok_def key_sized_def size_defs)

lemma mac_length:
  "prims_ok P \<Longrightarrow> key_sized k \<Longrightarrow> length n = 16 \<Longrightarrow> length (poly1305MAC P m n (k_mac k)) = 16"
  by (simp add: prims_ok_def key_sized_def size_defs poly1305MAC_def poly1305PrepareKey_def)

lemma verify_iff:
  "prims_ok P \<Longrightarrow> key_sized k \<Longrightarrow> length n = 16 \<Longrightarrow> length t = 16 \<Longrightarrow>
     poly1305Verify P m n (k_mac k) t \<longleftrightarrow> t = poly1305MAC P m n (k_mac k)"
  by (simp add: prims_ok_def key_sized_def size_defs poly1305MAC_def poly1305Verify_def
      poly1305PrepareKey_def)

lemma Seal_Inr_iff:
  "Seal P k dst n p ad = Inr c \<longleftrightarrow>
     Key_Valid k \<and> ad = [] \<and> length n = ivSize \<and> validNonce n \<and>
     c = dst @ XORKeyStream (aes_block P (k_enc k)) n p
           @ poly1305MAC P (XORKeyStream (aes_block P (k_enc k)) n p) n (k_mac k)"
  by (auto simp: Seal_def Let_def)

lemma Open_Inr_iff:
  assumes "prims_ok P" "key_sized k"
  shows "Open P k dst n c = Inr q \<longleftrightarrow>
     Key_Valid k \<and> length n = ivSize \<and> validNonce n \<and>
     (\<exists>ct. c = ct @ poly1305MAC P ct n (k_mac k) \<and>
           q = dst @ XORKeyStream (aes_block P (k_enc k)) n ct)" (is "?L \<longleftrightarrow> ?R")
proof
  assume ?L
  let ?ct = "take (length c - 16) c" and ?mac = "drop (length c - 16) c"
  from \<open>?L\<close> have *: "Key_Valid k" "length n = ivSize" "validNonce n" "16 \<le> length c"
      "poly1305Verify P ?ct n (k_mac k) ?mac"
      "q = dst @ XORKeyStream (aes_block P (k_enc k)) n ?ct"
    by (auto simp: Open_def Let_def macSize_def split: if_splits)
  then have "?mac = poly1305MAC P ?ct n (k_mac k)"
    using assms by (simp add: verify_iff ivSize_def)
  then have "c = ?ct @ poly1305MAC P ?ct n (k_mac k)" by (metis append_take_drop_id)
  with * show ?R by blast
next
  assume ?R
  then obtain ct where r: "Key_Valid k" "length n = ivSize" "validNonce n"
    "c = ct @ poly1305MAC P ct n (k_mac k)" "q = dst @ XORKeyStream (aes_block P (k_enc k)) n ct"
    by blast
  have "length (poly1305MAC P ct n (k_mac k)) = 16" using r assms by (simp add: mac_length ivSize_def)
  then show ?L using r assms by (simp add: Open_def Let_def macSize_def verify_iff ivSize_def)
qed

lemma Open_iff_Seal:
  assumes "prims_ok P" "key_sized k"
  shows "Open P k dst n c = Inr (dst @ p) \<longleftrightarrow> Seal P k dst' n p [] = Inr (dst' @ c)"
proof -
  have tw: "length n = ivSize \<Longrightarrow> XORKeyStream (aes_block P (k_enc k)) n
      (XORKeyStream (aes_block P (k_enc k)) n x) = x" for x
    using assms by (intro XORKeyStream_twice) (auto simp: block_length ivSize_def)
  show ?thesis
    unfolding Open_Inr_iff [OF assms] Seal_Inr_iff by (auto simp: tw)
qed

interpretation key_aead: aead usable_key nonce_ok
  "\<lambda>(P, k) n p. Seal P k [] n p []" "\<lambda>(P, k) n c. Open P k [] n c"
proof (unfold_locales, goal_cases)
  case (1 k n p)
  then show ?case by (auto simp: usable_key_def nonce_ok_def Seal_def Let_def split: prod.splits)
next
  case (2 k n p c)
  then show ?case
    by (auto simp: usable_key_def Seal_Inr_iff mac_length macSize_def ivSize_def block_length
        length_XORKeyStream split: prod.splits)
next
  case (3 k n p c)
  then show ?case by (auto simp: nonce_ok_def Seal_Inr_iff split: prod.splits)
next
  case (4 n)
  then show ?case by (simp add: nonce_ok_def)
next
  case (5 k n c p)
  then show ?case using Open_iff_Seal [of "fst k" "snd k" "[]" n c p "[]"]
    by (auto simp: usable_key_def split: prod.splits)
qed

section \<open>Main results\<close>

text \<open>C4: Sealing under a valid key and a non-zero nonce of the right size always succeeds, appends the
  plaintext's length plus one tag to \<open>dst\<close>, and opening the result gives the plaintext back.\<close>

theorem Seal_Open:
  assumes "prims_ok P" and "key_sized k" and "Key_Valid k" and "length n = ivSize" and "validNonce n"
  shows "\<exists>c. Seal P k dst n p [] = Inr (dst @ c) \<and> length c = length p + macSize
           \<and> Open P k dst' n c = Inr (dst' @ p)"
proof -
  have "usable_key (P, k)" "nonce_ok n" using assms by (auto simp: usable_key_def nonce_ok_def)
  then obtain c where c: "Seal P k [] n p [] = Inr c" "length c = length p + macSize"
    using key_aead.seal_total [of "(P, k)" n p] key_aead.seal_length [of "(P, k)" n p] by auto
  moreover have "Seal P k dst n p [] = Inr (dst @ c)" using c by (auto simp: Seal_Inr_iff)
  moreover have "Open P k dst' n c = Inr (dst' @ p)"
    using Open_iff_Seal [OF assms(1,2), of dst' n c p "[]"] c by simp
  ultimately show ?thesis by blast
qed

text \<open>Primitives for concrete instances: the identity as block function and a constant tag.\<close>

definition null_prims :: prims where
  "null_prims = \<lparr>aes_block = (\<lambda>k b. b), poly_sum = (\<lambda>m k. replicate 16 0),
                 poly_verify = (\<lambda>t m k. t = replicate 16 0)\<rparr>"

definition sample_key :: Key where
  "sample_key = \<lparr>k_mac = \<lparr>mk_K = replicate 16 1, mk_R = replicate 16 2\<rparr>, k_enc = replicate 32 3\<rparr>"

lemma null_prims_ok [simp]: "prims_ok null_prims"
  by (simp add: prims_ok_def null_prims_def)

lemma sample_key_ok [simp]: "key_sized sample_key" "Key_Valid sample_key"
  by code_simp+

lemma sample_nonce_ok [simp]: "validNonce (replicate 16 1)"
  by code_simp

theorem Seal_Open_witness:
  "\<exists>c. Seal null_prims sample_key [9] (replicate 16 1) [1, 2, 3] [] = Inr ([9] @ c)
     \<and> length c = length [1, 2, 3 :: u8] + macSize
     \<and> Open null_prims sample_key [] (replicate 16 1) c = Inr ([] @ [1, 2, 3])"
  by (rule Seal_Open) (simp_all add: size_defs)

text \<open>C5: Opening accepts exactly what sealing produces: if \<^verbatim>\<open>Open\<close> returns data at all, the ciphertext is
  the sealed form of that data under the same key and nonce.\<close>

theorem Open_authentic:
  assumes "prims_ok P" and "key_sized k"
  shows "Open P k dst n c = Inr q \<longleftrightarrow> (\<exists>p. q = dst @ p \<and> Seal P k [] n p [] = Inr c)"
proof
  assume o: "Open P k dst n c = Inr q"
  then obtain p where "q = dst @ p" by (auto simp: Open_Inr_iff [OF assms])
  then show "\<exists>p. q = dst @ p \<and> Seal P k [] n p [] = Inr c"
    using o Open_iff_Seal [OF assms, of dst n c p "[]"] by auto
next
  assume "\<exists>p. q = dst @ p \<and> Seal P k [] n p [] = Inr c"
  then show "Open P k dst n c = Inr q"
    using Open_iff_Seal [OF assms, of dst n c _ "[]"] by auto
qed

theorem Open_authentic_witness:
  "Open null_prims sample_key [] (replicate 16 1) (replicate 15 0) = Inr []
     \<longleftrightarrow> (\<exists>p. [] = [] @ p \<and> Seal null_prims sample_key [] (replicate 16 1) p [] = Inr (replicate 15 0))"
  by (rule Open_authentic) simp_all

end
