(* ===== verification/Pack.thy ===== *)
theory Pack
  imports Crypto Vaultic_Ids
begin

text \<open>
  The pack file format, \<^verbatim>\<open>internal/repository/pack\<close> (\<^verbatim>\<open>pack.go\<close>, \<^verbatim>\<open>blob.go\<close>, \<^verbatim>\<open>packedblob.go\<close>). A pack
  is the concatenated blobs, an encrypted header with one entry per blob, and the header's length
  as a little-endian \<^verbatim>\<open>uint32\<close>.

  \<open>Packer\<close> is the writer's state (\<open>p_out\<close> is what the underlying \<^verbatim>\<open>io.Writer\<close> has accepted); a writer
  is a function from what it has accepted and the data offered to its answer \<open>(n, err)\<close>. \<open>List\<close> reads
  a pack through an \<^verbatim>\<open>io.ReaderAt\<close>, a function from offset and length to bytes or an error.
\<close>

section \<open>Blobs with their place in a pack\<close>

record Blob =
  b_Handle :: BlobHandle
  b_Length :: u64
  b_Offset :: u64
  b_UncompressedLength :: u64

definition IsCompressed :: "Blob \<Rightarrow> bool" where
  "IsCompressed b \<longleftrightarrow> b_UncompressedLength b \<noteq> 0"

definition DataLength :: "Blob \<Rightarrow> u64" where
  "DataLength b = (if b_UncompressedLength b \<noteq> 0 then b_UncompressedLength b
                   else of_int (PlaintextLength (sint (b_Length b))))"

definition UncompressedCiphertextLength :: "Blob \<Rightarrow> u64" where
  "UncompressedCiphertextLength b = of_int (CiphertextLength (sint (DataLength b)))"

record PackedBlob =
  pb_Pack :: ID
  pb_Blob :: Blob

definition pb_Handle :: "PackedBlob \<Rightarrow> BlobHandle" where
  "pb_Handle pb = b_Handle (pb_Blob pb)"

definition pb_CiphertextLength :: "PackedBlob \<Rightarrow> u64" where
  "pb_CiphertextLength pb = b_Length (pb_Blob pb)"

definition pb_IsCompressed :: "PackedBlob \<Rightarrow> bool" where
  "pb_IsCompressed pb = IsCompressed (pb_Blob pb)"

section \<open>Sizes\<close>

definition headerLengthSize :: nat where "headerLengthSize = 4"

definition entrySize :: nat where
  "entrySize = 1 + 2 * headerLengthSize + idSize"

definition plainEntrySize :: nat where
  "plainEntrySize = 1 + headerLengthSize + idSize"

definition headerSize :: nat where
  "headerSize = headerLengthSize + Extension"

definition MaxHeaderSize :: nat where
  "MaxHeaderSize = 16 * 1024 * 1024 + headerLengthSize"

definition eagerEntries :: nat where "eagerEntries = 15"

definition minFileSize :: nat where
  "minFileSize = plainEntrySize + Extension + headerLengthSize"

definition MaxHeaderEntries :: nat where
  "MaxHeaderEntries = (MaxHeaderSize - headerSize) div entrySize"

lemmas pack_size_defs = headerLengthSize_def entrySize_def plainEntrySize_def headerSize_def
  MaxHeaderSize_def eagerEntries_def minFileSize_def MaxHeaderEntries_def idSize_def size_defs

definition CalculateEntrySize :: "bool \<Rightarrow> nat" where
  "CalculateEntrySize compressed = (if compressed then entrySize else plainEntrySize)"

definition CalculateHeaderSize :: "Blob list \<Rightarrow> nat" where
  "CalculateHeaderSize blobs =
     foldl (\<lambda>size blob. size + CalculateEntrySize (IsCompressed blob)) headerSize blobs"

section \<open>The header\<close>

definition header_tag :: "Blob \<Rightarrow> u8 result" where
  "header_tag b =
     (let t = bh_Type (b_Handle b); u = b_UncompressedLength b in
      if t = DataBlob \<and> u = 0 then Inr 0
      else if t = TreeBlob \<and> u = 0 then Inr 1
      else if t = DataBlob \<and> u \<noteq> 0 then Inr 2
      else if t = TreeBlob \<and> u \<noteq> 0 then Inr 3
      else Inl (Error ''invalid blob type''))"

definition header_fields :: "Blob \<Rightarrow> bytes" where
  "header_fields b =
     put_u32_le (ucast (b_Length b))
     @ (if b_UncompressedLength b \<noteq> 0 then put_u32_le (ucast (b_UncompressedLength b)) else [])
     @ bh_ID (b_Handle b)"

fun makeHeader :: "Blob list \<Rightarrow> bytes result" where
  "makeHeader [] = Inr []"
| "makeHeader (b # blobs) =
     (case header_tag b of
        Inl e \<Rightarrow> Inl e
      | Inr tag \<Rightarrow>
          (case makeHeader blobs of
             Inl e \<Rightarrow> Inl e
           | Inr rest \<Rightarrow> Inr (tag # header_fields b @ rest)))"

definition parseHeaderEntry :: "bytes \<Rightarrow> (Blob \<times> nat) result" where
  "parseHeaderEntry p =
     (let l = length p in
      if l < plainEntrySize then Inl (Error ''parseHeaderEntry: buffer too short'')
      else let tpe = p ! 0 in
        case (if tpe = 0 \<or> tpe = 2 then Some DataBlob
              else if tpe = 1 \<or> tpe = 3 then Some TreeBlob else None) of
          None \<Rightarrow> Inl (Error ''invalid type'')
        | Some t \<Rightarrow>
            let len = ucast (u32_le (take 4 (drop 1 p)));
                p5 = drop 5 p
            in if tpe = 2 \<or> tpe = 3 then
                 (if l < entrySize then Inl (Error ''parseHeaderEntry: buffer too short'')
                  else Inr (\<lparr>b_Handle = \<lparr>bh_ID = take idSize (drop 4 p5), bh_Type = t\<rparr>,
                             b_Length = len, b_Offset = 0,
                             b_UncompressedLength = ucast (u32_le (take 4 p5))\<rparr>, entrySize))
               else Inr (\<lparr>b_Handle = \<lparr>bh_ID = take idSize p5, bh_Type = t\<rparr>,
                          b_Length = len, b_Offset = 0, b_UncompressedLength = 0\<rparr>,
                        plainEntrySize))"

lemma parseHeaderEntry_size:
  "parseHeaderEntry p = Inr (b, n) \<Longrightarrow> 0 < n \<and> n \<le> length p"
  by (auto simp: parseHeaderEntry_def Let_def pack_size_defs split: if_splits option.splits)

text \<open>The loop of \<^verbatim>\<open>List\<close> over the decrypted header; \<open>pos\<close> is the offset of the next blob.\<close>

function parseEntries :: "bytes \<Rightarrow> u64 \<Rightarrow> Blob list result" where
  "parseEntries buf pos =
     (if buf = [] then Inr []
      else case parseHeaderEntry buf of
             Inl e \<Rightarrow> Inl e
           | Inr (entry, sz) \<Rightarrow>
               (case parseEntries (drop sz buf) (pos + b_Length entry) of
                  Inl e \<Rightarrow> Inl e
                | Inr entries \<Rightarrow> Inr (entry\<lparr>b_Offset := pos\<rparr> # entries)))"
  by pat_completeness auto
termination
  by (relation "measure (\<lambda>(buf, pos). length buf)") (auto dest: parseHeaderEntry_size)

declare parseEntries.simps [simp del]

section \<open>Reading a pack\<close>

type_synonym reader_at = "int \<Rightarrow> nat \<Rightarrow> bytes result"

text \<open>\<^verbatim>\<open>bytes.NewReader\<close> as an \<^verbatim>\<open>io.ReaderAt\<close>.\<close>

definition bytes_reader :: "bytes \<Rightarrow> reader_at" where
  "bytes_reader s off n =
     (if off < 0 then Inl (Error ''bytes.Reader.ReadAt: negative offset'')
      else if int (length s) \<le> off then Inl (Error ''EOF'')
      else if nat off + n \<le> length s then Inr (take n (drop (nat off) s))
      else Inl (Error ''EOF''))"

definition InvalidFileError :: "string \<Rightarrow> go_error" where
  "InvalidFileError msg = Error msg"

definition readRecords :: "reader_at \<Rightarrow> int \<Rightarrow> int \<Rightarrow> (bytes \<times> nat) result" where
  "readRecords rd sz bufsize0 =
     (let bufsize = (if bufsize0 > sz then sz else bufsize0);
          off = sz - bufsize in
      if bufsize < 0 then Inl (Panic ''makeslice: len out of range'')
      else case rd off (nat bufsize) of
        Inl e \<Rightarrow> Inl e
      | Inr b \<Rightarrow>
          if length b < headerLengthSize then Inl (Panic ''slice bounds out of range'')
          else
            let hlen = u32_le (drop (length b - headerLengthSize) b);
                b' = take (length b - headerLengthSize) b in
            if hlen = 0 then Inl (Wrap ''readHeader'' (InvalidFileError ''header length is zero''))
            else if unat hlen < Extension
              then Inl (Wrap ''readHeader'' (InvalidFileError ''header length is too short''))
            else if int (unat hlen) > sz - int headerLengthSize
              then Inl (Wrap ''readHeader'' (InvalidFileError ''header is larger than file''))
            else if int (unat hlen) > int MaxHeaderSize - int headerLengthSize
              then Inl (Wrap ''readHeader'' (InvalidFileError ''header is larger than maxHeaderSize''))
            else
              let total = unat (hlen + of_nat headerLengthSize) in
              if int total < bufsize then
                (if length b' < unat hlen then Inl (Panic ''slice bounds out of range'')
                 else Inr (drop (length b' - unat hlen) b', total))
              else Inr (b', total))"

definition readHeader :: "reader_at \<Rightarrow> int \<Rightarrow> bytes result" where
  "readHeader rd sz =
     (if sz < int minFileSize
        then Inl (Wrap ''readHeader'' (InvalidFileError ''file is too short''))
      else
        let eagerSize = eagerEntries * entrySize + headerSize in
        case readRecords rd sz (int eagerSize) of
          Inl e \<Rightarrow> Inl e
        | Inr (b, c) \<Rightarrow>
            if c \<le> eagerSize then Inr b
            else (case readRecords rd sz (int c) of
                    Inl e \<Rightarrow> Inl e
                  | Inr (b', _) \<Rightarrow> Inr b'))"

definition List :: "prims \<Rightarrow> Key \<Rightarrow> reader_at \<Rightarrow> int \<Rightarrow> (Blob list \<times> u32) result" where
  "List P k rd sz =
     (case readHeader rd sz of
        Inl e \<Rightarrow> Inl e
      | Inr buf \<Rightarrow>
          if int (length buf) < CiphertextLength 0 then Inl (Error ''invalid header, too short'')
          else
            let hdrSize = of_nat headerLengthSize + of_nat (length buf);
                nonce = take ivSize buf;
                ct = drop ivSize buf in
            case Open P k [] nonce ct of
              Inl e \<Rightarrow> Inl e
            | Inr header \<Rightarrow>
                (case parseEntries header 0 of
                   Inl e \<Rightarrow> Inl e
                 | Inr entries \<Rightarrow> Inr (entries, hdrSize)))"

section \<open>Writing a pack\<close>

type_synonym writer = "bytes \<Rightarrow> bytes \<Rightarrow> nat \<times> go_error option"

record Packer =
  p_blobs :: "Blob list"
  p_bytes :: u64
  p_k :: Key
  p_err :: "go_error option"
  p_out :: bytes

definition ErrBroken :: go_error where
  "ErrBroken = Error ''packer cannot be used after a write error''"

definition NewPacker :: "Key \<Rightarrow> Packer" where
  "NewPacker k = \<lparr>p_blobs = [], p_bytes = 0, p_k = k, p_err = None, p_out = []\<rparr>"

definition Packer_Add ::
  "writer \<Rightarrow> Packer \<Rightarrow> BlobType \<Rightarrow> ID \<Rightarrow> bytes \<Rightarrow> int \<Rightarrow> Packer \<times> nat \<times> go_error option" where
  "Packer_Add wr p t i dat uncompressedLength =
     (case p_err p of
        Some e \<Rightarrow> (p, 0, Some (Join ErrBroken e))
      | None \<Rightarrow>
          let (n, err) = wr (p_out p) dat;
              p = p\<lparr>p_out := p_out p @ take n dat\<rparr> in
          case err of
            Some e \<Rightarrow> (p\<lparr>p_err := Some (Wrap ''Write'' e)\<rparr>, n, Some (Wrap ''Write'' e))
          | None \<Rightarrow>
              if n \<noteq> length dat
                then (p\<lparr>p_err := Some (Error ''short write'')\<rparr>, n, Some (Error ''short write''))
              else
                let c = \<lparr>b_Handle = \<lparr>bh_ID = i, bh_Type = t\<rparr>, b_Length = of_nat n,
                         b_Offset = p_bytes p, b_UncompressedLength = of_int uncompressedLength\<rparr> in
                (p\<lparr>p_bytes := p_bytes p + of_nat n, p_blobs := p_blobs p @ [c]\<rparr>,
                 n + CalculateEntrySize (IsCompressed c), None))"

definition verifyHeader :: "prims \<Rightarrow> Key \<Rightarrow> bytes \<Rightarrow> Blob list \<Rightarrow> go_error option" where
  "verifyHeader P k header expected =
     (case List P k (bytes_reader header) (int (length header)) of
        Inl e \<Rightarrow> Some (Wrap ''header decoding failed'' e)
      | Inr (decoded, hdrSize) \<Rightarrow>
          if hdrSize \<noteq> of_nat (length header) then Some (Error ''unexpected header size'')
          else if length decoded \<noteq> length expected then Some (Error ''pack header size mismatch'')
          else if decoded \<noteq> expected then Some (Error ''pack header entry mismatch'')
          else None)"

text \<open>\<^verbatim>\<open>Finalize\<close> with the nonce that \<^verbatim>\<open>crypto.NewRandomNonce\<close> drew. A panic of \<^verbatim>\<open>Seal\<close> is returned as
  the error.\<close>

definition Packer_Finalize :: "prims \<Rightarrow> writer \<Rightarrow> bytes \<Rightarrow> Packer \<Rightarrow> Packer \<times> go_error option" where
  "Packer_Finalize P wr nonce p =
     (case p_err p of
        Some e \<Rightarrow> (p, Some (Join ErrBroken e))
      | None \<Rightarrow>
          (case makeHeader (p_blobs p) of
             Inl e \<Rightarrow> (p, Some e)
           | Inr header \<Rightarrow>
               (case Seal P (p_k p) nonce nonce header [] of
                  Inl e \<Rightarrow> (p, Some e)
                | Inr sealed \<Rightarrow>
                    let encryptedHeader = sealed @ put_u32_le (of_nat (length sealed)) in
                    case verifyHeader P (p_k p) encryptedHeader (p_blobs p) of
                      Some e \<Rightarrow>
                        (p, Some (Wrap ''detected data corruption while writing pack-file header'' e))
                    | None \<Rightarrow>
                        let (n, err) = wr (p_out p) encryptedHeader;
                            p = p\<lparr>p_out := p_out p @ take n encryptedHeader\<rparr> in
                        case err of
                          Some e \<Rightarrow> (p\<lparr>p_err := Some (Wrap ''Write'' e)\<rparr>, Some (Wrap ''Write'' e))
                        | None \<Rightarrow>
                            if n \<noteq> length encryptedHeader
                              then (p\<lparr>p_err := Some (Error ''wrong number of bytes written'')\<rparr>,
                                    Some (Error ''wrong number of bytes written''))
                            else (p\<lparr>p_bytes := p_bytes p + of_nat (length encryptedHeader)\<rparr>, None))))"

definition HeaderOverhead :: nat where
  "HeaderOverhead = nat (CiphertextLength 0) + 4"

text \<open>\<^verbatim>\<open>Merge\<close> reads the other packer's data in order from a reader, here the bytes it still holds.\<close>

fun merge_blobs :: "writer \<Rightarrow> Packer \<Rightarrow> Blob list \<Rightarrow> bytes \<Rightarrow> Packer \<times> go_error option" where
  "merge_blobs wr p [] otherData = (p, None)"
| "merge_blobs wr p (blob # blobs) otherData =
     (let l = unat (b_Length blob) in
      if length otherData < l then (p, Some (Error ''unexpected EOF''))
      else case Packer_Add wr p (bh_Type (b_Handle blob)) (bh_ID (b_Handle blob)) (take l otherData)
                  (sint (b_UncompressedLength blob)) of
             (p', _, Some e) \<Rightarrow> (p', Some e)
           | (p', _, None) \<Rightarrow> merge_blobs wr p' blobs (drop l otherData))"

definition Packer_Merge :: "writer \<Rightarrow> Packer \<Rightarrow> Packer \<Rightarrow> bytes \<Rightarrow> Packer \<times> go_error option" where
  "Packer_Merge wr p other otherData = merge_blobs wr p (p_blobs other) otherData"

definition Packer_Size :: "Packer \<Rightarrow> u64" where
  "Packer_Size p = p_bytes p"

definition Packer_PackSize :: "Packer \<Rightarrow> u64" where
  "Packer_PackSize p = p_bytes p + of_nat (CalculateHeaderSize (p_blobs p))"

definition Packer_Count :: "Packer \<Rightarrow> nat" where
  "Packer_Count p = length (p_blobs p)"

definition Packer_HeaderFull :: "Packer \<Rightarrow> bool" where
  "Packer_HeaderFull p \<longleftrightarrow>
     of_nat headerSize + of_nat (length (p_blobs p) + 1) * of_nat entrySize > (of_nat MaxHeaderSize :: u64)"

definition Packer_Blobs :: "Packer \<Rightarrow> Blob list" where
  "Packer_Blobs p = p_blobs p"

section \<open>Pack sizes from the index\<close>

text \<open>\<^verbatim>\<open>Size\<close>: the size of each pack from the blobs an index lists, or of its header only. The Go map
  is an association list.\<close>

definition size_step :: "bool \<Rightarrow> (ID \<times> int) list \<Rightarrow> PackedBlob \<Rightarrow> (ID \<times> int) list" where
  "size_step onlyHdr packSize blob =
     (let packID = pb_Pack blob;
          sz = (case map_of packSize packID of None \<Rightarrow> int headerSize | Some s \<Rightarrow> s);
          sz = (if \<not> onlyHdr then sz + sint (pb_CiphertextLength blob) else sz)
      in AList.update packID (sz + int (CalculateEntrySize (pb_IsCompressed blob))) packSize)"

definition Size :: "PackedBlob list \<Rightarrow> bool \<Rightarrow> (ID \<times> int) list" where
  "Size blobs onlyHdr = foldl (size_step onlyHdr) [] blobs"

section \<open>Well-formed blob lists\<close>

definition entry_ok :: "Blob \<Rightarrow> bool" where
  "entry_ok b \<longleftrightarrow> is_id (bh_ID (b_Handle b)) \<and> bh_Type (b_Handle b) \<in> {DataBlob, TreeBlob}
     \<and> unat (b_Length b) < 2 ^ 32 \<and> unat (b_UncompressedLength b) < 2 ^ 32"

fun contiguous :: "u64 \<Rightarrow> Blob list \<Rightarrow> bool" where
  "contiguous pos [] = True"
| "contiguous pos (b # bs) = (b_Offset b = pos \<and> contiguous (pos + b_Length b) bs)"

lemma contiguous_append:
  "contiguous pos (xs @ ys) \<longleftrightarrow> contiguous pos xs \<and> contiguous (pos + sum_list (map b_Length xs)) ys"
  by (induction xs arbitrary: pos) (auto simp: add.assoc)

section \<open>Header entries\<close>

lemma header_tag_ok: "entry_ok b \<Longrightarrow> \<exists>tag. header_tag b = Inr tag"
  by (auto simp: entry_ok_def header_tag_def Let_def)

lemma length_header_fields:
  "is_id (bh_ID (b_Handle b)) \<Longrightarrow> Suc (length (header_fields b)) = CalculateEntrySize (IsCompressed b)"
  by (simp add: header_fields_def CalculateEntrySize_def IsCompressed_def is_id_def pack_size_defs)

lemma ucast_ucast_u32: "unat (w :: u64) < 2 ^ 32 \<Longrightarrow> ucast (ucast w :: u32) = w"
  by (rule word_unat_eq_iff [THEN iffD2]) (simp add: unsigned_ucast_eq take_bit_eq_mod unat_mod)

lemma parseHeaderEntry_header:
  assumes "entry_ok b" "header_tag b = Inr tag"
  shows "parseHeaderEntry (tag # header_fields b @ rest)
           = Inr (b\<lparr>b_Offset := 0\<rparr>, CalculateEntrySize (IsCompressed b))"
proof -
  have len: "length (bh_ID (b_Handle b)) = 32"
    using assms(1) by (simp add: entry_ok_def is_id_def idSize_def)
  have l: "length (tag # header_fields b @ rest) = CalculateEntrySize (IsCompressed b) + length rest"
    using assms(1) length_header_fields [of b] by (simp add: entry_ok_def)
  have u: "ucast (ucast (b_Length b) :: u32) = b_Length b"
    "ucast (ucast (b_UncompressedLength b) :: u32) = b_UncompressedLength b"
    using assms(1) by (auto simp: entry_ok_def ucast_ucast_u32)
  show ?thesis
  proof (cases "b_UncompressedLength b = 0")
    case True
    then have "tag = 0 \<and> bh_Type (b_Handle b) = DataBlob \<or> tag = 1 \<and> bh_Type (b_Handle b) = TreeBlob"
      using assms by (auto simp: header_tag_def Let_def entry_ok_def split: if_splits)
    then show ?thesis
      using True l len u by (auto simp: parseHeaderEntry_def Let_def header_fields_def
        CalculateEntrySize_def IsCompressed_def pack_size_defs)
  next
    case False
    then have "tag = 2 \<and> bh_Type (b_Handle b) = DataBlob \<or> tag = 3 \<and> bh_Type (b_Handle b) = TreeBlob"
      using assms by (auto simp: header_tag_def Let_def entry_ok_def split: if_splits)
    then show ?thesis
      using False l len u by (auto simp: parseHeaderEntry_def Let_def header_fields_def
        CalculateEntrySize_def IsCompressed_def pack_size_defs)
  qed
qed

lemma parseEntries_Nil [simp]: "parseEntries [] pos = Inr []"
  by (simp add: parseEntries.simps)

lemma makeHeader_total: "\<forall>b \<in> set blobs. entry_ok b \<Longrightarrow> \<exists>h. makeHeader blobs = Inr h"
  by (induction blobs) (auto dest!: header_tag_ok)

lemma parseEntries_makeHeader:
  assumes "\<forall>b \<in> set blobs. entry_ok b" "contiguous pos blobs" "makeHeader blobs = Inr h"
  shows "parseEntries h pos = Inr blobs"
  using assms
proof (induction blobs arbitrary: pos h)
  case Nil
  then show ?case by simp
next
  case (Cons b blobs)
  then obtain tag rest where t: "header_tag b = Inr tag" and r: "makeHeader blobs = Inr rest"
    and h: "h = tag # header_fields b @ rest"
    by (auto split: sum.splits)
  have e: "entry_ok b" and c: "contiguous (pos + b_Length b) blobs" and o: "b_Offset b = pos"
    using Cons.prems by auto
  have "drop (CalculateEntrySize (IsCompressed b)) h = rest"
    using e by (simp add: h entry_ok_def length_header_fields [symmetric])
  then show ?case
    using Cons.IH [OF _ c r] Cons.prems(1) parseHeaderEntry_header [OF e t, of rest] h o
    by (subst parseEntries.simps) auto
qed

lemma CalculateHeaderSize_shift:
  "foldl (\<lambda>size blob. size + CalculateEntrySize (IsCompressed blob)) a blobs
     = a + sum_list (map (CalculateEntrySize \<circ> IsCompressed) blobs)"
  by (induction blobs arbitrary: a) auto

lemma length_makeHeader:
  assumes "\<forall>b \<in> set blobs. is_id (bh_ID (b_Handle b))" "makeHeader blobs = Inr h"
  shows "length h = sum_list (map (CalculateEntrySize \<circ> IsCompressed) blobs)"
  using assms
proof (induction blobs arbitrary: h)
  case (Cons b blobs)
  then show ?case using length_header_fields [of b] by (auto split: sum.splits)
qed simp

section \<open>Reading the header\<close>

text \<open>What \<^verbatim>\<open>readHeader\<close> is for: the bytes of the length the last four bytes announce, in front of
  them. The code reaches it with one eager request, and a second one only for a long header.\<close>

definition header_len :: "bytes \<Rightarrow> nat" where
  "header_len f = unat (u32_le (drop (length f - 4) f))"

definition header_bytes :: "bytes \<Rightarrow> bytes" where
  "header_bytes f = take (header_len f) (drop (length f - 4 - header_len f) f)"

definition header_error :: "bytes \<Rightarrow> go_error option" where
  "header_error f = map_option (\<lambda>m. Wrap ''readHeader'' (Error m))
     (if length f < minFileSize then Some ''file is too short''
      else if header_len f = 0 then Some ''header length is zero''
      else if header_len f < Extension then Some ''header length is too short''
      else if length f - 4 < header_len f then Some ''header is larger than file''
      else if MaxHeaderSize - 4 < header_len f then Some ''header is larger than maxHeaderSize''
      else None)"

lemma header_error_None:
  "header_error f = None \<longleftrightarrow> minFileSize \<le> length f \<and> Extension \<le> header_len f
     \<and> header_len f \<le> length f - 4 \<and> header_len f \<le> MaxHeaderSize - 4"
  by (auto simp: header_error_def pack_size_defs)

lemma bytes_reader_suffix:
  "0 < m \<Longrightarrow> m \<le> length f \<Longrightarrow>
     bytes_reader f (int (length f) - int m) m = Inr (drop (length f - m) f)"
proof -
  assume m: "0 < m" "m \<le> length f"
  then have "nat (int (length f) - int m) = length f - m" by linarith
  then show ?thesis using m by (simp add: bytes_reader_def)
qed

lemma readRecords_bytes:
  assumes f: "minFileSize \<le> length f" and n: "4 \<le> n"
  defines "m \<equiv> min n (length f)"
  shows "readRecords (bytes_reader f) (int (length f)) (int n) =
    (case header_error f of Some e \<Rightarrow> Inl e
     | None \<Rightarrow> Inr (if header_len f + 4 < m then header_bytes f
                    else take (m - 4) (drop (length f - m) f), header_len f + 4))"
proof -
  have m: "4 \<le> m" "m \<le> length f" and
    bs: "(if int n > int (length f) then int (length f) else int n) = int m"
    using f n by (auto simp: m_def pack_size_defs)
  have last4: "drop (m - 4) (drop (length f - m) f) = drop (length f - 4) f"
    using m by simp
  define h where "h = u32_le (drop (length f - 4) f)"
  have hl: "header_len f = unat h" by (simp add: header_len_def h_def)
  have hz: "h = 0 \<longleftrightarrow> header_len f = 0" by (simp add: hl unat_eq_zero)
  have tot: "header_len f \<le> MaxHeaderSize - 4 \<Longrightarrow> unat (h + 4) = header_len f + 4"
    by (simp add: unat_word_ariths pack_size_defs hl)
  have hb: "header_len f + 4 < m \<Longrightarrow>
     drop (m - 4 - header_len f) (take (m - 4) (drop (length f - m) f)) = header_bytes f"
    using m by (simp add: header_bytes_def drop_take)
  have "int MaxHeaderSize - 4 = int (MaxHeaderSize - 4)" "int (length f) - 4 = int (length f - 4)"
    using m by (auto simp: pack_size_defs)
  then have mx: "int (unat h) > int MaxHeaderSize - 4 \<longleftrightarrow> header_len f > MaxHeaderSize - 4"
    "int (unat h) > int (length f) - 4 \<longleftrightarrow> header_len f > length f - 4"
    unfolding hl by (simp_all only: of_nat_less_iff)
  have rd: "bytes_reader f (int (length f) - int m) (nat (int m)) = Inr (drop (length f - m) f)"
    using m bytes_reader_suffix [of m f] by simp
  have len: "length (drop (length f - m) f) = m" using m by simp
  show ?thesis
    unfolding readRecords_def Let_def bs rd sum.case len headerLengthSize_def last4
    unfolding h_def [symmetric] hz mx of_nat_numeral hl [symmetric]
    using m f tot hb
    by (auto simp: header_error_def InvalidFileError_def)
qed

lemma readHeader_bytes:
  "readHeader (bytes_reader f) (int (length f)) =
     (case header_error f of Some e \<Rightarrow> Inl e | None \<Rightarrow> Inr (header_bytes f))"
proof (cases "length f < minFileSize")
  case True
  then show ?thesis by (simp add: readHeader_def header_error_def InvalidFileError_def)
next
  case False
  let ?E = "eagerEntries * entrySize + headerSize"
  let ?h = "header_len f"
  have E: "4 \<le> ?E" by (simp add: pack_size_defs)
  note rr = readRecords_bytes [OF _ E, of f] readRecords_bytes [of f "?h + 4"]
  have exact: "take ?h (drop (length f - (?h + 4)) f) = header_bytes f"
    by (simp add: header_bytes_def diff_diff_eq add.commute)
  show ?thesis
  proof (cases "header_error f")
    case (Some e)
    then show ?thesis using False rr(1) by (simp add: readHeader_def)
  next
    case None
    then have h: "?h + 4 \<le> length f"
      by (auto simp: header_error_None pack_size_defs)
    have "?h + 4 \<le> ?E \<Longrightarrow> \<not> ?h + 4 < min ?E (length f) \<Longrightarrow> min ?E (length f) = ?h + 4"
      using h by linarith
    moreover have "?h + 4 = x \<Longrightarrow> x - 4 = ?h" for x by simp
    from this [of ?E] this [of "length f"] have "?h + 4 = ?E \<Longrightarrow> ?E - 4 = ?h"
      "?h + 4 = length f \<Longrightarrow> length f - 4 = ?h" by blast+
    ultimately show ?thesis
      using False None rr h exact by (auto simp: readHeader_def Let_def min_def)
  qed
qed

section \<open>A header does not depend on the data in front of it\<close>

lemma header_len_append: "4 \<le> length h \<Longrightarrow> header_len (d @ h) = header_len h"
  by (simp add: header_len_def)

lemma header_bytes_append:
  "4 + header_len h \<le> length h \<Longrightarrow> header_bytes (d @ h) = header_bytes h"
  using header_len_append [of h d] by (simp add: header_bytes_def)

lemma header_error_append: "header_error h = None \<Longrightarrow> header_error (d @ h) = None"
  using header_len_append [of h d] by (auto simp: header_error_None pack_size_defs)

lemma List_bytes:
  "List P k (bytes_reader f) (int (length f)) =
     (case header_error f of
        Some e \<Rightarrow> Inl e
      | None \<Rightarrow>
          (case Open P k [] (take ivSize (header_bytes f)) (drop ivSize (header_bytes f)) of
             Inl e \<Rightarrow> Inl e
           | Inr h \<Rightarrow>
               (case parseEntries h 0 of
                  Inl e \<Rightarrow> Inl e
                | Inr es \<Rightarrow> Inr (es, of_nat (headerLengthSize + header_len f)))))"
proof (cases "header_error f")
  case None
  then have "length (header_bytes f) = header_len f" "32 \<le> header_len f"
    by (auto simp: header_error_None header_bytes_def pack_size_defs)
  then show ?thesis using None
    by (simp add: List_def readHeader_bytes CiphertextLength_def size_defs split: sum.split)
qed (simp add: List_def readHeader_bytes)

lemma List_no_error: "List P k (bytes_reader f) (int (length f)) = Inr r \<Longrightarrow> header_error f = None"
  by (auto simp: List_bytes split: option.splits)

lemma List_append:
  assumes "List P k (bytes_reader h) (int (length h)) = Inr r"
  shows "List P k (bytes_reader (d @ h)) (int (length (d @ h))) = Inr r"
proof -
  have e: "header_error h = None"
    using assms by (rule List_no_error)
  then have l: "4 + header_len h \<le> length h" by (auto simp: header_error_None pack_size_defs)
  then have hl: "header_len (d @ h) = header_len h" by (intro header_len_append) simp
  show ?thesis
    using assms e unfolding List_bytes hl header_bytes_append [OF l] header_error_append [OF e]
    by simp
qed

section \<open>Finalize\<close>

lemma Finalize_cases:
  assumes "Packer_Finalize P wr nonce p = (p', None)"
  obtains header sealed where
    "p_err p = None" "makeHeader (p_blobs p) = Inr header"
    "Seal P (p_k p) nonce nonce header [] = Inr sealed"
    "verifyHeader P (p_k p) (sealed @ put_u32_le (of_nat (length sealed))) (p_blobs p) = None"
    "p' = p\<lparr>p_out := p_out p @ sealed @ put_u32_le (of_nat (length sealed)),
            p_bytes := p_bytes p + of_nat (length sealed + 4)\<rparr>"
  using assms
  by (auto simp: Packer_Finalize_def Let_def split: option.splits sum.splits prod.splits if_splits)

lemma verifyHeader_None:
  "verifyHeader P k h blobs = None \<Longrightarrow>
     List P k (bytes_reader h) (int (length h)) = Inr (blobs, of_nat (length h))"
  by (auto simp: verifyHeader_def split: sum.splits prod.splits if_splits)

lemma Finalize_List:
  assumes "Packer_Finalize P wr nonce p = (p', None)"
  shows "List P (p_k p) (bytes_reader (p_out p')) (int (length (p_out p')))
           = Inr (p_blobs p, of_nat (length (p_out p') - length (p_out p)))"
proof -
  from assms obtain header sealed where
    v: "verifyHeader P (p_k p) (sealed @ put_u32_le (of_nat (length sealed))) (p_blobs p) = None"
    and p': "p' = p\<lparr>p_out := p_out p @ sealed @ put_u32_le (of_nat (length sealed)),
            p_bytes := p_bytes p + of_nat (length sealed + 4)\<rparr>"
    by (rule Finalize_cases)
  from List_append [OF verifyHeader_None [OF v], of "p_out p"] show ?thesis
    by (simp add: p')
qed

definition accepting :: "writer \<Rightarrow> bool" where
  "accepting wr \<longleftrightarrow> (\<forall>out dat. wr out dat = (length dat, None))"

definition blobs_ok :: "Blob list \<Rightarrow> bool" where
  "blobs_ok blobs \<longleftrightarrow> blobs \<noteq> [] \<and> (\<forall>b \<in> set blobs. entry_ok b) \<and> contiguous 0 blobs
     \<and> CalculateHeaderSize blobs \<le> MaxHeaderSize"

lemma verifyHeader_sealed:
  assumes key: "usable_key (P, k)" and n: "nonce_ok nonce" and ok: "blobs_ok blobs"
    and h: "makeHeader blobs = Inr header" and s: "Seal P k nonce nonce header [] = Inr sealed"
  shows "length sealed + 4 = CalculateHeaderSize blobs"
    and "verifyHeader P k (sealed @ put_u32_le (of_nat (length sealed))) blobs = None"
proof -
  from s obtain c where c: "sealed = nonce @ c" "Seal P k [] nonce header [] = Inr c"
    by (auto simp: Seal_Inr_iff)
  have ln: "length nonce = ivSize" using n by (simp add: nonce_ok_def)
  have lc: "length c = length header + macSize"
    using key_aead.seal_length [OF key, of nonce header c] c by simp
  have open_c: "Open P k [] nonce c = Inr header"
    using key_aead.unseal_iff [OF key, of nonce c header] c by simp
  have lh: "length header = sum_list (map (CalculateEntrySize \<circ> IsCompressed) blobs)"
    using ok h by (intro length_makeHeader) (auto simp: blobs_ok_def entry_ok_def)
  show sz: "length sealed + 4 = CalculateHeaderSize blobs"
    using ln lc lh c
    by (simp add: CalculateHeaderSize_def CalculateHeaderSize_shift pack_size_defs)
  obtain b bs where b: "blobs = b # bs" using ok by (cases blobs) (auto simp: blobs_ok_def)
  have min: "37 \<le> length header"
    using lh b by (simp add: CalculateEntrySize_def pack_size_defs)
  let ?f = "sealed @ put_u32_le (of_nat (length sealed))"
  have ls: "length sealed \<le> MaxHeaderSize - 4" "69 \<le> length sealed"
    using sz ok min lc ln c by (auto simp: blobs_ok_def pack_size_defs)
  then have "unat (of_nat (length sealed) :: u32) = length sealed"
    by (simp add: unat_of_nat pack_size_defs)
  then have hl: "header_len ?f = length sealed" by (simp add: header_len_def)
  have hb: "header_bytes ?f = sealed" by (simp add: header_bytes_def hl)
  have he: "header_error ?f = None" using ls hl by (simp add: header_error_None pack_size_defs)
  have "parseEntries header 0 = Inr blobs"
    using ok h by (intro parseEntries_makeHeader) (auto simp: blobs_ok_def)
  then have "List P k (bytes_reader ?f) (int (length ?f)) = Inr (blobs, of_nat (length ?f))"
    unfolding List_bytes he hb hl using open_c ln c
    by (simp add: headerLengthSize_def algebra_simps)
  then show "verifyHeader P k ?f blobs = None" by (simp add: verifyHeader_def)
qed

lemma Finalize_ok:
  assumes key: "usable_key (P, p_k p)" and n: "nonce_ok nonce" and wr: "accepting wr"
    and err: "p_err p = None" and ok: "blobs_ok (p_blobs p)"
  shows "\<exists>hdr. length hdr = CalculateHeaderSize (p_blobs p) \<and> Packer_Finalize P wr nonce p =
       (p\<lparr>p_out := p_out p @ hdr, p_bytes := Packer_PackSize p\<rparr>, None)"
proof -
  obtain header where h: "makeHeader (p_blobs p) = Inr header"
    using ok makeHeader_total [of "p_blobs p"] by (auto simp: blobs_ok_def)
  obtain c where "Seal P (p_k p) [] nonce header [] = Inr c"
    using key_aead.seal_total [OF key n, of header] by auto
  then obtain sealed where s: "Seal P (p_k p) nonce nonce header [] = Inr sealed"
    by (auto simp: Seal_Inr_iff)
  note v = verifyHeader_sealed [OF key n ok h s]
  let ?hdr = "sealed @ put_u32_le (of_nat (length sealed))"
  have lv: "length ?hdr = CalculateHeaderSize (p_blobs p)" using v(1) by simp
  then have "Packer_Finalize P wr nonce p =
       (p\<lparr>p_out := p_out p @ ?hdr, p_bytes := Packer_PackSize p\<rparr>, None)"
    using err h s v(2) wr
    by (simp add: Packer_Finalize_def accepting_def Packer_PackSize_def del: append_assoc)
  then show ?thesis using lv by blast
qed

text \<open>A packer without blobs cannot be finalized: the header alone is shorter than the smallest
  file \<^verbatim>\<open>readHeader\<close> accepts.\<close>

lemma Finalize_empty:
  assumes "usable_key (P, p_k p)" "p_blobs p = []"
  shows "snd (Packer_Finalize P wr nonce p) \<noteq> None"
proof
  assume "snd (Packer_Finalize P wr nonce p) = None"
  then obtain p' where "Packer_Finalize P wr nonce p = (p', None)" by (metis prod.collapse)
  then obtain header sealed where
    h: "makeHeader (p_blobs p) = Inr header" and s: "Seal P (p_k p) nonce nonce header [] = Inr sealed"
    and v: "verifyHeader P (p_k p) (sealed @ put_u32_le (of_nat (length sealed))) (p_blobs p) = None"
    by (rule Finalize_cases)
  obtain c where c: "sealed = nonce @ c" "Seal P (p_k p) [] nonce header [] = Inr c"
    using s by (auto simp: Seal_Inr_iff)
  have "length c = 16" "length nonce = 16"
    using key_aead.seal_length [OF assms(1), of nonce header c] c h assms(2) s
    by (auto simp: size_defs Seal_Inr_iff)
  then have "header_error (sealed @ put_u32_le (of_nat (length sealed))) \<noteq> None"
    using c by (simp add: header_error_None pack_size_defs)
  then show False
    using List_no_error [OF verifyHeader_None [OF v]] by contradiction
qed

section \<open>Adding blobs\<close>

definition packer_inv :: "Packer \<Rightarrow> bool" where
  "packer_inv p \<longleftrightarrow> contiguous 0 (p_blobs p) \<and> p_bytes p = sum_list (map b_Length (p_blobs p))
     \<and> (p_err p = None \<longrightarrow> p_bytes p = of_nat (length (p_out p)))"

lemma packer_inv_New [inv_intros]: "packer_inv (NewPacker k)"
  by (simp add: packer_inv_def NewPacker_def)

lemma packer_inv_Add [inv_intros]:
  assumes "Packer_Add wr p t i dat u = (p', r)" "packer_inv p"
  shows "packer_inv p'"
  using assms
  by (auto simp: packer_inv_def Packer_Add_def Let_def contiguous_append
      split: option.splits prod.splits if_splits)

lemma packer_inv_merge_blobs [inv_intros]:
  "packer_inv p \<Longrightarrow> packer_inv (fst (merge_blobs wr p blobs d))"
proof (induction blobs arbitrary: p d)
  case (Cons blob blobs)
  then show ?case
    by (auto simp: Let_def dest: packer_inv_Add split: prod.splits option.splits)
qed simp

text \<open>The bytes a blob's entry points at.\<close>

definition blob_data :: "bytes \<Rightarrow> Blob \<Rightarrow> bytes" where
  "blob_data f b = take (unat (b_Length b)) (drop (unat (b_Offset b)) f)"

type_synonym item = "BlobType \<times> ID \<times> bytes \<times> int"

definition item_ok :: "item \<Rightarrow> bool" where
  "item_ok = (\<lambda>(t, i, d, u). t \<in> {DataBlob, TreeBlob} \<and> is_id i \<and> length d < 2 ^ 32 \<and> 0 \<le> u \<and> u < 2 ^ 32)"

definition item_of :: "bytes \<Rightarrow> Blob \<Rightarrow> item" where
  "item_of f b = (bh_Type (b_Handle b), bh_ID (b_Handle b), blob_data f b, uint (b_UncompressedLength b))"

fun add_all :: "writer \<Rightarrow> Packer \<Rightarrow> item list \<Rightarrow> Packer \<times> go_error option" where
  "add_all wr p [] = (p, None)"
| "add_all wr p ((t, i, d, u) # xs) =
     (case Packer_Add wr p t i d u of
        (p', _, Some e) \<Rightarrow> (p', Some e)
      | (p', _, None) \<Rightarrow> add_all wr p' xs)"

text \<open>What a packer holds after accepted additions: one well-formed entry per item, each pointing at
  its data.\<close>

definition holds :: "Packer \<Rightarrow> item list \<Rightarrow> bool" where
  "holds p xs \<longleftrightarrow> p_err p = None \<and> packer_inv p \<and> (\<forall>b \<in> set (p_blobs p). entry_ok b)
     \<and> map (item_of (p_out p)) (p_blobs p) = xs
     \<and> (\<forall>b \<in> set (p_blobs p). unat (b_Offset b) + unat (b_Length b) \<le> length (p_out p))"

lemma blob_data_append:
  "unat (b_Offset b) + unat (b_Length b) \<le> length f \<Longrightarrow> blob_data (f @ g) b = blob_data f b"
  by (simp add: blob_data_def)

lemma item_of_append:
  "unat (b_Offset b) + unat (b_Length b) \<le> length f \<Longrightarrow> item_of (f @ g) b = item_of f b"
  by (simp add: item_of_def blob_data_append)

lemma holds_Add:
  assumes h: "holds p xs" and wr: "accepting wr" and ok: "item_ok (t, i, d, u)"
    and l: "length (p_out p) + length d < 2 ^ 64"
  obtains p' n where "Packer_Add wr p t i d u = (p', n, None)" "holds p' (xs @ [(t, i, d, u)])"
    "p_out p' = p_out p @ d" "p_k p' = p_k p"
proof -
  define c where "c = \<lparr>b_Handle = \<lparr>bh_ID = i, bh_Type = t\<rparr>, b_Length = of_nat (length d),
    b_Offset = p_bytes p, b_UncompressedLength = of_int u\<rparr>"
  define p' where "p' = p\<lparr>p_out := p_out p @ d, p_bytes := p_bytes p + of_nat (length d),
    p_blobs := p_blobs p @ [c]\<rparr>"
  have err: "p_err p = None" and inv: "packer_inv p" using h by (auto simp: holds_def)
  have add: "Packer_Add wr p t i d u = (p', length d + CalculateEntrySize (IsCompressed c), None)"
    using err wr by (simp add: Packer_Add_def accepting_def Let_def p'_def c_def)
  have "p_bytes p = of_nat (length (p_out p))"
    using inv err unfolding packer_inv_def by blast
  then have off: "unat (b_Offset c) = length (p_out p)" and len: "unat (b_Length c) = length d"
    using l by (auto simp: c_def unat_of_nat)
  have ui: "uint (b_UncompressedLength c) = u"
    using ok by (simp add: item_ok_def c_def uint_word_of_int)
  have u: "unat (b_UncompressedLength c) = nat u" "uint (b_UncompressedLength c) = u"
    using ui by (simp_all add: unat_eq_nat_uint)
  have e: "entry_ok c" using ok len u by (auto simp: entry_ok_def item_ok_def c_def)
  have it: "item_of (p_out p @ d) c = (t, i, d, u)"
    using off len u by (simp add: item_of_def blob_data_def) (simp add: c_def)
  have old: "map (item_of (p_out p @ d)) (p_blobs p) = xs"
    using h item_of_append by (auto simp: holds_def)
  have "holds p' (xs @ [(t, i, d, u)])"
    using h packer_inv_Add [OF add inv] it old e off len
    by (auto simp: holds_def p'_def)
  then show thesis using that add by (simp add: p'_def)
qed

lemma add_all_holds:
  assumes "holds p xs" "accepting wr" "\<forall>x \<in> set ys. item_ok x"
    "length (p_out p) + sum_list (map (\<lambda>(t, i, d, u). length d) ys) < 2 ^ 64"
  obtains p' where "add_all wr p ys = (p', None)" "holds p' (xs @ ys)" "p_k p' = p_k p"
proof -
  from assms(1,3,4)
  have "\<exists>p'. add_all wr p ys = (p', None) \<and> holds p' (xs @ ys) \<and> p_k p' = p_k p"
  proof (induction ys arbitrary: p xs)
    case Nil
    then show ?case by simp
  next
    case (Cons y ys)
    obtain t i d u where y: "y = (t, i, d, u)" by (cases y)
    from Cons.prems y have "item_ok (t, i, d, u)" "length (p_out p) + length d < 2 ^ 64" by auto
    then obtain p1 n where p1: "Packer_Add wr p t i d u = (p1, n, None)"
      "holds p1 (xs @ [y])" "p_out p1 = p_out p @ d" "p_k p1 = p_k p"
      using holds_Add [OF Cons.prems(1) assms(2)] y by metis
    from Cons.IH [OF p1(2)] p1 Cons.prems y show ?case by auto
  qed
  then show thesis using that by blast
qed

lemma holds_New: "holds (NewPacker k) []"
  using packer_inv_New [of k] by (simp add: holds_def) (simp add: NewPacker_def)

lemma CalculateHeaderSize_le: "CalculateHeaderSize blobs \<le> headerSize + length blobs * entrySize"
proof -
  have "sum_list (map (CalculateEntrySize \<circ> IsCompressed) blobs) \<le> length blobs * entrySize"
    by (induction blobs) (auto simp: CalculateEntrySize_def pack_size_defs)
  then show ?thesis by (simp add: CalculateHeaderSize_def CalculateHeaderSize_shift)
qed

lemma holds_length: "holds p xs \<Longrightarrow> length (p_blobs p) = length xs"
  by (auto simp: holds_def)

lemma HeaderFull_bound:
  assumes "\<not> Packer_HeaderFull p" "length (p_blobs p) < 2 ^ 57"
  shows "headerSize + (length (p_blobs p) + 1) * entrySize \<le> MaxHeaderSize"
proof -
  let ?n = "headerSize + (length (p_blobs p) + 1) * entrySize"
  have "(of_nat headerSize + of_nat (length (p_blobs p) + 1) * of_nat entrySize :: u64) = of_nat ?n"
    by (simp only: of_nat_add of_nat_mult)
  moreover have "?n < 2 ^ 64" using assms(2) by (simp add: pack_size_defs)
  ultimately have "unat (of_nat headerSize + of_nat (length (p_blobs p) + 1) * of_nat entrySize :: u64) = ?n"
    by (simp only: unat_of_nat) simp
  then show ?thesis
    using assms(1) by (simp add: Packer_HeaderFull_def word_less_nat_alt pack_size_defs unat_of_nat not_less)
qed

text \<open>The end-to-end property of the format.\<close>

lemma pack_roundtrip_lemma:
  assumes key: "usable_key (P, k)" and n: "nonce_ok nonce" and wr: "accepting wr"
    and xs: "xs \<noteq> []" "\<forall>x \<in> set xs. item_ok x" "headerSize + length xs * entrySize \<le> MaxHeaderSize"
    and l: "sum_list (map (\<lambda>(t, i, d, u). length d) xs) < 2 ^ 64"
  obtains p p' h blobs where
    "add_all wr (NewPacker k) xs = (p, None)" "Packer_Finalize P wr nonce p = (p', None)"
    "List P k (bytes_reader (p_out p')) (int (length (p_out p'))) = Inr (blobs, h)"
    "map (item_of (p_out p')) blobs = xs"
proof -
  obtain p where p: "add_all wr (NewPacker k) xs = (p, None)" "holds p xs" "p_k p = k"
    using add_all_holds [OF holds_New wr xs(2), of k] l by (auto simp: NewPacker_def)
  have key': "usable_key (P, p_k p)" using key p(3) by simp
  have "blobs_ok (p_blobs p)"
    using p(2) xs holds_length [OF p(2)] CalculateHeaderSize_le [of "p_blobs p"]
    by (auto simp: blobs_ok_def holds_def packer_inv_def)
  from Finalize_ok [OF key' n wr _ this] obtain hdr where f: "Packer_Finalize P wr nonce p =
       (p\<lparr>p_out := p_out p @ hdr, p_bytes := Packer_PackSize p\<rparr>, None)"
    using p(2) by (auto simp: holds_def)
  have "map (item_of (p_out p @ hdr)) (p_blobs p) = xs"
    using p(2) item_of_append by (auto simp: holds_def)
  then show thesis
    using that [OF p(1) f] Finalize_List [OF f] p(3) by simp
qed

section \<open>Merging\<close>

lemma Packer_Add_sint: "Packer_Add wr p t i d (sint (w :: u64)) = Packer_Add wr p t i d (uint w)"
proof -
  have "(of_int (sint w) :: u64) = of_int (uint w)" by simp
  then show ?thesis by (simp only: Packer_Add_def)
qed

text \<open>Reading the other packer's data front to back, blob by blob, is adding its items.\<close>

lemma merge_blobs_add_all:
  assumes "contiguous pos blobs" "length f < 2 ^ 64"
    "\<forall>b \<in> set blobs. unat (b_Offset b) + unat (b_Length b) \<le> length f"
  shows "merge_blobs wr p blobs (drop (unat pos) f) = add_all wr p (map (item_of f) blobs)"
  using assms
proof (induction blobs arbitrary: pos p)
  case Nil
  then show ?case by simp
next
  case (Cons b blobs)
  have o: "b_Offset b = pos" and l: "unat pos + unat (b_Length b) \<le> length f"
    using Cons.prems by auto
  then have next_pos: "unat (pos + b_Length b) = unat (b_Length b) + unat pos"
    using Cons.prems(2) by (simp add: unat_word_ariths)
  have dat: "take (unat (b_Length b)) (drop (unat pos) f) = blob_data f b"
    by (simp add: blob_data_def o)
  have IH: "merge_blobs wr q blobs (drop (unat (b_Length b) + unat pos) f)
      = add_all wr q (map (item_of f) blobs)" for q
    using Cons.IH [of "pos + b_Length b" q] Cons.prems next_pos by simp
  have "\<not> length (drop (unat pos) f) < unat (b_Length b)" using l by simp
  moreover have "item_of f b = (bh_Type (b_Handle b), bh_ID (b_Handle b), blob_data f b,
      uint (b_UncompressedLength b))" by (simp add: item_of_def)
  ultimately show ?case
    by (simp add: dat IH Packer_Add_sint Let_def split: prod.splits option.splits)
qed

lemma merge_holds:
  assumes p: "holds p xs" and q: "holds q ys" and wr: "accepting wr" and ok: "\<forall>y \<in> set ys. item_ok y"
    and l: "length (p_out p) + sum_list (map (\<lambda>(t, i, d, u). length d) ys) < 2 ^ 64"
    and lq: "length (p_out q) < 2 ^ 64"
  obtains p' where "Packer_Merge wr p q (p_out q) = (p', None)" "holds p' (xs @ ys)" "p_k p' = p_k p"
proof -
  have "merge_blobs wr p (p_blobs q) (drop (unat (0 :: u64)) (p_out q))
      = add_all wr p (map (item_of (p_out q)) (p_blobs q))"
    using q lq by (intro merge_blobs_add_all) (auto simp: holds_def packer_inv_def)
  then have "Packer_Merge wr p q (p_out q) = add_all wr p ys"
    using q by (simp add: Packer_Merge_def holds_def)
  with add_all_holds [OF p wr ok l] that show thesis by metis
qed

section \<open>Pack sizes\<close>

lemma size_step_dom: "distinct (map fst m) \<Longrightarrow> distinct (map fst (size_step oh m b))"
  by (simp add: size_step_def Let_def distinct_update)

definition size_share :: "bool \<Rightarrow> PackedBlob \<Rightarrow> int" where
  "size_share onlyHdr b = (if onlyHdr then 0 else sint (pb_CiphertextLength b))
     + int (CalculateEntrySize (pb_IsCompressed b))"

lemma map_of_size_step:
  "map_of (size_step oh m b) = (map_of m)(pb_Pack b \<mapsto>
     (case map_of m (pb_Pack b) of None \<Rightarrow> int headerSize | Some s \<Rightarrow> s) + size_share oh b)"
  by (auto simp: size_step_def size_share_def Let_def update_conv')

lemma Size_foldl:
  "map_of (foldl (size_step oh) m blobs) pid =
     (if pid \<in> dom (map_of m) \<union> pb_Pack ` set blobs
      then Some ((case map_of m pid of None \<Rightarrow> int headerSize | Some s \<Rightarrow> s)
        + (\<Sum>b \<leftarrow> filter (\<lambda>b. pb_Pack b = pid) blobs. size_share oh b))
      else None)"
proof (induction blobs arbitrary: m)
  case Nil
  then show ?case by (auto split: option.splits)
next
  case (Cons b blobs)
  show ?case
    unfolding foldl.simps Cons.IH map_of_size_step by (auto split: option.splits)
qed

lemma Size_eq:
  "map_of (Size blobs oh) pid =
     (if pid \<in> pb_Pack ` set blobs
      then Some (int headerSize + (\<Sum>b \<leftarrow> filter (\<lambda>b. pb_Pack b = pid) blobs. size_share oh b))
      else None)"
  by (simp add: Size_def Size_foldl)

lemma distinct_Size: "distinct (map fst (Size blobs oh))"
proof -
  have "distinct (map fst m) \<Longrightarrow> distinct (map fst (foldl (size_step oh) m blobs))" for m
    by (induction blobs arbitrary: m) (auto simp: size_step_dom)
  then show ?thesis by (simp add: Size_def)
qed

section \<open>Main results\<close>

text \<open>C6: Blobs added to a new packer and finalized come back from the file: \<^verbatim>\<open>List\<close> returns one entry per
  added blob, in order, with its type, ID and uncompressed length, and the entry's offset and
  length select exactly the bytes that were added.\<close>

theorem pack_roundtrip:
  assumes "usable_key (P, k)" and "nonce_ok nonce" and "accepting wr"
    and "xs \<noteq> []" and "\<forall>x \<in> set xs. item_ok x"
    and "headerSize + length xs * entrySize \<le> MaxHeaderSize"
    and "sum_list (map (\<lambda>(t, i, d, u). length d) xs) < 2 ^ 64"
  shows "\<exists>p p' h blobs. add_all wr (NewPacker k) xs = (p, None)
    \<and> Packer_Finalize P wr nonce p = (p', None)
    \<and> List P k (bytes_reader (p_out p')) (int (length (p_out p'))) = Inr (blobs, h)
    \<and> map (item_of (p_out p')) blobs = xs"
  using pack_roundtrip_lemma [OF assms] by metis

definition sample_writer :: writer where
  "sample_writer out dat = (length dat, None)"

lemma sample_writer_ok [simp]: "accepting sample_writer"
  by (simp add: accepting_def sample_writer_def)

definition sample_items :: "item list" where
  "sample_items = [(DataBlob, replicate 32 7, [1, 2, 3], 0), (TreeBlob, replicate 32 8, [4, 5], 99)]"

lemma usable_sample_key [simp]: "usable_key (null_prims, sample_key)" "nonce_ok (replicate 16 1)"
  by (simp_all add: usable_key_def nonce_ok_def size_defs)

lemma sample_items_ok: "\<forall>x \<in> set sample_items. item_ok x" "sample_items \<noteq> []"
  "length sample_items = 2" "sum_list (map (\<lambda>(t, i, d, u). length d) sample_items) = 5"
  by (simp_all add: sample_items_def item_ok_def is_id_def idSize_def)

theorem pack_roundtrip_witness:
  "\<exists>p p' h blobs. add_all sample_writer (NewPacker sample_key) sample_items = (p, None)
    \<and> Packer_Finalize null_prims sample_writer (replicate 16 1) p = (p', None)
    \<and> List null_prims sample_key (bytes_reader (p_out p')) (int (length (p_out p'))) = Inr (blobs, h)
    \<and> map (item_of (p_out p')) blobs = sample_items"
  by (rule pack_roundtrip) (simp_all add: sample_items_ok pack_size_defs)

text \<open>C7: Whatever the packer's state, key, nonce and writer: when \<^verbatim>\<open>Finalize\<close> reports success, \<^verbatim>\<open>List\<close> on
  the written file returns exactly the packer's blobs and the size of the header that was written.\<close>

theorem Finalize_sound:
  assumes "Packer_Finalize P wr nonce p = (p', None)"
  shows "List P (p_k p) (bytes_reader (p_out p')) (int (length (p_out p')))
           = Inr (p_blobs p, of_nat (length (p_out p') - length (p_out p)))"
  using assms by (rule Finalize_List)

definition sample_packer :: Packer where
  "sample_packer = fst (Packer_Add sample_writer (NewPacker sample_key) DataBlob (replicate 32 7) [1, 2, 3] 0)"

lemma sample_packer_out: "p_out sample_packer = [1, 2, 3]"
    "(\<Sum>b \<leftarrow> p_blobs sample_packer. sint (b_Length b)) = 3"
  by (simp_all add: sample_packer_def Packer_Add_def NewPacker_def sample_writer_def Let_def)

lemma sample_packer_holds: "holds sample_packer [(DataBlob, replicate 32 7, [1, 2, 3], 0)]"
    "p_k sample_packer = sample_key"
proof -
  let ?x = "(DataBlob, replicate 32 7, [1, 2, 3], 0) :: item"
  have "item_ok ?x" by (simp add: item_ok_def is_id_def idSize_def)
  then obtain p' n where "Packer_Add sample_writer (NewPacker sample_key) DataBlob (replicate 32 7) [1, 2, 3] 0
      = (p', n, None)" "holds p' ([] @ [?x])" "p_k p' = p_k (NewPacker sample_key)"
    by (rule holds_Add [OF holds_New [of sample_key] sample_writer_ok]) (simp_all add: NewPacker_def)
  then show "holds sample_packer [?x]" "p_k sample_packer = sample_key"
    by (simp_all add: sample_packer_def NewPacker_def)
qed

lemma sample_packer_blobs_ok: "blobs_ok (p_blobs sample_packer)" "p_err sample_packer = None"
  using sample_packer_holds CalculateHeaderSize_le [of "p_blobs sample_packer"]
    holds_length [OF sample_packer_holds(1)]
  by (auto simp: blobs_ok_def holds_def packer_inv_def pack_size_defs)

theorem Finalize_sound_witness:
  "\<exists>p'. Packer_Finalize null_prims sample_writer (replicate 16 1) sample_packer = (p', None)
     \<and> List null_prims (p_k sample_packer) (bytes_reader (p_out p')) (int (length (p_out p')))
           = Inr (p_blobs sample_packer, of_nat (length (p_out p') - length (p_out sample_packer)))"
proof -
  have "usable_key (null_prims, p_k sample_packer)" by (simp add: sample_packer_holds)
  from Finalize_ok [OF this usable_sample_key(2) sample_writer_ok sample_packer_blobs_ok(2,1)]
  obtain p' where "Packer_Finalize null_prims sample_writer (replicate 16 1) sample_packer = (p', None)"
    by auto
  with Finalize_sound [OF this] show ?thesis by blast
qed

text \<open>C8: The eager read of \<^verbatim>\<open>readHeader\<close> (one request for the last 15 entries' worth of bytes, a second one
  only when the header is longer) returns the same bytes, or the same error, as reading the
  announced number of bytes in front of the length field directly.\<close>

theorem readHeader_eager:
  "readHeader (bytes_reader f) (int (length f)) =
     (case header_error f of Some e \<Rightarrow> Inl e | None \<Rightarrow> Inr (header_bytes f))"
  by (rule readHeader_bytes)

lemma size_share_sum:
  "int (CalculateHeaderSize bs) + (\<Sum>b \<leftarrow> bs. sint (b_Length b))
     = int headerSize + (\<Sum>b \<leftarrow> map (\<lambda>b. \<lparr>pb_Pack = pid, pb_Blob = b\<rparr>) bs. size_share False b)"
  unfolding CalculateHeaderSize_def CalculateHeaderSize_shift
  by (induction bs) (simp_all add: size_share_def pb_CiphertextLength_def pb_IsCompressed_def)

text \<open>C9: For a packer with well-formed blobs \<^verbatim>\<open>Finalize\<close> succeeds, and the file's length is what
  \<^verbatim>\<open>PackSize\<close> predicted and what \<^verbatim>\<open>Size\<close> computes from the index entries of the pack.\<close>

theorem pack_size_agrees:
  assumes "usable_key (P, p_k p)" and "nonce_ok nonce" and "accepting wr" and "p_err p = None"
    and "packer_inv p" and "blobs_ok (p_blobs p)"
    and "int (length (p_out p)) = (\<Sum>b \<leftarrow> p_blobs p. sint (b_Length b))"
  shows "\<exists>p'. Packer_Finalize P wr nonce p = (p', None)
    \<and> of_nat (length (p_out p')) = Packer_PackSize p
    \<and> map_of (Size (map (\<lambda>b. \<lparr>pb_Pack = pid, pb_Blob = b\<rparr>) (p_blobs p)) False) pid
        = Some (int (length (p_out p')))"
proof -
  let ?bs = "map (\<lambda>b. \<lparr>pb_Pack = pid, pb_Blob = b\<rparr>) (p_blobs p)"
  from Finalize_ok [OF assms(1-4,6)] obtain hdr where
    l: "length hdr = CalculateHeaderSize (p_blobs p)" and
    f: "Packer_Finalize P wr nonce p = (p\<lparr>p_out := p_out p @ hdr, p_bytes := Packer_PackSize p\<rparr>, None)"
    by blast
  have "p_bytes p = of_nat (length (p_out p))" using assms(4,5) unfolding packer_inv_def by blast
  then have 1: "of_nat (length (p_out p @ hdr)) = Packer_PackSize p"
    by (simp add: Packer_PackSize_def l)
  have flt: "filter (\<lambda>b. pb_Pack b = pid) ?bs = ?bs" by (simp add: filter_map o_def)
  have pid: "pid \<in> pb_Pack ` set ?bs"
    using assms(6) by (cases "p_blobs p") (auto simp: blobs_ok_def)
  have "map_of (Size ?bs False) pid = Some (int (length (p_out p @ hdr)))"
    using assms(7) l pid size_share_sum [of "p_blobs p" pid] by (simp only: Size_eq flt) simp
  then show ?thesis using f 1 by auto
qed

theorem pack_size_agrees_witness:
  "\<exists>p'. Packer_Finalize null_prims sample_writer (replicate 16 1) sample_packer = (p', None)
    \<and> of_nat (length (p_out p')) = Packer_PackSize sample_packer
    \<and> map_of (Size (map (\<lambda>b. \<lparr>pb_Pack = replicate 32 5, pb_Blob = b\<rparr>) (p_blobs sample_packer)) False)
        (replicate 32 5) = Some (int (length (p_out p')))"
proof (rule pack_size_agrees)
  show "usable_key (null_prims, p_k sample_packer)" by (simp add: sample_packer_holds)
  show "packer_inv sample_packer" using sample_packer_holds by (simp add: holds_def)
  show "int (length (p_out sample_packer)) = (\<Sum>b \<leftarrow> p_blobs sample_packer. sint (b_Length b))"
    by (simp add: sample_packer_out)
qed (use sample_packer_blobs_ok in simp_all)

text \<open>C10: Merging a packer into another has the effect of adding its blobs one after the other: the
  target then holds its own blobs followed by the other packer's, each with its data.\<close>

theorem Merge_holds:
  assumes "holds p xs" and "holds q ys" and "accepting wr" and "\<forall>y \<in> set ys. item_ok y"
    and "length (p_out p) + sum_list (map (\<lambda>(t, i, d, u). length d) ys) < 2 ^ 64"
    and "length (p_out q) < 2 ^ 64"
  shows "\<exists>p'. Packer_Merge wr p q (p_out q) = (p', None) \<and> holds p' (xs @ ys)"
  using merge_holds [OF assms] by metis

theorem Merge_holds_witness:
  "\<exists>p'. Packer_Merge sample_writer (NewPacker sample_key) sample_packer (p_out sample_packer) = (p', None)
     \<and> holds p' ([] @ [(DataBlob, replicate 32 7, [1, 2, 3], 0)])"
proof (rule Merge_holds [OF holds_New sample_packer_holds(1) sample_writer_ok])
  show "length (p_out sample_packer) < 2 ^ 64" by (simp add: sample_packer_out)
qed (simp_all add: item_ok_def is_id_def idSize_def NewPacker_def)

end
