(* ===== verification/Blob_Index.thy ===== *)
theory Blob_Index
  imports Index_Map Pack "HOL-Library.Multiset"
begin

text \<open>
  The in-memory index, \<^verbatim>\<open>internal/repository/index/index.go\<close>: per blob type a hash table from blob IDs to
  entries, and the list of pack IDs the entries refer to by position.

  The mutex, the debug log and the JSON text are left out: the JSON boundary is the value
  \<^verbatim>\<open>jsonIndex\<close> (\<open>packJSON\<close> lists), which \<open>generatePackList\<close> produces and \<open>DecodeIndex\<close> reads. Iterators and
  channels are lists. The time of creation is a number of nanoseconds. The callbacks in
  \<^verbatim>\<open>workingReleases\<close> are numbered; running them is reported as a result. The hash seeds of the tables
  are the parameter \<open>mh\<close> of \<open>NewIndex\<close>.
\<close>

section \<open>Model\<close>

record Index =
  x_byType :: "indexMap list"
  x_packs :: "ID list"
  x_final :: bool
  x_ids :: "ID list"
  x_created :: int
  x_workingReleases :: "nat list"
  x_workingRetained :: bool

type_synonym hash_seeds = "BlobType \<Rightarrow> ID \<Rightarrow> u64"

definition NewIndex :: "hash_seeds \<Rightarrow> int \<Rightarrow> Index" where
  "NewIndex mh now = \<lparr>x_byType = map (\<lambda>t. zeroMap (mh t)) array_blob_types, x_packs = [], x_final = False,
     x_ids = [], x_created = now, x_workingReleases = [], x_workingRetained = False\<rparr>"

definition maxUint32 :: u64 where "maxUint32 = 0xffffffff"

definition byType :: "Index \<Rightarrow> BlobType \<Rightarrow> indexMap result" where
  "byType idx t = (if blob_type_num t < length (x_byType idx) then Inr (x_byType idx ! blob_type_num t)
     else Inl (Panic ''index out of range''))"

definition set_byType :: "Index \<Rightarrow> BlobType \<Rightarrow> indexMap \<Rightarrow> Index" where
  "set_byType idx t m = idx\<lparr>x_byType := (x_byType idx)[blob_type_num t := m]\<rparr>"

definition attachWorking :: "Index \<Rightarrow> nat \<Rightarrow> bool \<Rightarrow> Index" where
  "attachWorking idx release retained = idx\<lparr>x_workingReleases := x_workingReleases idx @ [release],
     x_workingRetained := x_workingRetained idx \<or> retained\<rparr>"

definition releaseWorking :: "Index \<Rightarrow> bool \<Rightarrow> Index \<times> nat list" where
  "releaseWorking idx force = (if force \<or> \<not> x_workingRetained idx
     then (idx\<lparr>x_workingReleases := []\<rparr>, x_workingReleases idx) else (idx, []))"

definition addToPacks :: "Index \<Rightarrow> ID \<Rightarrow> (Index \<times> u32) result" where
  "addToPacks idx i = (let packs = x_packs idx @ [i] in
     if unat maxUint32 < length packs then Inl (Panic ''repository index pack count overflow'')
     else Inr (idx\<lparr>x_packs := packs\<rparr>, of_nat (length packs - 1)))"

definition index_store :: "Index \<Rightarrow> u32 \<Rightarrow> Blob \<Rightarrow> Index result" where
  "index_store idx packIndex blob =
     (if maxUint32 < b_Offset blob \<or> maxUint32 < b_Length blob \<or> maxUint32 < b_UncompressedLength blob
      then Inl (Panic ''offset or length does not fit in uint32. You have packs > 4GB!'')
      else let t = bh_Type (b_Handle blob) in
        rbind (byType idx t) (\<lambda>m.
          rbind (indexMap_add m (bh_ID (b_Handle blob)) packIndex (ucast (b_Offset blob)) (ucast (b_Length blob))
                   (ucast (b_UncompressedLength blob))) (\<lambda>m.
            Inr (set_byType idx t m))))"

definition Preallocate :: "Index \<Rightarrow> BlobType \<Rightarrow> int \<Rightarrow> Index result" where
  "Preallocate idx t numEntries =
     rbind (byType idx t) (\<lambda>m. rbind (indexMap_preallocate m numEntries) (\<lambda>m. Inr (set_byType idx t m)))"

definition StorePack :: "Index \<Rightarrow> ID \<Rightarrow> Blob list \<Rightarrow> Index result" where
  "StorePack idx i blobs =
     (if x_final idx then Inl (Panic ''store new item in finalized index'')
      else rbind (addToPacks idx i) (\<lambda>(idx, packIndex). foldM (\<lambda>idx blob. index_store idx packIndex blob) idx blobs))"

definition toPackedBlob :: "Index \<Rightarrow> BlobType \<Rightarrow> indexEntry \<Rightarrow> PackedBlob result" where
  "toPackedBlob idx t e =
     (if unat (e_packIndex e) < length (x_packs idx)
      then Inr \<lparr>pb_Pack = x_packs idx ! unat (e_packIndex e),
                pb_Blob = \<lparr>b_Handle = \<lparr>bh_ID = e_id e, bh_Type = t\<rparr>, b_Length = ucast (e_length e),
                           b_Offset = ucast (e_offset e),
                           b_UncompressedLength = ucast (e_uncompressedLength e)\<rparr>\<rparr>
      else Inl (Panic ''index out of range''))"

definition Lookup :: "Index \<Rightarrow> BlobHandle \<Rightarrow> PackedBlob list \<Rightarrow> PackedBlob list result" where
  "Lookup idx bh pbs =
     rbind (byType idx (bh_Type bh)) (\<lambda>m. rbind (valuesWithID m (bh_ID bh)) (\<lambda>es.
       rbind (mapM (toPackedBlob idx (bh_Type bh)) es) (\<lambda>found. Inr (pbs @ found))))"

definition Has :: "Index \<Rightarrow> BlobHandle \<Rightarrow> bool result" where
  "Has idx bh = rbind (byType idx (bh_Type bh)) (\<lambda>m. rbind (indexMap_get m (bh_ID bh)) (\<lambda>r. Inr (r \<noteq> None)))"

definition lookupSize :: "Index \<Rightarrow> BlobHandle \<Rightarrow> (u64 \<times> bool) result" where
  "lookupSize idx bh = rbind (byType idx (bh_Type bh)) (\<lambda>m. rbind (indexMap_get m (bh_ID bh)) (\<lambda>r.
     case r of None \<Rightarrow> Inr (0, False)
     | Some e \<Rightarrow> if e_uncompressedLength e \<noteq> 0 then Inr (ucast (e_uncompressedLength e), True)
                 else Inr (of_int (PlaintextLength (uint (e_length e))), True)))"

text \<open>The slice \<^verbatim>\<open>sizes\<close> of \<^verbatim>\<open>lookupSizes\<close>, one \<^verbatim>\<open>(Size, Found)\<close> per handle, is updated in place.\<close>

fun lookupSizes :: "Index \<Rightarrow> BlobHandle list \<Rightarrow> (u64 \<times> bool) list \<Rightarrow> (u64 \<times> bool) list result" where
  "lookupSizes idx [] sizes = Inr sizes"
| "lookupSizes idx (h # hs) [] = Inl (Panic ''index out of range'')"
| "lookupSizes idx (h # hs) (s # sizes) =
     rbind (if snd s then Inr s else lookupSize idx h) (\<lambda>s. rbind (lookupSizes idx hs sizes) (\<lambda>r. Inr (s # r)))"

definition type_values :: "Index \<Rightarrow> BlobType \<Rightarrow> PackedBlob list result" where
  "type_values idx t = rbind (byType idx t) (\<lambda>m. rbind (indexMap_values m) (mapM (toPackedBlob idx t)))"

definition Values :: "Index \<Rightarrow> PackedBlob list result" where
  "Values idx = rbind (mapM (type_values idx) array_blob_types) (\<lambda>vs. Inr (concat vs))"

definition Packs :: "Index \<Rightarrow> ID set" where
  "Packs idx = set (x_packs idx)"

definition Finalize :: "Index \<Rightarrow> Index" where
  "Finalize idx = idx\<lparr>x_final := True\<rparr>"

definition index_IDs :: "Index \<Rightarrow> ID list result" where
  "index_IDs idx = (if \<not> x_final idx then Inl (Error ''index not finalized'') else Inr (x_ids idx))"

definition SetID :: "Index \<Rightarrow> ID \<Rightarrow> Index result" where
  "SetID idx i =
     (if \<not> x_final idx then Inl (Error ''index is not final'')
      else if x_ids idx \<noteq> [] then Inl (Error ''ID already set'')
      else Inr (idx\<lparr>x_ids := x_ids idx @ [i]\<rparr>))"

definition BlobIndex :: "Index \<Rightarrow> BlobHandle \<Rightarrow> int result" where
  "BlobIndex idx bh = rbind (byType idx (bh_Type bh)) (\<lambda>m. firstIndex m (bh_ID bh))"

definition index_Len :: "Index \<Rightarrow> BlobType \<Rightarrow> u64 result" where
  "index_Len idx t = rbind (byType idx t) (\<lambda>m. Inr (indexMap_len m))"

definition indexMaxBlobs :: u64 where "indexMaxBlobs = 50000"

definition indexMaxAge :: int where "indexMaxAge = 10 * 60 * 1000000000"

definition blob_count :: "Index \<Rightarrow> u64" where
  "blob_count idx = foldl (\<lambda>blobs m. blobs + indexMap_len m) 0 (x_byType idx)"

definition Full :: "int \<Rightarrow> Index \<Rightarrow> bool" where
  "Full now idx = (let age = now - x_created idx in indexMaxAge \<le> age \<or> indexMaxBlobs \<le> blob_count idx)"

definition Oversized :: "Index \<Rightarrow> bool" where
  "Oversized idx = (indexMaxBlobs + of_nat MaxHeaderEntries \<le> blob_count idx)"

subsection \<open>Grouping by pack and the JSON form\<close>

record PackBlobs =
  pbs_PackID :: ID
  pbs_Blobs :: "Blob list"

text \<open>\<^verbatim>\<open>EachByPack\<close>: the entries grouped by pack; within a pack they are ordered by type. The order of
  the packs is that of a Go map, here the order of first appearance.\<close>

definition group_step :: "(ID \<times> Blob list) list \<Rightarrow> PackedBlob \<Rightarrow> (ID \<times> Blob list) list" where
  "group_step byPack pb = AList.update (pb_Pack pb)
     ((case map_of byPack (pb_Pack pb) of None \<Rightarrow> [] | Some v \<Rightarrow> v) @ [pb_Blob pb]) byPack"

definition EachByPack :: "Index \<Rightarrow> ID set \<Rightarrow> PackBlobs list result" where
  "EachByPack idx packBlacklist = rbind (Values idx) (\<lambda>vs.
     Inr (map (\<lambda>(p, bs). \<lparr>pbs_PackID = p, pbs_Blobs = bs\<rparr>)
       (foldl group_step [] (filter (\<lambda>pb. \<not> x_final idx \<or> pb_Pack pb \<notin> packBlacklist) vs))))"

record blobJSON =
  bj_ID :: ID
  bj_Type :: BlobType
  bj_Offset :: u64
  bj_Length :: u64
  bj_UncompressedLength :: u64

record packJSON =
  pj_ID :: ID
  pj_Blobs :: "blobJSON list"

definition to_blobJSON :: "PackedBlob \<Rightarrow> blobJSON" where
  "to_blobJSON pb = (let b = pb_Blob pb in
     \<lparr>bj_ID = bh_ID (b_Handle b), bj_Type = bh_Type (b_Handle b), bj_Offset = b_Offset b,
      bj_Length = b_Length b, bj_UncompressedLength = b_UncompressedLength b\<rparr>)"

text \<open>\<open>packs\<close> is the map from pack ID to position in \<open>list\<close>.\<close>

definition pack_list_step ::
  "packJSON list \<times> (ID \<times> nat) list \<Rightarrow> PackedBlob \<Rightarrow> (packJSON list \<times> (ID \<times> nat) list) result" where
  "pack_list_step = (\<lambda>(lst, packs) pb. let packID = pb_Pack pb in
     if IsNull packID then Inl (Panic ''null pack id'')
     else let (i, lst, packs) = (case map_of packs packID of
              Some i \<Rightarrow> (i, lst, packs)
            | None \<Rightarrow> (length lst, lst @ [\<lparr>pj_ID = packID, pj_Blobs = []\<rparr>], AList.update packID (length lst) packs));
          p = lst ! i
        in Inr (lst[i := p\<lparr>pj_Blobs := pj_Blobs p @ [to_blobJSON pb]\<rparr>], packs))"

definition generatePackList :: "Index \<Rightarrow> packJSON list result" where
  "generatePackList idx = rbind (Values idx) (\<lambda>vs.
     rbind (foldM pack_list_step ([], []) vs) (\<lambda>(lst, _). Inr lst))"

definition of_blobJSON :: "blobJSON \<Rightarrow> Blob" where
  "of_blobJSON b = \<lparr>b_Handle = \<lparr>bh_ID = bj_ID b, bh_Type = bj_Type b\<rparr>, b_Length = bj_Length b,
     b_Offset = bj_Offset b, b_UncompressedLength = bj_UncompressedLength b\<rparr>"

definition decode_pack :: "Index \<Rightarrow> packJSON \<Rightarrow> Index result" where
  "decode_pack idx p = rbind (addToPacks idx (pj_ID p)) (\<lambda>(idx, packID).
     foldM (\<lambda>idx blob. index_store idx packID (of_blobJSON blob)) idx (pj_Blobs p))"

text \<open>The argument \<open>idxJSON\<close> is the outcome of \<^verbatim>\<open>json.Unmarshal\<close> on the file's bytes.\<close>

definition DecodeIndex :: "hash_seeds \<Rightarrow> int \<Rightarrow> packJSON list result \<Rightarrow> ID \<Rightarrow> Index result" where
  "DecodeIndex mh now idxJSON i = (case idxJSON of
     Inl e \<Rightarrow> Inl (Wrap ''DecodeIndex'' e)
   | Inr packs \<Rightarrow> rbind (foldM decode_pack (NewIndex mh now) packs) (\<lambda>idx.
       Inr (idx\<lparr>x_ids := x_ids idx @ [i], x_final := True\<rparr>)))"

text \<open>\<open>save\<close> is the repository's \<^verbatim>\<open>SaveUnpacked\<close> applied to the encoded list.\<close>

definition SaveIndex ::
  "(packJSON list \<Rightarrow> ID \<times> go_error option) \<Rightarrow> Index \<Rightarrow> (Index \<times> ID \<times> go_error option) result" where
  "SaveIndex save idx = rbind (generatePackList idx) (\<lambda>lst.
     let (i, err) = save lst in
     case SetID idx i of Inl e \<Rightarrow> Inl (Panic ''SetID'') | Inr idx \<Rightarrow> Inr (idx, i, err))"

subsection \<open>Merging\<close>

definition hasIdenticalEntry :: "Index \<Rightarrow> Index \<Rightarrow> BlobType \<Rightarrow> indexMap \<Rightarrow> indexEntry \<Rightarrow> bool result" where
  "hasIdenticalEntry idx idx2 t m e2 = rbind (valuesWithID m (e_id e2)) (\<lambda>es.
     foldM (\<lambda>found e. if found then Inr True
       else rbind (toPackedBlob idx t e) (\<lambda>b. rbind (toPackedBlob idx2 t e2) (\<lambda>b2. Inr (b = b2)))) False es)"

definition merge_entry :: "Index \<Rightarrow> Index \<Rightarrow> nat \<Rightarrow> BlobType \<Rightarrow> indexMap \<Rightarrow> indexEntry \<Rightarrow> indexMap result" where
  "merge_entry idx idx2 packlen t m e2 = rbind (hasIdenticalEntry idx idx2 t m e2) (\<lambda>found.
     if found then Inr m
     else indexMap_add m (e_id e2) (e_packIndex e2 + of_nat packlen) (e_offset e2) (e_length e2)
            (e_uncompressedLength e2))"

definition merge_type :: "Index \<Rightarrow> nat \<Rightarrow> Index \<Rightarrow> BlobType \<Rightarrow> Index result" where
  "merge_type idx2 packlen idx t = rbind (byType idx2 t) (\<lambda>m2. rbind (byType idx t) (\<lambda>m.
     rbind (indexMap_values m2) (\<lambda>es2.
       rbind (foldM (merge_entry idx idx2 packlen t) m es2) (\<lambda>m. Inr (set_byType idx t m)))))"

text \<open>\<^verbatim>\<open>merge\<close> returns both indexes, since it takes over the callbacks of \<open>idx2\<close>, and the error.\<close>

definition index_merge :: "Index \<Rightarrow> Index \<Rightarrow> (Index \<times> Index \<times> go_error option) result" where
  "index_merge idx idx2 =
     (if \<not> x_final idx2 then Inr (idx, idx2, Some (Error ''index to merge is not final''))
      else let packlen = length (x_packs idx); idx = idx\<lparr>x_packs := x_packs idx @ x_packs idx2\<rparr> in
        if unat maxUint32 < length (x_packs idx)
        then Inr (idx, idx2, Some (Error ''index merge: too many packs''))
        else rbind (foldM (merge_type idx2 packlen) idx array_blob_types) (\<lambda>idx.
          Inr (idx\<lparr>x_ids := x_ids idx @ x_ids idx2,
                   x_workingReleases := x_workingReleases idx @ x_workingReleases idx2,
                   x_workingRetained := True\<rparr>,
               idx2\<lparr>x_workingReleases := []\<rparr>, None)))"

subsection \<open>Building a catalog\<close>

record CatalogPackSize =
  cps_Type :: BlobType
  cps_Entries :: u64

record CatalogBuilder =
  cb_index :: "Index option"
  cb_packs :: "(ID \<times> u32) list"
  cb_sizes :: "CatalogPackSize list"

definition NewCatalogBuilder :: "hash_seeds \<Rightarrow> int \<Rightarrow> CatalogBuilder" where
  "NewCatalogBuilder mh now = \<lparr>cb_index = Some (NewIndex mh now), cb_packs = [], cb_sizes = []\<rparr>"

definition Catalog_Add :: "CatalogBuilder \<Rightarrow> ID \<Rightarrow> Blob \<Rightarrow> CatalogBuilder result" where
  "Catalog_Add builder packID blob = (case cb_index builder of
     None \<Rightarrow> Inl (Error ''catalog builder is already finished'')
   | Some idx \<Rightarrow> let t = bh_Type (b_Handle blob) in
       if t \<noteq> DataBlob \<and> t \<noteq> TreeBlob then Inl (Error ''catalog blob has invalid type'')
       else if maxUint32 < b_Offset blob \<or> maxUint32 < b_Length blob \<or> maxUint32 < b_UncompressedLength blob
       then Inl (Error ''catalog blob offset or length exceeds uint32'')
       else rbind (case map_of (cb_packs builder) packID of
              Some ordinal \<Rightarrow> Inr (idx, ordinal, cb_packs builder, cb_sizes builder)
            | None \<Rightarrow>
                if unat maxUint32 \<le> length (x_packs idx) then Inl (Error ''catalog pack count exceeds uint32'')
                else rbind (addToPacks idx packID) (\<lambda>(idx, ordinal).
                  Inr (idx, ordinal, AList.update packID ordinal (cb_packs builder),
                       cb_sizes builder @ [\<lparr>cps_Type = t, cps_Entries = 0\<rparr>]))) (\<lambda>(idx, ordinal, packs, sizes).
            rbind (index_store idx ordinal blob) (\<lambda>idx.
              if length sizes \<le> unat ordinal then Inl (Panic ''index out of range'')
              else let summary = sizes ! unat ordinal;
                       summary = (if cps_Type summary \<noteq> t then summary\<lparr>cps_Type := NumBlobTypes\<rparr> else summary)
                in Inr (builder\<lparr>cb_index := Some idx, cb_packs := packs,
                     cb_sizes := sizes[unat ordinal := summary\<lparr>cps_Entries := cps_Entries summary + b_Length blob
                       + of_nat (CalculateEntrySize (IsCompressed blob))\<rparr>]\<rparr>))))"

definition Catalog_PackSizes :: "CatalogBuilder \<Rightarrow> (ID \<times> CatalogPackSize) list result" where
  "Catalog_PackSizes builder = (case cb_index builder of
     None \<Rightarrow> if cb_sizes builder = [] then Inr [] else Inl (Panic ''nil pointer dereference'')
   | Some idx \<Rightarrow> mapM (\<lambda>ordinal. if ordinal < length (x_packs idx)
       then Inr (x_packs idx ! ordinal, cb_sizes builder ! ordinal)
       else Inl (Panic ''index out of range'')) [0 ..< length (cb_sizes builder)])"

definition Catalog_Build :: "CatalogBuilder \<Rightarrow> CatalogBuilder \<times> Index option" where
  "Catalog_Build builder = (\<lparr>cb_index = None, cb_packs = [], cb_sizes = []\<rparr>, cb_index builder)"

section \<open>Invariant and contents\<close>

text \<open>An entry with its pack resolved.\<close>

definition packed :: "ID list \<Rightarrow> BlobType \<Rightarrow> indexEntry \<Rightarrow> PackedBlob" where
  "packed packs t e = \<lparr>pb_Pack = packs ! unat (e_packIndex e),
     pb_Blob = \<lparr>b_Handle = \<lparr>bh_ID = e_id e, bh_Type = t\<rparr>, b_Length = ucast (e_length e),
       b_Offset = ucast (e_offset e), b_UncompressedLength = ucast (e_uncompressedLength e)\<rparr>\<rparr>"

abbreviation pb_ID :: "PackedBlob \<Rightarrow> ID" where
  "pb_ID pb \<equiv> bh_ID (pb_Handle pb)"

abbreviation pb_Type :: "PackedBlob \<Rightarrow> BlobType" where
  "pb_Type pb \<equiv> bh_Type (pb_Handle pb)"

lemma pb_Handle_mk [simp]: "pb_Handle \<lparr>pb_Pack = i, pb_Blob = b\<rparr> = b_Handle b"
  by (simp add: pb_Handle_def)

lemma packed_simps [simp]:
  "pb_Type (packed packs t e) = t" "pb_ID (packed packs t e) = e_id e"
  "packed packs t (payload e) = packed packs t e" "pb_Pack (packed packs t e) = packs ! unat (e_packIndex e)"
  by (simp_all add: packed_def pb_Handle_def payload_def)

lemma toPackedBlob_packed:
  "unat (e_packIndex e) < length (x_packs idx) \<Longrightarrow> toPackedBlob idx t e = Inr (packed (x_packs idx) t e)"
  by (simp add: toPackedBlob_def packed_def)

definition type_map :: "Index \<Rightarrow> BlobType \<Rightarrow> indexMap" where
  "type_map idx t = x_byType idx ! blob_type_num t"

definition index_inv :: "Index \<Rightarrow> bool" where
  "index_inv idx \<longleftrightarrow> length (x_byType idx) = 3 \<and> length (x_packs idx) \<le> unat maxUint32
     \<and> (\<forall>t \<in> set array_blob_types. map_inv (type_map idx t)
          \<and> (\<forall>e \<in> set (map_contents (type_map idx t)). unat (e_packIndex e) < length (x_packs idx)))"

definition type_blobs :: "Index \<Rightarrow> BlobType \<Rightarrow> PackedBlob list" where
  "type_blobs idx t = map (packed (x_packs idx) t) (map_contents (type_map idx t))"

definition index_blobs :: "Index \<Rightarrow> PackedBlob list" where
  "index_blobs idx = concat (map (type_blobs idx) array_blob_types)"

lemma array_types [simp]: "t \<in> set array_blob_types \<longleftrightarrow> t \<noteq> NumBlobTypes"
  by (cases t) (auto simp: array_blob_types_def)

lemma blob_type_num_lt: "blob_type_num t < 3 \<longleftrightarrow> t \<noteq> NumBlobTypes"
  by (cases t) (auto simp: blob_type_num_def)

lemma blob_type_num_inj [simp]: "blob_type_num t = blob_type_num t' \<longleftrightarrow> t = t'"
  by (cases t; cases t') (auto simp: blob_type_num_def)

lemma index_invD:
  assumes "index_inv idx" "t \<noteq> NumBlobTypes"
  shows "byType idx t = Inr (type_map idx t)" "map_inv (type_map idx t)"
    "\<And>e. e \<in> set (map_contents (type_map idx t)) \<Longrightarrow> unat (e_packIndex e) < length (x_packs idx)"
  using assms blob_type_num_lt [of t] by (auto simp: index_inv_def byType_def type_map_def)

lemma type_blobs_type: "pb \<in> set (type_blobs idx t) \<Longrightarrow> pb_Type pb = t"
  by (auto simp: type_blobs_def)

lemma filter_index_blobs:
  "t \<noteq> NumBlobTypes \<Longrightarrow> filter (\<lambda>pb. pb_Type pb = t) (index_blobs idx) = type_blobs idx t"
proof -
  have "filter (\<lambda>pb. pb_Type pb = t) (type_blobs idx t') = (if t' = t then type_blobs idx t' else [])" for t'
    using type_blobs_type [of _ idx t'] by (auto simp: filter_id_conv filter_empty_conv)
  then show "t \<noteq> NumBlobTypes \<Longrightarrow> ?thesis"
    by (cases t) (simp_all add: index_blobs_def array_blob_types_def filter_concat)
qed

lemma set_index_blobs: "set (index_blobs idx) = (\<Union>t \<in> set array_blob_types. set (type_blobs idx t))"
  by (simp add: index_blobs_def)

lemma mapM_toPackedBlob:
  assumes "\<And>e. e \<in> set es \<Longrightarrow> unat (e_packIndex (payload e)) < length (x_packs idx)"
  shows "mapM (toPackedBlob idx t) es = Inr (map (packed (x_packs idx) t) (map payload es))"
proof -
  have "mapM (toPackedBlob idx t) es = Inr (map (packed (x_packs idx) t) es)"
    using assms by (intro mapM_Inr toPackedBlob_packed) (simp add: payload_def)
  then show ?thesis by (simp add: o_def)
qed

section \<open>Queries\<close>

lemma type_values_blobs:
  assumes "index_inv idx" "t \<noteq> NumBlobTypes"
  shows "type_values idx t = Inr (type_blobs idx t)"
proof -
  obtain es where es: "indexMap_values (type_map idx t) = Inr es" "map payload es = map_contents (type_map idx t)"
    using im.all [OF index_invD(2) [OF assms]] by blast
  have "unat (e_packIndex (payload e)) < length (x_packs idx)" if "e \<in> set es" for e
    using that index_invD(3) [OF assms, of "payload e"] by (simp add: es(2) [symmetric])
  then show ?thesis
    using mapM_toPackedBlob [of es idx t] es by (simp add: type_values_def index_invD(1) [OF assms] type_blobs_def)
qed

lemma Values_blobs:
  assumes "index_inv idx"
  shows "Values idx = Inr (index_blobs idx)"
proof -
  have "mapM (type_values idx) array_blob_types = Inr (map (type_blobs idx) array_blob_types)"
    by (rule mapM_Inr) (simp add: type_values_blobs [OF assms])
  then show ?thesis by (simp add: Values_def index_blobs_def)
qed

lemma Lookup_blobs:
  assumes "index_inv idx" "bh_Type bh \<noteq> NumBlobTypes"
  shows "Lookup idx bh pbs = Inr (pbs @ rev (filter (\<lambda>pb. pb_Handle pb = bh) (index_blobs idx)))"
proof -
  let ?t = "bh_Type bh" and ?m = "type_map idx (bh_Type bh)"
  obtain es where es: "valuesWithID ?m (bh_ID bh) = Inr es"
    "map payload es = rev (filter (\<lambda>e. e_id e = bh_ID bh) (map_contents ?m))"
    using im.lookup [OF index_invD(2) [OF assms]] by blast
  have "unat (e_packIndex (payload e)) < length (x_packs idx)" if "e \<in> set es" for e
  proof -
    have "payload e \<in> set (map payload es)" using that by simp
    then have "payload e \<in> set (map_contents ?m)" by (simp add: es(2))
    then show ?thesis by (rule index_invD(3) [OF assms])
  qed
  then have "Lookup idx bh pbs = Inr (pbs @ map (packed (x_packs idx) ?t) (map payload es))"
    using mapM_toPackedBlob [of es idx ?t] es(1) by (simp add: Lookup_def index_invD(1) [OF assms])
  also have "map (packed (x_packs idx) ?t) (map payload es) = rev (filter (\<lambda>pb. pb_ID pb = bh_ID bh) (type_blobs idx ?t))"
    unfolding es(2) by (simp add: type_blobs_def rev_map [symmetric] filter_map o_def)
  also have "filter (\<lambda>pb. pb_ID pb = bh_ID bh) (type_blobs idx ?t) = filter (\<lambda>pb. pb_Handle pb = bh) (index_blobs idx)"
    unfolding filter_index_blobs [OF assms(2), symmetric] filter_filter by (rule filter_cong) auto
  finally show ?thesis .
qed

lemma get_spec:
  assumes "index_inv idx" "bh_Type bh \<noteq> NumBlobTypes"
  obtains r where "indexMap_get (type_map idx (bh_Type bh)) (bh_ID bh) = Inr r"
    "map_option (packed (x_packs idx) (bh_Type bh)) r = find (\<lambda>pb. pb_Handle pb = bh) (rev (index_blobs idx))"
proof -
  let ?t = "bh_Type bh" and ?m = "type_map idx (bh_Type bh)"
  obtain r where r: "indexMap_get ?m (bh_ID bh) = Inr r"
    "map_option payload r = find (\<lambda>e. e_id e = bh_ID bh) (rev (map_contents ?m))"
    using im.get [OF index_invD(2) [OF assms]] by blast
  have "map_option (packed (x_packs idx) ?t) r = map_option (packed (x_packs idx) ?t) (map_option payload r)"
    by (cases r) simp_all
  also have "\<dots> = find (\<lambda>pb. pb_ID pb = bh_ID bh) (rev (type_blobs idx ?t))"
    unfolding r(2) by (simp add: type_blobs_def rev_map find_filter filter_map o_def split: list.splits)
  also have "\<dots> = find (\<lambda>pb. pb_Handle pb = bh) (rev (index_blobs idx))"
  proof -
    have "filter (\<lambda>pb. pb_ID pb = bh_ID bh) (type_blobs idx ?t) = filter (\<lambda>pb. pb_Handle pb = bh) (index_blobs idx)"
      unfolding filter_index_blobs [OF assms(2), symmetric] filter_filter by (rule filter_cong) auto
    then show ?thesis by (simp add: find_filter rev_filter [symmetric])
  qed
  finally show thesis using that r(1) by blast
qed

lemma Has_blobs:
  assumes "index_inv idx" "bh_Type bh \<noteq> NumBlobTypes"
  shows "Has idx bh = Inr (bh \<in> pb_Handle ` set (index_blobs idx))"
proof -
  obtain r where r: "indexMap_get (type_map idx (bh_Type bh)) (bh_ID bh) = Inr r"
    "map_option (packed (x_packs idx) (bh_Type bh)) r = find (\<lambda>pb. pb_Handle pb = bh) (rev (index_blobs idx))"
    by (rule get_spec [OF assms])
  have "r = None \<longleftrightarrow> bh \<notin> pb_Handle ` set (index_blobs idx)"
    using arg_cong [OF r(2), of "\<lambda>x. x = None"] by (auto simp: find_None_iff)
  then show ?thesis using r(1) by (auto simp: Has_def index_invD(1) [OF assms])
qed

text \<open>The size a lookup reports is that of the blob's latest entry.\<close>

lemma uint_word: "uint (w :: u32) = sint (ucast w :: u64)"
proof -
  have "unat (ucast w :: u64) = unat w" using unat_lt2p [of w] by (simp add: unsigned_ucast_eq take_bit_nat_eq_self)
  moreover have "unat w < 2 ^ 63" using unat_lt2p [of w] by simp
  ultimately show ?thesis using sint_small [of "ucast w"] by simp
qed

lemma ucast_u32_0: "(ucast (w :: u32) :: u64) = 0 \<longleftrightarrow> w = 0"
proof -
  have "unat (ucast w :: u64) = unat w" using unat_lt2p [of w] by (simp add: unsigned_ucast_eq take_bit_nat_eq_self)
  then show ?thesis by (metis unat_eq_zero)
qed

lemma lookupSize_blobs:
  assumes "index_inv idx" "bh_Type bh \<noteq> NumBlobTypes"
  shows "lookupSize idx bh = Inr (case find (\<lambda>pb. pb_Handle pb = bh) (rev (index_blobs idx)) of
     None \<Rightarrow> (0, False) | Some pb \<Rightarrow> (DataLength (pb_Blob pb), True))"
proof -
  obtain r where r: "indexMap_get (type_map idx (bh_Type bh)) (bh_ID bh) = Inr r"
    "map_option (packed (x_packs idx) (bh_Type bh)) r = find (\<lambda>pb. pb_Handle pb = bh) (rev (index_blobs idx))"
    by (rule get_spec [OF assms])
  show ?thesis
    unfolding r(2) [symmetric] using r(1)
    by (cases r) (simp_all add: lookupSize_def index_invD(1) [OF assms] DataLength_def packed_def uint_word ucast_u32_0)
qed

section \<open>Storing\<close>

definition u32_blob :: "Blob \<Rightarrow> bool" where
  "u32_blob b \<longleftrightarrow> b_Offset b \<le> maxUint32 \<and> b_Length b \<le> maxUint32 \<and> b_UncompressedLength b \<le> maxUint32
     \<and> bh_Type (b_Handle b) \<noteq> NumBlobTypes"

text \<open>\<open>index_room idx n\<close>: the hash table of no type runs out of positions within the next \<open>n\<close> entries.\<close>

definition index_room :: "Index \<Rightarrow> nat \<Rightarrow> bool" where
  "index_room idx n \<longleftrightarrow> (\<forall>t. t \<noteq> NumBlobTypes \<longrightarrow> length (type_blobs idx t) + n \<le> 2 ^ 36 - 1)"

text \<open>\<open>stored idx bs idx'\<close>: \<open>idx'\<close> is \<open>idx\<close> with the entries \<open>bs\<close> added, and nothing else changed.\<close>

definition stored :: "Index \<Rightarrow> PackedBlob list \<Rightarrow> Index \<Rightarrow> bool" where
  "stored idx bs idx' \<longleftrightarrow> index_inv idx' \<and> (\<exists>ms. idx' = idx\<lparr>x_byType := ms\<rparr>)
     \<and> (\<forall>t. t \<noteq> NumBlobTypes \<longrightarrow> type_blobs idx' t = type_blobs idx t @ filter (\<lambda>pb. pb_Type pb = t) bs)"

lemma storedD:
  assumes "stored idx bs idx'"
  shows "index_inv idx'" "x_packs idx' = x_packs idx" "x_final idx' = x_final idx" "x_ids idx' = x_ids idx"
    "x_created idx' = x_created idx" "x_workingReleases idx' = x_workingReleases idx"
    "x_workingRetained idx' = x_workingRetained idx"
    "\<And>t. t \<noteq> NumBlobTypes \<Longrightarrow> type_blobs idx' t = type_blobs idx t @ filter (\<lambda>pb. pb_Type pb = t) bs"
  using assms by (auto simp: stored_def)

lemma stored_refl: "index_inv idx \<Longrightarrow> stored idx [] idx"
  unfolding stored_def by (auto intro!: exI [of _ "x_byType idx"])

lemma stored_trans: "stored idx bs idx1 \<Longrightarrow> stored idx1 cs idx2 \<Longrightarrow> stored idx (bs @ cs) idx2"
  unfolding stored_def by auto

lemma u32_of_u64: "w \<le> maxUint32 \<Longrightarrow> ucast (ucast (w :: u64) :: u32) = w"
  by (rule ucast_ucast_u32) (simp add: word_le_nat_alt maxUint32_def)

lemma set_byType_map:
  assumes "length (x_byType idx) = 3" "t \<noteq> NumBlobTypes"
  shows "type_map (set_byType idx t m) t' = (if t' = t then m else type_map idx t')"
  using assms blob_type_num_lt [of t] by (auto simp: type_map_def set_byType_def nth_list_update)

text \<open>\<open>map_blobs packs t m\<close>: the entries of one hash table with their packs resolved.\<close>

definition map_blobs :: "ID list \<Rightarrow> BlobType \<Rightarrow> indexMap \<Rightarrow> PackedBlob list" where
  "map_blobs packs t m = map (packed packs t) (map_contents m)"

definition packs_cover :: "ID list \<Rightarrow> indexMap \<Rightarrow> bool" where
  "packs_cover packs m \<longleftrightarrow> (\<forall>e \<in> set (map_contents m). unat (e_packIndex e) < length packs)"

lemma length_map_blobs [simp]: "length (map_blobs packs t m) = length (map_contents m)"
  by (simp add: map_blobs_def)

lemma set_byType_inv:
  assumes "index_inv idx" "t \<noteq> NumBlobTypes" "map_inv m" "packs_cover (x_packs idx) m"
  shows "index_inv (set_byType idx t m)"
    "type_blobs (set_byType idx t m) t' = (if t' = t then map_blobs (x_packs idx) t m else type_blobs idx t')"
proof -
  have l3: "length (x_byType idx) = 3" using assms(1) by (simp add: index_inv_def)
  note tm = set_byType_map [OF l3 assms(2), of m]
  have f: "x_packs (set_byType idx t m) = x_packs idx" "length (x_byType (set_byType idx t m)) = 3"
    using l3 by (simp_all add: set_byType_def)
  show "index_inv (set_byType idx t m)"
    using assms by (simp add: index_inv_def tm f packs_cover_def)
  show "type_blobs (set_byType idx t m) t' = (if t' = t then map_blobs (x_packs idx) t m else type_blobs idx t')"
    by (simp add: type_blobs_def map_blobs_def tm f)
qed

lemma index_store_stored:
  assumes "index_inv idx" "u32_blob b" "unat p < length (x_packs idx)" "index_room idx 1"
  shows "\<exists>idx'. index_store idx p b = Inr idx' \<and> stored idx [\<lparr>pb_Pack = x_packs idx ! unat p, pb_Blob = b\<rparr>] idx'"
proof -
  let ?t = "bh_Type (b_Handle b)"
  have t: "?t \<noteq> NumBlobTypes" using assms(2) by (simp add: u32_blob_def)
  have room: "length (map_contents (type_map idx ?t)) < 2 ^ 36 - 1"
    using assms(4) [unfolded index_room_def, rule_format, OF t] by (simp add: type_blobs_def)
  from im.add [OF index_invD(2) [OF assms(1) t] room] obtain m where
    m: "indexMap_add (type_map idx ?t) (bh_ID (b_Handle b)) p (ucast (b_Offset b)) (ucast (b_Length b))
          (ucast (b_UncompressedLength b)) = Inr m" "map_inv m"
      "map_contents m = map_contents (type_map idx ?t) @ [new_payload (bh_ID (b_Handle b)) p (ucast (b_Offset b))
          (ucast (b_Length b)) (ucast (b_UncompressedLength b))]" by blast
  let ?i = "set_byType idx ?t m"
  have cov: "packs_cover (x_packs idx) m"
    using index_invD(3) [OF assms(1) t] assms(3) m(3) by (auto simp: packs_cover_def new_payload_def)
  note si = set_byType_inv [OF assms(1) t m(2) cov]
  have "index_store idx p b = Inr ?i"
    using assms(2) m(1) by (simp add: index_store_def u32_blob_def index_invD(1) [OF assms(1) t] not_less Let_def)
  moreover have "packed (x_packs idx) ?t (new_payload (bh_ID (b_Handle b)) p (ucast (b_Offset b))
      (ucast (b_Length b)) (ucast (b_UncompressedLength b))) = \<lparr>pb_Pack = x_packs idx ! unat p, pb_Blob = b\<rparr>"
    using assms(2) by (simp add: packed_def new_payload_def u32_blob_def u32_of_u64)
  then have "type_blobs ?i t' = type_blobs idx t' @ filter (\<lambda>pb. pb_Type pb = t') [\<lparr>pb_Pack = x_packs idx ! unat p, pb_Blob = b\<rparr>]" for t'
    unfolding si(2) using m(3) by (auto simp: type_blobs_def map_blobs_def pb_Handle_def)
  moreover have "\<exists>ms. ?i = idx\<lparr>x_byType := ms\<rparr>" by (auto simp: set_byType_def)
  ultimately show ?thesis using si(1) unfolding stored_def by blast
qed

lemma index_room_stored:
  assumes "stored idx bs idx'" "index_room idx (length bs + n)"
  shows "index_room idx' n"
  unfolding index_room_def
proof (intro allI impI)
  fix t
  assume t: "t \<noteq> NumBlobTypes"
  have "length (filter (\<lambda>pb. pb_Type pb = t) bs) \<le> length bs" by (rule length_filter_le)
  moreover have "length (type_blobs idx' t) = length (type_blobs idx t) + length (filter (\<lambda>pb. pb_Type pb = t) bs)"
    using storedD(8) [OF assms(1) t] by simp
  ultimately show "length (type_blobs idx' t) + n \<le> 2 ^ 36 - 1"
    using assms(2) [unfolded index_room_def, rule_format, OF t] by linarith
qed

lemma index_store_all:
  "index_inv idx \<Longrightarrow> \<forall>b \<in> set bs. u32_blob b \<Longrightarrow> unat p < length (x_packs idx) \<Longrightarrow> index_room idx (length bs) \<Longrightarrow>
   \<exists>idx'. foldM (\<lambda>idx b. index_store idx p b) idx bs = Inr idx'
     \<and> stored idx (map (\<lambda>b. \<lparr>pb_Pack = x_packs idx ! unat p, pb_Blob = b\<rparr>) bs) idx'"
proof (induction bs arbitrary: idx)
  case Nil
  then show ?case by (simp add: stored_refl)
next
  case (Cons b bs)
  have "index_room idx 1" using Cons.prems(4) by (auto simp: index_room_def)
  then obtain i1 where i1: "index_store idx p b = Inr i1"
    "stored idx [\<lparr>pb_Pack = x_packs idx ! unat p, pb_Blob = b\<rparr>] i1"
    using index_store_stored Cons.prems by (metis list.set_intros(1))
  have "index_room i1 (length bs)" using index_room_stored [OF i1(2)] Cons.prems(4) by simp
  then obtain i2 where "foldM (\<lambda>idx b. index_store idx p b) i1 bs = Inr i2"
    "stored i1 (map (\<lambda>b. \<lparr>pb_Pack = x_packs i1 ! unat p, pb_Blob = b\<rparr>) bs) i2"
    using Cons.IH [of i1] Cons.prems storedD(1,2) [OF i1(2)] by auto
  then show ?case using i1 stored_trans [OF i1(2)] storedD(2) [OF i1(2)] by auto
qed

lemma append_packs_blobs:
  assumes "index_inv idx" "length (x_packs idx @ ps) \<le> unat maxUint32"
  shows "index_inv (idx\<lparr>x_packs := x_packs idx @ ps\<rparr>)"
    "t \<noteq> NumBlobTypes \<Longrightarrow> type_blobs (idx\<lparr>x_packs := x_packs idx @ ps\<rparr>) t = type_blobs idx t"
proof -
  let ?i = "idx\<lparr>x_packs := x_packs idx @ ps\<rparr>"
  have tm: "type_map ?i = type_map idx" by (simp add: type_map_def fun_eq_iff)
  show "index_inv ?i" using assms by (fastforce simp: index_inv_def tm)
  have "packed (x_packs idx @ ps) t e = packed (x_packs idx) t e" if "unat (e_packIndex e) < length (x_packs idx)" for e
    using that by (simp add: packed_def nth_append)
  then show "t \<noteq> NumBlobTypes \<Longrightarrow> type_blobs ?i t = type_blobs idx t"
    using index_invD(3) [OF assms(1)] by (simp add: type_blobs_def tm)
qed

lemma addToPacks_ok:
  assumes "index_inv idx" "length (x_packs idx) < unat maxUint32"
  shows "\<exists>p. addToPacks idx i = Inr (idx\<lparr>x_packs := x_packs idx @ [i]\<rparr>, p) \<and> unat p = length (x_packs idx)"
  using assms(2) by (simp add: addToPacks_def Let_def unat_of_nat maxUint32_def)

text \<open>Adding a pack, which \<^verbatim>\<open>StorePack\<close> and \<^verbatim>\<open>DecodeIndex\<close> share.\<close>

lemma store_pack_ok:
  assumes "index_inv idx" "length (x_packs idx) < unat maxUint32" "\<forall>b \<in> set bs. u32_blob b" "index_room idx (length bs)"
  shows "\<exists>idx'. rbind (addToPacks idx i) (\<lambda>(idx, p). foldM (\<lambda>idx b. index_store idx p b) idx bs) = Inr idx'
     \<and> stored (idx\<lparr>x_packs := x_packs idx @ [i]\<rparr>) (map (\<lambda>b. \<lparr>pb_Pack = i, pb_Blob = b\<rparr>) bs) idx'
     \<and> (\<forall>t. t \<noteq> NumBlobTypes \<longrightarrow> type_blobs idx' t = type_blobs idx t
          @ filter (\<lambda>pb. pb_Type pb = t) (map (\<lambda>b. \<lparr>pb_Pack = i, pb_Blob = b\<rparr>) bs))"
proof -
  let ?i = "idx\<lparr>x_packs := x_packs idx @ [i]\<rparr>"
  obtain p where a: "addToPacks idx i = Inr (?i, p)" "unat p = length (x_packs idx)"
    using addToPacks_ok [OF assms(1,2)] by blast
  have "length (x_packs idx @ [i]) \<le> unat maxUint32" using assms(2) by simp
  note b = append_packs_blobs [OF assms(1) this]
  have "index_room ?i (length bs)" using assms(4) b(2) by (simp add: index_room_def)
  from index_store_all [OF b(1) assms(3) _ this, of p] a(2) obtain idx' where
    "foldM (\<lambda>idx b. index_store idx p b) ?i bs = Inr idx'" "stored ?i (map (\<lambda>b. \<lparr>pb_Pack = i, pb_Blob = b\<rparr>) bs) idx'"
    by auto
  then show ?thesis using a(1) b(2) storedD(8) by simp
qed

lemma NewIndex_fields [simp]: "x_packs (NewIndex mh now) = []" "x_ids (NewIndex mh now) = []"
    "\<not> x_final (NewIndex mh now)" "x_created (NewIndex mh now) = now"
  by (simp_all add: NewIndex_def)

lemma NewIndex_inv: "index_inv (NewIndex mh now)" "t \<noteq> NumBlobTypes \<Longrightarrow> type_blobs (NewIndex mh now) t = []"
proof -
  have tm: "type_map (NewIndex mh now) t = zeroMap (mh t)" if "t \<noteq> NumBlobTypes" for t
    using that by (cases t) (simp_all add: type_map_def NewIndex_def array_blob_types_def blob_type_num_def)
  show "index_inv (NewIndex mh now)"
    by (simp add: index_inv_def tm zeroMap_inv) (simp add: NewIndex_def array_blob_types_def)
  show "t \<noteq> NumBlobTypes \<Longrightarrow> type_blobs (NewIndex mh now) t = []"
    by (simp add: type_blobs_def tm zeroMap_inv)
qed

section \<open>Merging\<close>

definition add_missing :: "'a list \<Rightarrow> 'a list \<Rightarrow> 'a list" where
  "add_missing xs ys = foldl (\<lambda>acc y. if y \<in> set acc then acc else acc @ [y]) xs ys"

lemma set_add_missing [simp]: "set (add_missing xs ys) = set xs \<union> set ys"
  unfolding add_missing_def by (induction ys arbitrary: xs) auto

lemma distinct_add_missing [simp]: "distinct xs \<Longrightarrow> distinct (add_missing xs ys)"
  unfolding add_missing_def by (induction ys arbitrary: xs) auto

lemma length_add_missing: "length (add_missing xs ys) \<le> length xs + length ys"
  unfolding add_missing_def
proof (induction ys arbitrary: xs)
  case (Cons y ys)
  show ?case using Cons [of "if y \<in> set xs then xs else xs @ [y]"] by auto
qed simp

lemma foldM_found:
  assumes "\<And>e. e \<in> set es \<Longrightarrow> P e = Inr (Q e)"
  shows "foldM (\<lambda>found e. if found then Inr True else P e) b es = Inr (b \<or> (\<exists>e \<in> set es. Q e))"
  using assms by (induction es arbitrary: b) auto

lemma hasIdenticalEntry_blobs:
  assumes "map_inv m" "packs_cover (x_packs idx) m" "unat (e_packIndex e2) < length (x_packs idx2)"
  shows "hasIdenticalEntry idx idx2 t m e2 = Inr (packed (x_packs idx2) t e2 \<in> set (map_blobs (x_packs idx) t m))"
proof -
  obtain es where es: "valuesWithID m (e_id e2) = Inr es"
    "map payload es = rev (filter (\<lambda>e. e_id e = e_id e2) (map_contents m))"
    using im.lookup [OF assms(1)] by blast
  let ?P = "\<lambda>e. rbind (toPackedBlob idx t e) (\<lambda>b. rbind (toPackedBlob idx2 t e2) (\<lambda>b2. Inr (b = b2)))"
  have "?P e = Inr (packed (x_packs idx) t e = packed (x_packs idx2) t e2)" if "e \<in> set es" for e
  proof -
    have "payload e \<in> set (map payload es)" using that by simp
    then have "payload e \<in> set (map_contents m)" unfolding es(2) by simp
    then have "unat (e_packIndex (payload e)) < length (x_packs idx)" using assms(2) by (simp add: packs_cover_def)
    then show ?thesis using assms(3) by (simp add: toPackedBlob_packed payload_def)
  qed
  then have "hasIdenticalEntry idx idx2 t m e2 = Inr (\<exists>e \<in> set es. packed (x_packs idx) t e = packed (x_packs idx2) t e2)"
    using foldM_found [of es ?P _ False] es(1) by (simp add: hasIdenticalEntry_def)
  also have "(\<exists>e \<in> set es. packed (x_packs idx) t e = packed (x_packs idx2) t e2) \<longleftrightarrow>
      packed (x_packs idx2) t e2 \<in> packed (x_packs idx) t ` set (map payload es)" by (force simp: image_iff)
  also have "\<dots> \<longleftrightarrow> packed (x_packs idx2) t e2 \<in> set (map_blobs (x_packs idx) t m)"
    unfolding es(2) by (auto simp: map_blobs_def image_iff) (metis packed_simps(2))
  finally show ?thesis .
qed

text \<open>One entry of the other index, with its pack position shifted past the first index's packs.\<close>

lemma merge_entry_blobs:
  assumes "map_inv m" "packs_cover packs m" "x_packs idx = packs" "packs = pre @ x_packs idx2"
    "unat (e_packIndex e2) < length (x_packs idx2)" "length packs \<le> unat maxUint32" "length (map_contents m) < 2 ^ 36 - 1"
  shows "\<exists>m'. merge_entry idx idx2 (length pre) t m e2 = Inr m' \<and> map_inv m' \<and> packs_cover packs m'
     \<and> map_blobs packs t m' = add_missing (map_blobs packs t m) [packed (x_packs idx2) t e2]"
proof (cases "packed (x_packs idx2) t e2 \<in> set (map_blobs packs t m)")
  case True
  then show ?thesis
    using assms hasIdenticalEntry_blobs [of m idx e2 idx2 t] by (simp add: merge_entry_def add_missing_def)
next
  case False
  let ?p = "e_packIndex e2 + of_nat (length pre)"
  have "unat (e_packIndex e2) + length pre < 2 ^ 32" using assms(4-6) by (simp add: maxUint32_def)
  then have p: "unat ?p = unat (e_packIndex e2) + length pre"
    by (simp add: unat_word_ariths unat_of_nat)
  from im.add [OF assms(1,7)] obtain m' where
    m': "indexMap_add m (e_id e2) ?p (e_offset e2) (e_length e2) (e_uncompressedLength e2) = Inr m'" "map_inv m'"
      "map_contents m' = map_contents m @ [new_payload (e_id e2) ?p (e_offset e2) (e_length e2) (e_uncompressedLength e2)]"
    by blast
  have "merge_entry idx idx2 (length pre) t m e2 = Inr m'"
    using False assms m'(1) hasIdenticalEntry_blobs [of m idx e2 idx2 t] by (simp add: merge_entry_def)
  moreover have "packs_cover packs m'"
    using assms(2,4,5) m'(3) p by (auto simp: packs_cover_def new_payload_def)
  moreover have "packed packs t (new_payload (e_id e2) ?p (e_offset e2) (e_length e2) (e_uncompressedLength e2))
      = packed (x_packs idx2) t e2"
    using assms(4) p by (simp add: packed_def new_payload_def nth_append)
  then have "map_blobs packs t m' = add_missing (map_blobs packs t m) [packed (x_packs idx2) t e2]"
    using False m'(3) by (simp add: map_blobs_def add_missing_def)
  ultimately show ?thesis using m'(2) by blast
qed

lemma merge_entries_blobs:
  assumes "x_packs idx = packs" "packs = pre @ x_packs idx2" "length packs \<le> unat maxUint32"
  shows "map_inv m \<Longrightarrow> packs_cover packs m \<Longrightarrow> \<forall>e \<in> set es. unat (e_packIndex e) < length (x_packs idx2) \<Longrightarrow>
    length (map_contents m) + length es \<le> 2 ^ 36 - 1 \<Longrightarrow>
    \<exists>m'. foldM (merge_entry idx idx2 (length pre) t) m es = Inr m' \<and> map_inv m' \<and> packs_cover packs m'
     \<and> map_blobs packs t m' = add_missing (map_blobs packs t m) (map (packed (x_packs idx2) t) es)"
proof (induction es arbitrary: m)
  case Nil
  then show ?case by (simp add: add_missing_def)
next
  case (Cons e es)
  have "unat (e_packIndex e) < length (x_packs idx2)" "length (map_contents m) < 2 ^ 36 - 1" using Cons.prems by auto
  from merge_entry_blobs [OF Cons.prems(1,2) assms(1,2) this(1) assms(3) this(2)] obtain m1 where
    m1: "merge_entry idx idx2 (length pre) t m e = Inr m1" "map_inv m1" "packs_cover packs m1"
      "map_blobs packs t m1 = add_missing (map_blobs packs t m) [packed (x_packs idx2) t e]" by blast
  have "length (map_contents m1) \<le> length (map_contents m) + 1"
    using arg_cong [OF m1(4), of length] length_add_missing [of "map_blobs packs t m" "[packed (x_packs idx2) t e]"] by simp
  then obtain m2 where "foldM (merge_entry idx idx2 (length pre) t) m1 es = Inr m2 \<and> map_inv m2 \<and> packs_cover packs m2
     \<and> map_blobs packs t m2 = add_missing (map_blobs packs t m1) (map (packed (x_packs idx2) t) es)"
    using Cons.IH [OF m1(2,3)] Cons.prems(3,4) by auto
  then show ?case using m1 by (simp add: add_missing_def)
qed

lemma merge_type_blobs:
  assumes "index_inv idx" "index_inv idx2" "x_packs idx = pre @ x_packs idx2" "t \<noteq> NumBlobTypes"
    "length (type_blobs idx t) + length (type_blobs idx2 t) \<le> 2 ^ 36 - 1"
  shows "\<exists>idx' ms. merge_type idx2 (length pre) idx t = Inr idx' \<and> index_inv idx' \<and> idx' = idx\<lparr>x_byType := ms\<rparr>
    \<and> (\<forall>t'. type_blobs idx' t' = (if t' = t then add_missing (type_blobs idx t) (type_blobs idx2 t) else type_blobs idx t'))"
proof -
  let ?m = "type_map idx t" and ?m2 = "type_map idx2 t"
  obtain es where es: "indexMap_values ?m2 = Inr es" "map payload es = map_contents ?m2"
    using im.all [OF index_invD(2) [OF assms(2,4)]] by blast
  have p: "\<forall>e \<in> set es. unat (e_packIndex e) < length (x_packs idx2)"
  proof
    fix e assume "e \<in> set es"
    then have "payload e \<in> set (map_contents ?m2)" unfolding es(2) [symmetric] by simp
    then show "unat (e_packIndex e) < length (x_packs idx2)"
      using index_invD(3) [OF assms(2,4)] by (fastforce simp: payload_def)
  qed
  have cov: "packs_cover (x_packs idx) ?m" using index_invD(3) [OF assms(1,4)] by (simp add: packs_cover_def)
  have len: "length (map_contents ?m) + length es \<le> 2 ^ 36 - 1"
    using assms(5) arg_cong [OF es(2), of length] by (simp add: type_blobs_def)
  have pk: "length (x_packs idx) \<le> unat maxUint32" using assms(1) by (simp add: index_inv_def)
  from merge_entries_blobs [OF refl assms(3) pk index_invD(2) [OF assms(1,4)] cov p len, of t] obtain m' where
    m': "foldM (merge_entry idx idx2 (length pre) t) ?m es = Inr m'" "map_inv m'" "packs_cover (x_packs idx) m'"
      "map_blobs (x_packs idx) t m' = add_missing (map_blobs (x_packs idx) t ?m) (map (packed (x_packs idx2) t) es)"
    by blast
  have "map (packed (x_packs idx2) t) es = type_blobs idx2 t"
    unfolding type_blobs_def es(2) [symmetric] by (simp add: o_def)
  then have mb: "map_blobs (x_packs idx) t m' = add_missing (type_blobs idx t) (type_blobs idx2 t)"
    using m'(4) by (simp add: map_blobs_def type_blobs_def)
  have "merge_type idx2 (length pre) idx t = Inr (set_byType idx t m')"
    using m'(1) es(1) by (simp add: merge_type_def index_invD(1) [OF assms(1,4)] index_invD(1) [OF assms(2,4)])
  then show ?thesis
    using set_byType_inv [OF assms(1,4) m'(2,3)] mb
    by (intro exI [of _ "set_byType idx t m'"] exI [of _ "(x_byType idx)[blob_type_num t := m']"])
       (auto simp: set_byType_def)
qed

lemma merge_types_blobs:
  assumes "index_inv idx2"
  shows "index_inv idx \<Longrightarrow> x_packs idx = pre @ x_packs idx2 \<Longrightarrow> distinct ts \<Longrightarrow> NumBlobTypes \<notin> set ts \<Longrightarrow>
    \<forall>t \<in> set ts. length (type_blobs idx t) + length (type_blobs idx2 t) \<le> 2 ^ 36 - 1 \<Longrightarrow>
    \<exists>idx' ms. foldM (merge_type idx2 (length pre)) idx ts = Inr idx' \<and> index_inv idx' \<and> idx' = idx\<lparr>x_byType := ms\<rparr>
      \<and> (\<forall>t. type_blobs idx' t = (if t \<in> set ts then add_missing (type_blobs idx t) (type_blobs idx2 t) else type_blobs idx t))"
proof (induction ts arbitrary: idx)
  case Nil
  then show ?case by (auto intro!: exI [of _ "x_byType idx"])
next
  case (Cons t ts)
  have t: "t \<noteq> NumBlobTypes" "length (type_blobs idx t) + length (type_blobs idx2 t) \<le> 2 ^ 36 - 1"
    using Cons.prems by auto
  from merge_type_blobs [OF Cons.prems(1) assms Cons.prems(2) t] obtain i1 ms where
    i1: "merge_type idx2 (length pre) idx t = Inr i1" "index_inv i1" "i1 = idx\<lparr>x_byType := ms\<rparr>"
      "\<forall>t'. type_blobs i1 t' = (if t' = t then add_missing (type_blobs idx t) (type_blobs idx2 t) else type_blobs idx t')"
    by blast
  have "\<forall>t' \<in> set ts. length (type_blobs i1 t') + length (type_blobs idx2 t') \<le> 2 ^ 36 - 1"
    using Cons.prems(3,5) i1(4) by auto
  then obtain i2 ms2 where "foldM (merge_type idx2 (length pre)) i1 ts = Inr i2" "index_inv i2"
      "i2 = i1\<lparr>x_byType := ms2\<rparr>"
      "\<forall>t. type_blobs i2 t = (if t \<in> set ts then add_missing (type_blobs i1 t) (type_blobs idx2 t) else type_blobs i1 t)"
    using Cons.IH [OF i1(2)] Cons.prems(2-4) i1(3) by auto
  then show ?case using i1 Cons.prems(3) by (intro exI [of _ i2] exI [of _ ms2]) auto
qed

lemma type_blobs_fields [simp]:
  "type_blobs (idx\<lparr>x_final := b\<rparr>) t = type_blobs idx t" "type_blobs (idx\<lparr>x_ids := is\<rparr>) t = type_blobs idx t"
  "type_blobs (idx\<lparr>x_workingReleases := rs\<rparr>) t = type_blobs idx t"
  "type_blobs (idx\<lparr>x_workingRetained := b\<rparr>) t = type_blobs idx t"
  by (simp_all add: type_blobs_def type_map_def)

lemma index_inv_fields [simp]:
  "index_inv (idx\<lparr>x_final := b\<rparr>) = index_inv idx" "index_inv (idx\<lparr>x_ids := is\<rparr>) = index_inv idx"
  "index_inv (idx\<lparr>x_workingReleases := rs\<rparr>) = index_inv idx" "index_inv (idx\<lparr>x_workingRetained := b\<rparr>) = index_inv idx"
  by (simp_all add: index_inv_def type_map_def)

lemma index_merge_blobs:
  assumes "index_inv idx" "index_inv idx2" "x_final idx2" "length (x_packs idx) + length (x_packs idx2) \<le> unat maxUint32"
    "\<forall>t. t \<noteq> NumBlobTypes \<longrightarrow> length (type_blobs idx t) + length (type_blobs idx2 t) \<le> 2 ^ 36 - 1"
  obtains idx' where "index_merge idx idx2 = Inr (idx', idx2\<lparr>x_workingReleases := []\<rparr>, None)" "index_inv idx'"
    "x_packs idx' = x_packs idx @ x_packs idx2" "x_ids idx' = x_ids idx @ x_ids idx2" "x_final idx' = x_final idx"
    "\<forall>t. t \<noteq> NumBlobTypes \<longrightarrow> type_blobs idx' t = add_missing (type_blobs idx t) (type_blobs idx2 t)"
proof -
  let ?i = "idx\<lparr>x_packs := x_packs idx @ x_packs idx2\<rparr>"
  have a: "index_inv ?i" "\<And>t. t \<noteq> NumBlobTypes \<Longrightarrow> type_blobs ?i t = type_blobs idx t"
    using append_packs_blobs [OF assms(1), of "x_packs idx2"] assms(4) by simp_all
  have "distinct array_blob_types" by (simp add: array_blob_types_def)
  then obtain i1 ms where i1: "foldM (merge_type idx2 (length (x_packs idx))) ?i array_blob_types = Inr i1" "index_inv i1"
      "i1 = ?i\<lparr>x_byType := ms\<rparr>"
      "\<forall>t. type_blobs i1 t = (if t \<in> set array_blob_types then add_missing (type_blobs ?i t) (type_blobs idx2 t) else type_blobs ?i t)"
    using merge_types_blobs [OF assms(2) a(1), of "x_packs idx" array_blob_types] assms(5) a(2) by auto
  let ?r = "i1\<lparr>x_ids := x_ids i1 @ x_ids idx2, x_workingReleases := x_workingReleases i1 @ x_workingReleases idx2,
       x_workingRetained := True\<rparr>"
  have "index_merge idx idx2 = Inr (?r, idx2\<lparr>x_workingReleases := []\<rparr>, None)"
    using assms(3,4) i1(1) by (simp add: index_merge_def Let_def)
  moreover have "\<forall>t. t \<noteq> NumBlobTypes \<longrightarrow> type_blobs ?r t = add_missing (type_blobs idx t) (type_blobs idx2 t)"
    using i1(4) a(2) by simp
  ultimately show thesis using that [of ?r] i1(2,3) by simp
qed

section \<open>Grouping by pack\<close>

lemma map_of_group_step:
  "map_of (group_step g v) = (map_of g)(pb_Pack v \<mapsto>
     (case map_of g (pb_Pack v) of None \<Rightarrow> [] | Some w \<Rightarrow> w) @ [pb_Blob v])"
  by (simp add: group_step_def update_conv')

lemma group_steps:
  "map_of (foldl group_step g vs) p = (if p \<in> dom (map_of g) \<union> pb_Pack ` set vs
     then Some ((case map_of g p of None \<Rightarrow> [] | Some v \<Rightarrow> v) @ map pb_Blob (filter (\<lambda>pb. pb_Pack pb = p) vs))
     else None)"
proof (induction vs arbitrary: g)
  case Nil
  then show ?case by (auto split: option.splits)
next
  case (Cons v vs)
  show ?case unfolding foldl.simps Cons.IH map_of_group_step by (auto split: option.splits)
qed

lemma distinct_group_steps: "distinct (map fst g) \<Longrightarrow> distinct (map fst (foldl group_step g vs))"
  by (induction vs arbitrary: g) (auto simp: group_step_def distinct_update)

lemma EachByPack_blobs:
  assumes "index_inv idx"
  obtains gs where "EachByPack idx bl = Inr gs" "distinct (map pbs_PackID gs)"
    "\<And>p. p \<in> pbs_PackID ` set gs \<longleftrightarrow> p \<in> pb_Pack ` set (index_blobs idx) \<and> (\<not> x_final idx \<or> p \<notin> bl)"
    "\<And>g. g \<in> set gs \<Longrightarrow> pbs_Blobs g = map pb_Blob (filter (\<lambda>pb. pb_Pack pb = pbs_PackID g) (index_blobs idx))"
proof -
  define vs where "vs = filter (\<lambda>pb. \<not> x_final idx \<or> pb_Pack pb \<notin> bl) (index_blobs idx)"
  define al where "al = foldl group_step [] vs"
  let ?gs = "map (\<lambda>(p, bs). \<lparr>pbs_PackID = p, pbs_Blobs = bs\<rparr>) al"
  have d: "distinct (map fst al)" unfolding al_def by (rule distinct_group_steps) simp
  have mo: "map_of al p = (if p \<in> pb_Pack ` set vs then Some (map pb_Blob (filter (\<lambda>pb. pb_Pack pb = p) vs)) else None)" for p
    by (simp add: al_def group_steps)
  have "(p, bs) \<in> set al \<longleftrightarrow> map_of al p = Some bs" for p bs using d by simp
  then have m: "(p, bs) \<in> set al \<longleftrightarrow> p \<in> pb_Pack ` set vs \<and> bs = map pb_Blob (filter (\<lambda>pb. pb_Pack pb = p) vs)" for p bs
    unfolding mo by auto
  have ids: "map pbs_PackID ?gs = map fst al" by (simp add: case_prod_unfold o_def)
  show thesis
  proof (rule that [of ?gs])
    show "EachByPack idx bl = Inr ?gs" by (simp add: EachByPack_def Values_blobs [OF assms] vs_def al_def)
    show "distinct (map pbs_PackID ?gs)" using d unfolding ids .
    have "p \<in> pbs_PackID ` set ?gs \<longleftrightarrow> p \<in> set (map fst al)" for p
      unfolding ids [symmetric] by (simp only: set_map)
    moreover have "p \<in> set (map fst al) \<longleftrightarrow> (\<exists>bs. (p, bs) \<in> set al)" for p by force
    moreover have "p \<in> pb_Pack ` set vs \<longleftrightarrow> p \<in> pb_Pack ` set (index_blobs idx) \<and> (\<not> x_final idx \<or> p \<notin> bl)" for p
      unfolding vs_def by auto
    ultimately show "p \<in> pbs_PackID ` set ?gs \<longleftrightarrow> p \<in> pb_Pack ` set (index_blobs idx) \<and> (\<not> x_final idx \<or> p \<notin> bl)" for p
      by (simp add: m)
    fix g assume "g \<in> set ?gs"
    then obtain p bs where g: "(p, bs) \<in> set al" "g = \<lparr>pbs_PackID = p, pbs_Blobs = bs\<rparr>" by auto
    then have p: "p \<in> pb_Pack ` set vs" and bs: "bs = map pb_Blob (filter (\<lambda>pb. pb_Pack pb = p) vs)"
      by (simp_all add: m)
    from p have "\<not> x_final idx \<or> p \<notin> bl" by (auto simp: vs_def)
    then have "filter (\<lambda>pb. pb_Pack pb = p) vs = filter (\<lambda>pb. pb_Pack pb = p) (index_blobs idx)"
      unfolding vs_def filter_filter by (intro filter_cong) auto
    then show "pbs_Blobs g = map pb_Blob (filter (\<lambda>pb. pb_Pack pb = pbs_PackID g) (index_blobs idx))"
      using g(2) bs by simp
  qed
qed

text \<open>The list for the JSON form: one element per pack, found through the position map.\<close>

definition pack_list_inv :: "packJSON list \<Rightarrow> (ID \<times> nat) list \<Rightarrow> PackedBlob list \<Rightarrow> bool" where
  "pack_list_inv lst packs don \<longleftrightarrow> distinct (map pj_ID lst) \<and> set (map pj_ID lst) = pb_Pack ` set don
     \<and> (\<forall>p i. map_of packs p = Some i \<longleftrightarrow> i < length lst \<and> pj_ID (lst ! i) = p)
     \<and> (\<forall>g \<in> set lst. map of_blobJSON (pj_Blobs g) = map pb_Blob (filter (\<lambda>pb. pb_Pack pb = pj_ID g) don))"

lemma pack_list_pos:
  "pack_list_inv lst packs don \<Longrightarrow> map_of packs p = Some i \<longleftrightarrow> i < length lst \<and> pj_ID (lst ! i) = p"
  unfolding pack_list_inv_def by (elim conjE allE)

lemma pack_list_ids: "pack_list_inv lst packs don \<Longrightarrow> pj_ID ` set lst = pb_Pack ` set don"
  unfolding pack_list_inv_def by simp

lemma of_to_blobJSON [simp]: "of_blobJSON (to_blobJSON pb) = pb_Blob pb"
  by (simp add: of_blobJSON_def to_blobJSON_def Let_def)

lemma pack_list_step_inv:
  assumes "pack_list_inv lst packs don" "\<not> IsNull (pb_Pack pb)"
  shows "\<exists>lst' packs'. pack_list_step (lst, packs) pb = Inr (lst', packs') \<and> pack_list_inv lst' packs' (don @ [pb])"
proof (cases "map_of packs (pb_Pack pb)")
  case (Some i)
  let ?g = "lst ! i"
  let ?l = "lst[i := ?g\<lparr>pj_Blobs := pj_Blobs ?g @ [to_blobJSON pb]\<rparr>]"
  have i: "i < length lst" "pj_ID ?g = pb_Pack pb" using assms(1) Some by (auto simp: pack_list_inv_def)
  have ids: "map pj_ID ?l = map pj_ID lst" using i by (simp add: map_update list_update_same_conv)
  have nth: "pj_ID (?l ! j) = pj_ID (lst ! j)" if "j < length lst" for j
    using that i by (simp add: nth_list_update)
  have "map of_blobJSON (pj_Blobs g) = map pb_Blob (filter (\<lambda>p. pb_Pack p = pj_ID g) (don @ [pb]))" if g: "g \<in> set ?l" for g
  proof -
    from g obtain j where j: "j < length lst" "g = ?l ! j" by (auto simp: in_set_conv_nth)
    have old: "map of_blobJSON (pj_Blobs (lst ! j)) = map pb_Blob (filter (\<lambda>p. pb_Pack p = pj_ID (lst ! j)) don)"
      using assms(1) j(1) by (simp add: pack_list_inv_def)
    show ?thesis
    proof (cases "j = i")
      case True
      then show ?thesis using old i j by simp
    next
      case False
      then have "pj_ID (lst ! j) \<noteq> pb_Pack pb"
        using i j(1) pack_list_pos [OF assms(1), of "pb_Pack pb" j] Some by auto
      then show ?thesis using False old j by auto
    qed
  qed
  then have grp: "\<forall>g \<in> set ?l. map of_blobJSON (pj_Blobs g) = map pb_Blob (filter (\<lambda>p. pb_Pack p = pj_ID g) (don @ [pb]))"
    by blast
  have "pb_Pack pb \<in> pj_ID ` set lst" using nth_mem [OF i(1)] i(2) by (metis imageI)
  then have st: "set (map pj_ID ?l) = pb_Pack ` set (don @ [pb])"
    unfolding ids using pack_list_ids [OF assms(1)] by (simp add: insert_absorb)
  have pos: "\<forall>p j. map_of packs p = Some j \<longleftrightarrow> j < length ?l \<and> pj_ID (?l ! j) = p"
    using nth pack_list_pos [OF assms(1)] by (metis length_list_update)
  have "distinct (map pj_ID ?l)" unfolding ids using assms(1) by (simp add: pack_list_inv_def)
  then have "pack_list_inv ?l packs (don @ [pb])"
    using grp st pos unfolding pack_list_inv_def by (intro conjI)
  then show ?thesis using Some assms(2) by (simp add: pack_list_step_def Let_def)
next
  case None
  let ?g = "\<lparr>pj_ID = pb_Pack pb, pj_Blobs = [to_blobJSON pb]\<rparr>"
  have npos: "pj_ID (lst ! i) \<noteq> pb_Pack pb" if "i < length lst" for i
    using pack_list_pos [OF assms(1), of "pb_Pack pb" i] None that by auto
  then have new: "pb_Pack pb \<notin> set (map pj_ID lst)" by (metis in_set_conv_nth length_map nth_map)
  then have nd: "pb_Pack pb \<notin> pb_Pack ` set don" using pack_list_ids [OF assms(1)] by simp
  have grp: "map of_blobJSON (pj_Blobs g) = map pb_Blob (filter (\<lambda>p. pb_Pack p = pj_ID g) (don @ [pb]))" if "g \<in> set (lst @ [?g])" for g
  proof (cases "g = ?g")
    case True
    have "filter (\<lambda>p. pb_Pack p = pb_Pack pb) don = []" using nd by (simp add: filter_empty_conv) (metis imageI)
    then show ?thesis using True by simp
  next
    case False
    then have g: "g \<in> set lst" using that by simp
    then have "pj_ID g \<noteq> pb_Pack pb" using new by (metis image_eqI image_set)
    then show ?thesis using g assms(1) by (auto simp: pack_list_inv_def)
  qed
  have pos: "map_of (AList.update (pb_Pack pb) (length lst) packs) p = Some i \<longleftrightarrow>
      i < length (lst @ [?g]) \<and> pj_ID ((lst @ [?g]) ! i) = p" for p i
    using npos pack_list_pos [OF assms(1), of p i]
    by (cases "i < length lst") (auto simp: update_conv' nth_append less_Suc_eq)
  have "distinct (map pj_ID (lst @ [?g]))" "set (map pj_ID (lst @ [?g])) = pb_Pack ` set (don @ [pb])"
    using assms(1) new pack_list_ids [OF assms(1)] by (simp_all add: pack_list_inv_def)
  then have "pack_list_inv (lst @ [?g]) (AList.update (pb_Pack pb) (length lst) packs) (don @ [pb])"
    using grp pos unfolding pack_list_inv_def by blast
  then show ?thesis using None assms(2) by (simp add: pack_list_step_def Let_def)
qed

lemma pack_list_steps_inv:
  "pack_list_inv lst packs don \<Longrightarrow> \<forall>pb \<in> set vs. \<not> IsNull (pb_Pack pb) \<Longrightarrow>
   \<exists>lst' packs'. foldM pack_list_step (lst, packs) vs = Inr (lst', packs') \<and> pack_list_inv lst' packs' (don @ vs)"
proof (induction vs arbitrary: lst packs don)
  case (Cons v vs)
  then obtain l1 p1 where "pack_list_step (lst, packs) v = Inr (l1, p1)" "pack_list_inv l1 p1 (don @ [v])"
    using pack_list_step_inv by (metis list.set_intros(1))
  then show ?case using Cons.IH [of l1 p1 "don @ [v]"] Cons.prems by auto
qed simp

lemma generatePackList_inv:
  assumes "index_inv idx" "\<forall>pb \<in> set (index_blobs idx). \<not> IsNull (pb_Pack pb)"
  obtains lst packs where "generatePackList idx = Inr lst" "pack_list_inv lst packs (index_blobs idx)"
proof -
  have "pack_list_inv [] [] []" by (simp add: pack_list_inv_def)
  from pack_list_steps_inv [OF this assms(2)] obtain lst packs where
    "foldM pack_list_step ([], []) (index_blobs idx) = Inr (lst, packs)" "pack_list_inv lst packs (index_blobs idx)"
    by auto
  then show thesis using that by (simp add: generatePackList_def Values_blobs [OF assms(1)])
qed

text \<open>Decoding adds the packs in order.\<close>

definition group_blobs :: "packJSON \<Rightarrow> PackedBlob list" where
  "group_blobs g = map (\<lambda>b. \<lparr>pb_Pack = pj_ID g, pb_Blob = of_blobJSON b\<rparr>) (pj_Blobs g)"

lemma decode_pack_ok:
  assumes "index_inv idx" "length (x_packs idx) < unat maxUint32" "\<forall>b \<in> set (pj_Blobs g). u32_blob (of_blobJSON b)"
    "index_room idx (length (pj_Blobs g))"
  shows "\<exists>idx'. decode_pack idx g = Inr idx' \<and> index_inv idx' \<and> x_packs idx' = x_packs idx @ [pj_ID g] \<and> x_ids idx' = x_ids idx
    \<and> (\<forall>t. t \<noteq> NumBlobTypes \<longrightarrow> type_blobs idx' t = type_blobs idx t @ filter (\<lambda>pb. pb_Type pb = t) (group_blobs g))"
proof -
  have f: "foldM (\<lambda>idx blob. index_store idx p (of_blobJSON blob)) i bs = foldM (\<lambda>idx b. index_store idx p b) i (map of_blobJSON bs)" for p i bs
    by (induction bs arbitrary: i) (simp_all add: rbind_def split: sum.split)
  have u: "\<forall>b \<in> set (map of_blobJSON (pj_Blobs g)). u32_blob b" using assms(3) by simp
  have "index_room idx (length (map of_blobJSON (pj_Blobs g)))" using assms(4) by simp
  from store_pack_ok [OF assms(1,2) u this, of "pj_ID g"] obtain idx' where
    "decode_pack idx g = Inr idx'"
    "stored (idx\<lparr>x_packs := x_packs idx @ [pj_ID g]\<rparr>) (map (\<lambda>b. \<lparr>pb_Pack = pj_ID g, pb_Blob = b\<rparr>) (map of_blobJSON (pj_Blobs g))) idx'"
    "\<forall>t. t \<noteq> NumBlobTypes \<longrightarrow> type_blobs idx' t = type_blobs idx t @ filter (\<lambda>pb. pb_Type pb = t)
       (map (\<lambda>b. \<lparr>pb_Pack = pj_ID g, pb_Blob = b\<rparr>) (map of_blobJSON (pj_Blobs g)))"
    unfolding decode_pack_def f by blast
  then show ?thesis using storedD(1,2,4) by (auto simp: group_blobs_def o_def)
qed

lemma decode_packs_ok:
  "index_inv idx \<Longrightarrow> length (x_packs idx) + length gs \<le> unat maxUint32 \<Longrightarrow>
   \<forall>g \<in> set gs. \<forall>b \<in> set (pj_Blobs g). u32_blob (of_blobJSON b) \<Longrightarrow>
   \<forall>t. t \<noteq> NumBlobTypes \<longrightarrow> length (type_blobs idx t) + length (concat (map group_blobs gs)) \<le> 2 ^ 36 - 1 \<Longrightarrow>
   \<exists>idx'. foldM decode_pack idx gs = Inr idx' \<and> index_inv idx' \<and> x_packs idx' = x_packs idx @ map pj_ID gs \<and> x_ids idx' = x_ids idx
    \<and> (\<forall>t. t \<noteq> NumBlobTypes \<longrightarrow> type_blobs idx' t = type_blobs idx t @ filter (\<lambda>pb. pb_Type pb = t) (concat (map group_blobs gs)))"
proof (induction gs arbitrary: idx)
  case (Cons g gs)
  have "length (pj_Blobs g) \<le> length (concat (map group_blobs (g # gs)))" by (simp add: group_blobs_def)
  then have "index_room idx (length (pj_Blobs g))"
    using Cons.prems(4) unfolding index_room_def by (meson add_le_mono le_trans order_refl)
  with Cons.prems decode_pack_ok [of idx g] obtain i1 where
    i1: "decode_pack idx g = Inr i1" "index_inv i1" "x_packs i1 = x_packs idx @ [pj_ID g]" "x_ids i1 = x_ids idx"
      "\<forall>t. t \<noteq> NumBlobTypes \<longrightarrow> type_blobs i1 t = type_blobs idx t @ filter (\<lambda>pb. pb_Type pb = t) (group_blobs g)"
    by auto
  have "length (type_blobs i1 t) + length (concat (map group_blobs gs)) \<le> 2 ^ 36 - 1" if "t \<noteq> NumBlobTypes" for t
    using Cons.prems(4) [rule_format, OF that] i1(5) that length_filter_le [of "\<lambda>pb. pb_Type pb = t" "group_blobs g"]
    by (simp del: length_filter_le)
  then obtain i2 where "foldM decode_pack i1 gs = Inr i2 \<and> index_inv i2 \<and> x_packs i2 = x_packs i1 @ map pj_ID gs
     \<and> x_ids i2 = x_ids i1
    \<and> (\<forall>t. t \<noteq> NumBlobTypes \<longrightarrow> type_blobs i2 t = type_blobs i1 t @ filter (\<lambda>pb. pb_Type pb = t) (concat (map group_blobs gs)))"
    using Cons.IH [OF i1(2)] Cons.prems(2,3) i1(3) by auto
  then show ?case using i1 by auto
qed simp

lemma u32_blob_packed: "t \<noteq> NumBlobTypes \<Longrightarrow> u32_blob (pb_Blob (packed packs t e))"
proof -
  have "(ucast (w :: u32) :: u64) \<le> maxUint32" for w
  proof -
    have "unat (ucast w :: u64) = unat w" using unat_lt2p [of w] by (simp add: unsigned_ucast_eq take_bit_nat_eq_self)
    then show ?thesis using unat_lt2p [of w] by (simp add: word_le_nat_alt maxUint32_def)
  qed
  then show "t \<noteq> NumBlobTypes \<Longrightarrow> ?thesis" by (simp add: u32_blob_def packed_def)
qed

lemma u32_index_blobs: "pb \<in> set (index_blobs idx) \<Longrightarrow> u32_blob (pb_Blob pb)"
proof -
  assume "pb \<in> set (index_blobs idx)"
  then obtain t where t: "t \<noteq> NumBlobTypes" "pb \<in> set (type_blobs idx t)" unfolding set_index_blobs by auto
  then obtain e where "pb = packed (x_packs idx) t e" by (auto simp: type_blobs_def)
  then show ?thesis using u32_blob_packed [OF t(1)] by simp
qed

lemma filter_group_blobs: "filter (\<lambda>pb. pb_Pack pb = p) (group_blobs g) = (if pj_ID g = p then group_blobs g else [])"
  by (cases "pj_ID g = p") (simp_all add: group_blobs_def filter_map o_def)

lemma filter_groups:
  assumes "distinct (map pj_ID gs)" "g \<in> set gs" "pj_ID g = p"
  shows "filter (\<lambda>pb. pb_Pack pb = p) (concat (map group_blobs gs)) = group_blobs g"
  using assms
proof (induction gs)
  case (Cons h gs)
  show ?case
  proof (cases "h = g")
    case True
    have "filter (\<lambda>pb. pb_Pack pb = p) (concat (map group_blobs gs)) = []"
      using Cons.prems True by (auto simp: filter_empty_conv group_blobs_def) (metis imageI)
    then show ?thesis using True Cons.prems(3) by (simp add: filter_group_blobs)
  next
    case False
    then have "pj_ID h \<noteq> p" using Cons.prems by auto
    then show ?thesis using Cons False by (simp add: filter_group_blobs)
  qed
qed simp

lemma pack_list_group:
  assumes "pack_list_inv lst packs don"
  shows "filter (\<lambda>pb. pb_Pack pb = p) (concat (map group_blobs lst)) = filter (\<lambda>pb. pb_Pack pb = p) don"
proof (cases "p \<in> pb_Pack ` set don")
  case True
  then obtain g where g: "g \<in> set lst" "pj_ID g = p" unfolding pack_list_ids [OF assms, symmetric] by blast
  then have "filter (\<lambda>pb. pb_Pack pb = p) (concat (map group_blobs lst)) = group_blobs g"
    using assms filter_groups by (auto simp: pack_list_inv_def)
  also have "\<dots> = map (\<lambda>b. \<lparr>pb_Pack = p, pb_Blob = b\<rparr>) (map of_blobJSON (pj_Blobs g))"
    using g(2) by (simp add: group_blobs_def)
  also have "\<dots> = map (\<lambda>pb. \<lparr>pb_Pack = p, pb_Blob = pb_Blob pb\<rparr>) (filter (\<lambda>pb. pb_Pack pb = p) don)"
    using assms g by (simp add: pack_list_inv_def o_def)
  also have "\<dots> = filter (\<lambda>pb. pb_Pack pb = p) don" by (rule map_idI) auto
  finally show ?thesis .
next
  case False
  then have "filter (\<lambda>pb. pb_Pack pb = p) (concat (map group_blobs lst)) = []"
    unfolding pack_list_ids [OF assms, symmetric] by (auto simp: filter_empty_conv group_blobs_def)
  moreover have "filter (\<lambda>pb. pb_Pack pb = p) don = []" using False by (simp add: filter_empty_conv) (metis imageI)
  ultimately show ?thesis by simp
qed

lemma length_groups: "pack_list_inv lst packs don \<Longrightarrow> mset (concat (map group_blobs lst)) = mset don"
proof (rule multiset_eqI)
  fix x
  assume "pack_list_inv lst packs don"
  have c: "count (mset xs) x = count (mset (filter (\<lambda>pb. pb_Pack pb = pb_Pack x) xs)) x" for xs :: "PackedBlob list"
    by (simp add: mset_filter)
  show "count (mset (concat (map group_blobs lst))) x = count (mset don) x"
    unfolding c [of "concat (map group_blobs lst)"] c [of don] pack_list_group [OF \<open>pack_list_inv lst packs don\<close>] ..
qed

lemma decode_index_ok:
  assumes "index_inv idx" "length (index_blobs idx) \<le> 2 ^ 36 - 1" "pack_list_inv lst packs (index_blobs idx)"
  shows "\<exists>idx'. foldM decode_pack (NewIndex mh now) lst = Inr idx' \<and> index_inv idx' \<and> x_ids idx' = []
    \<and> (\<forall>t. t \<noteq> NumBlobTypes \<longrightarrow> type_blobs idx' t = filter (\<lambda>pb. pb_Type pb = t) (concat (map group_blobs lst)))"
proof -
  have m: "mset (concat (map group_blobs lst)) = mset (index_blobs idx)" by (rule length_groups [OF assms(3)])
  have "u32_blob (of_blobJSON b)" if "g \<in> set lst" "b \<in> set (pj_Blobs g)" for g b
  proof -
    have "\<lparr>pb_Pack = pj_ID g, pb_Blob = of_blobJSON b\<rparr> \<in> set (concat (map group_blobs lst))"
      using that by (auto simp: group_blobs_def)
    then have "\<lparr>pb_Pack = pj_ID g, pb_Blob = of_blobJSON b\<rparr> \<in> set (index_blobs idx)"
      using mset_eq_setD [OF m] by blast
    from u32_index_blobs [OF this] show ?thesis by simp
  qed
  moreover have "length lst \<le> unat maxUint32"
  proof -
    have "distinct (map pj_ID lst)" using assms(3) by (simp add: pack_list_inv_def)
    from distinct_card [OF this] have "length lst = card (pb_Pack ` set (index_blobs idx))"
      using pack_list_ids [OF assms(3)] by simp
    also have "pb_Pack ` set (index_blobs idx) \<subseteq> set (x_packs idx)"
      using index_invD(3) [OF assms(1)] by (auto simp: set_index_blobs type_blobs_def)
    then have "card (pb_Pack ` set (index_blobs idx)) \<le> length (x_packs idx)"
      by (metis List.finite_set card_length card_mono le_trans)
    finally show ?thesis using assms(1) by (simp add: index_inv_def)
  qed
  moreover have "length (concat (map group_blobs lst)) \<le> 2 ^ 36 - 1" using assms(2) mset_eq_length [OF m] by simp
  ultimately show ?thesis
    using decode_packs_ok [OF NewIndex_inv(1), of mh now lst] by (simp add: NewIndex_inv(2)) blast
qed

section \<open>Main results\<close>

lemma filter_handle:
  "bh_Type bh \<noteq> NumBlobTypes \<Longrightarrow>
     filter (\<lambda>pb. pb_Handle pb = bh) (index_blobs idx) = filter (\<lambda>pb. pb_Handle pb = bh) (type_blobs idx (bh_Type bh))"
  unfolding filter_index_blobs [symmetric] filter_filter by (rule filter_cong) auto

text \<open>A small index for concrete instances.\<close>

definition sample_index :: Index where
  "sample_index = NewIndex (\<lambda>_ _. 5) 0"

definition sample_blob :: Blob where
  "sample_blob = \<lparr>b_Handle = \<lparr>bh_ID = replicate 32 7, bh_Type = DataBlob\<rparr>, b_Length = 40, b_Offset = 0,
     b_UncompressedLength = 0\<rparr>"

lemma sample_index_ok: "index_inv sample_index" "index_room sample_index (Suc 0)" "\<not> x_final sample_index" "x_packs sample_index = []"
    "x_ids sample_index = []"
  "t \<noteq> NumBlobTypes \<Longrightarrow> type_blobs sample_index t = []" "u32_blob sample_blob" "index_blobs sample_index = []"
  using NewIndex_inv [where mh = "\<lambda>_ _. 5" and now = 0]
  by (simp_all add: sample_index_def index_room_def sample_blob_def u32_blob_def maxUint32_def)
     (simp_all add: NewIndex_def index_blobs_def array_blob_types_def)

text \<open>C13: Storing a pack in an open index with room succeeds and is visible to every lookup: the pack's
  entries for a handle come first, latest first, before everything the index returned already.\<close>

theorem StorePack_Lookup:
  assumes "index_inv idx" and "\<not> x_final idx" and "length (x_packs idx) < unat maxUint32"
    and "\<forall>b \<in> set blobs. u32_blob b" and "index_room idx (length blobs)"
  shows "\<exists>idx'. StorePack idx i blobs = Inr idx' \<and> index_inv idx' \<and> Packs idx' = insert i (Packs idx)
    \<and> (\<forall>bh pbs. bh_Type bh \<noteq> NumBlobTypes \<longrightarrow> Lookup idx' bh pbs =
         Inr (pbs @ rev (map (\<lambda>b. \<lparr>pb_Pack = i, pb_Blob = b\<rparr>) (filter (\<lambda>b. b_Handle b = bh) blobs))
                  @ rev (filter (\<lambda>pb. pb_Handle pb = bh) (index_blobs idx))))"
proof -
  from store_pack_ok [OF assms(1,3,4,5), of i] obtain idx' where
    s: "StorePack idx i blobs = Inr idx'"
      "stored (idx\<lparr>x_packs := x_packs idx @ [i]\<rparr>) (map (\<lambda>b. \<lparr>pb_Pack = i, pb_Blob = b\<rparr>) blobs) idx'"
      "\<forall>t. t \<noteq> NumBlobTypes \<longrightarrow> type_blobs idx' t = type_blobs idx t
          @ filter (\<lambda>pb. pb_Type pb = t) (map (\<lambda>b. \<lparr>pb_Pack = i, pb_Blob = b\<rparr>) blobs)"
    using assms(2) by (auto simp: StorePack_def)
  have "filter (\<lambda>pb. pb_Handle pb = bh) (index_blobs idx') = filter (\<lambda>pb. pb_Handle pb = bh) (index_blobs idx)
      @ map (\<lambda>b. \<lparr>pb_Pack = i, pb_Blob = b\<rparr>) (filter (\<lambda>b. b_Handle b = bh) blobs)"
    if t: "bh_Type bh \<noteq> NumBlobTypes" for bh
  proof -
    have "filter (\<lambda>b. bh_Type (b_Handle b) = bh_Type bh \<and> b_Handle b = bh) blobs = filter (\<lambda>b. b_Handle b = bh) blobs"
      by (rule filter_cong) auto
    then show ?thesis using s(3) t by (simp add: filter_handle [OF t] filter_map o_def)
  qed
  then show ?thesis
    using s storedD(1,2) [OF s(2)] Lookup_blobs by (auto simp: Packs_def)
qed

theorem StorePack_Lookup_witness:
  "\<exists>idx'. StorePack sample_index (replicate 32 1) [sample_blob] = Inr idx' \<and> index_inv idx'
    \<and> Packs idx' = insert (replicate 32 1) (Packs sample_index)
    \<and> (\<forall>bh pbs. bh_Type bh \<noteq> NumBlobTypes \<longrightarrow> Lookup idx' bh pbs =
         Inr (pbs @ rev (map (\<lambda>b. \<lparr>pb_Pack = replicate 32 1, pb_Blob = b\<rparr>) (filter (\<lambda>b. b_Handle b = bh) [sample_blob]))
                  @ rev (filter (\<lambda>pb. pb_Handle pb = bh) (index_blobs sample_index))))"
  by (rule StorePack_Lookup) (simp_all add: sample_index_ok maxUint32_def)

text \<open>C14: The queries agree: \<^verbatim>\<open>Has\<close>, the found flag of \<^verbatim>\<open>LookupSize\<close> and a non-empty \<^verbatim>\<open>Lookup\<close> all say whether
  an entry with the handle exists, and \<^verbatim>\<open>LookupSize\<close> reports the size of the first entry \<^verbatim>\<open>Lookup\<close> returns.\<close>

theorem index_queries_agree:
  assumes "index_inv idx" and "bh_Type bh \<noteq> NumBlobTypes"
  shows "\<exists>found. Lookup idx bh [] = Inr found \<and> set found = {pb \<in> set (index_blobs idx). pb_Handle pb = bh}
    \<and> Has idx bh = Inr (found \<noteq> [])
    \<and> lookupSize idx bh = Inr (case found of [] \<Rightarrow> (0, False) | pb # _ \<Rightarrow> (DataLength (pb_Blob pb), True))"
proof -
  let ?f = "rev (filter (\<lambda>pb. pb_Handle pb = bh) (index_blobs idx))"
  have "Has idx bh = Inr (?f \<noteq> [])"
    unfolding Has_blobs [OF assms] by (auto simp: filter_empty_conv)
  moreover have "find (\<lambda>pb. pb_Handle pb = bh) (rev (index_blobs idx)) = (case ?f of [] \<Rightarrow> None | x # _ \<Rightarrow> Some x)"
    by (simp add: find_filter rev_filter [symmetric])
  then have "lookupSize idx bh = Inr (case ?f of [] \<Rightarrow> (0, False) | pb # _ \<Rightarrow> (DataLength (pb_Blob pb), True))"
    unfolding lookupSize_blobs [OF assms] by (simp split: list.splits)
  ultimately show ?thesis by (intro exI [of _ ?f]) (auto simp: Lookup_blobs [OF assms])
qed

theorem index_queries_agree_witness:
  "\<exists>found. Lookup sample_index (b_Handle sample_blob) [] = Inr found
    \<and> set found = {pb \<in> set (index_blobs sample_index). pb_Handle pb = b_Handle sample_blob}
    \<and> Has sample_index (b_Handle sample_blob) = Inr (found \<noteq> [])
    \<and> lookupSize sample_index (b_Handle sample_blob)
        = Inr (case found of [] \<Rightarrow> (0, False) | pb # _ \<Rightarrow> (DataLength (pb_Blob pb), True))"
  by (rule index_queries_agree) (simp_all add: sample_index_ok sample_blob_def)

text \<open>C15: Merging a final index keeps everything and adds what is missing, without exact duplicates:
  afterwards the entries of either index, and no others, are found, and no entry twice unless the
  first index had it twice; the merged index carries both sets of file IDs.\<close>

theorem merge_union:
  assumes "index_inv idx" and "index_inv idx2" and "x_final idx2"
    and "length (x_packs idx) + length (x_packs idx2) \<le> unat maxUint32"
    and "\<forall>t. t \<noteq> NumBlobTypes \<longrightarrow> length (type_blobs idx t) + length (type_blobs idx2 t) \<le> 2 ^ 36 - 1"
  shows "\<exists>idx' idx2'. index_merge idx idx2 = Inr (idx', idx2', None) \<and> index_inv idx'
    \<and> set (index_blobs idx') = set (index_blobs idx) \<union> set (index_blobs idx2)
    \<and> (\<forall>t. t \<noteq> NumBlobTypes \<longrightarrow> distinct (type_blobs idx t) \<longrightarrow> distinct (type_blobs idx' t))
    \<and> x_ids idx' = x_ids idx @ x_ids idx2 \<and> Packs idx' = Packs idx \<union> Packs idx2"
proof -
  obtain idx' where m: "index_merge idx idx2 = Inr (idx', idx2\<lparr>x_workingReleases := []\<rparr>, None)" "index_inv idx'"
    "x_packs idx' = x_packs idx @ x_packs idx2" "x_ids idx' = x_ids idx @ x_ids idx2"
    "\<forall>t. t \<noteq> NumBlobTypes \<longrightarrow> type_blobs idx' t = add_missing (type_blobs idx t) (type_blobs idx2 t)"
    by (rule index_merge_blobs [OF assms])
  have "set (index_blobs idx') = set (index_blobs idx) \<union> set (index_blobs idx2)"
    using m(5) by (auto simp: set_index_blobs)
  then show ?thesis using m by (auto simp: Packs_def)
qed

theorem merge_union_witness:
  "\<exists>idx' idx2'. index_merge sample_index (Finalize sample_index) = Inr (idx', idx2', None) \<and> index_inv idx'
    \<and> set (index_blobs idx') = set (index_blobs sample_index) \<union> set (index_blobs (Finalize sample_index))
    \<and> (\<forall>t. t \<noteq> NumBlobTypes \<longrightarrow> distinct (type_blobs sample_index t) \<longrightarrow> distinct (type_blobs idx' t))
    \<and> x_ids idx' = x_ids sample_index @ x_ids (Finalize sample_index)
    \<and> Packs idx' = Packs sample_index \<union> Packs (Finalize sample_index)"
  by (rule merge_union) (simp_all add: sample_index_ok Finalize_def)



end
