(* ===== verification/Master_Index.thy ===== *)
theory Master_Index
  imports Blob_Index "HOL-Library.Sublist"
begin

text \<open>
  The collection of indexes, \<^verbatim>\<open>internal/repository/index/master_index.go\<close>: the first index is final and
  holds everything loaded, later ones are being filled or wait to be merged into the first; blobs
  that are on their way into a pack are pending.

  Pointers to indexes are positions in the list. The clock reading \<open>now\<close> and the hash seeds \<open>mh\<close> are
  parameters, as are the callbacks, the repository's \<^verbatim>\<open>SaveUnpacked\<close> and SHA-256. An
  operation that fails returns the error; what it changed before is not described.
\<close>

section \<open>Model\<close>

record MasterIndex =
  mi_idx :: "Index list"
  mi_pendingBlobs :: "(BlobHandle \<times> u64) list"

text \<open>\<^verbatim>\<open>clear\<close> also runs the release callbacks of the indexes it drops: they are the second component.\<close>

definition mi_clear :: "hash_seeds \<Rightarrow> int \<Rightarrow> MasterIndex \<Rightarrow> MasterIndex \<times> nat list" where
  "mi_clear mh now mi = (\<lparr>mi_idx = [Finalize (NewIndex mh now)], mi_pendingBlobs = []\<rparr>,
     concat (map (\<lambda>idx. snd (releaseWorking idx True)) (mi_idx mi)))"

definition NewMasterIndex :: "hash_seeds \<Rightarrow> int \<Rightarrow> MasterIndex" where
  "NewMasterIndex mh now = fst (mi_clear mh now \<lparr>mi_idx = [], mi_pendingBlobs = []\<rparr>)"

definition clearPendingBlobs :: "MasterIndex \<Rightarrow> MasterIndex" where
  "clearPendingBlobs mi = mi\<lparr>mi_pendingBlobs := []\<rparr>"

definition mi_Lookup :: "MasterIndex \<Rightarrow> BlobHandle \<Rightarrow> PackedBlob list result" where
  "mi_Lookup mi bh = foldM (\<lambda>pbs idx. Lookup idx bh pbs) [] (mi_idx mi)"

fun first_size :: "Index list \<Rightarrow> BlobHandle \<Rightarrow> (u64 \<times> bool) result" where
  "first_size [] bh = Inr (0, False)"
| "first_size (idx # idxs) bh = rbind (lookupSize idx bh) (\<lambda>(sz, found).
     if found then Inr (sz, found) else first_size idxs bh)"

definition mi_LookupSize :: "MasterIndex \<Rightarrow> BlobHandle \<Rightarrow> (u64 \<times> bool) result" where
  "mi_LookupSize mi bh = (case map_of (mi_pendingBlobs mi) bh of
     Some sz \<Rightarrow> Inr (sz, True) | None \<Rightarrow> first_size (mi_idx mi) bh)"

definition mi_LookupSizes :: "MasterIndex \<Rightarrow> BlobHandle list \<Rightarrow> (u64 \<times> bool) list result" where
  "mi_LookupSizes mi handles =
     foldM (\<lambda>sizes idx. lookupSizes idx handles sizes)
       (map (\<lambda>h. case map_of (mi_pendingBlobs mi) h of None \<Rightarrow> (0, False) | Some s \<Rightarrow> (s, True)) handles)
       (mi_idx mi)"

fun any_has :: "Index list \<Rightarrow> BlobHandle \<Rightarrow> bool result" where
  "any_has [] bh = Inr False"
| "any_has (idx # idxs) bh = rbind (Has idx bh) (\<lambda>found. if found then Inr True else any_has idxs bh)"

definition AddPending :: "MasterIndex \<Rightarrow> BlobHandle \<Rightarrow> u64 \<Rightarrow> (MasterIndex \<times> bool) result" where
  "AddPending mi bh sz =
     (if map_of (mi_pendingBlobs mi) bh \<noteq> None then Inr (mi, False)
      else rbind (any_has (mi_idx mi) bh) (\<lambda>found. if found then Inr (mi, False)
        else Inr (mi\<lparr>mi_pendingBlobs := AList.update bh sz (mi_pendingBlobs mi)\<rparr>, True)))"

definition mi_IDs :: "MasterIndex \<Rightarrow> ID set" where
  "mi_IDs mi = (\<Union>idx \<in> set (filter x_final (mi_idx mi)). case index_IDs idx of Inl _ \<Rightarrow> {} | Inr ids \<Rightarrow> set ids)"

definition mi_Packs :: "MasterIndex \<Rightarrow> ID set \<Rightarrow> ID set" where
  "mi_Packs mi packBlacklist = (\<Union>idx \<in> set (mi_idx mi).
     if x_final idx \<and> packBlacklist \<noteq> {} then Packs idx - packBlacklist else Packs idx)"

definition mi_Insert :: "MasterIndex \<Rightarrow> Index \<Rightarrow> MasterIndex" where
  "mi_Insert mi idx = mi\<lparr>mi_idx := mi_idx mi @ [idx\<lparr>x_workingRetained := True\<rparr>]\<rparr>"

text \<open>\<^verbatim>\<open>storePack\<close> also returns the position of the index it filled: the first one that is not final.\<close>

definition storePack :: "hash_seeds \<Rightarrow> int \<Rightarrow> MasterIndex \<Rightarrow> ID \<Rightarrow> Blob list \<Rightarrow> (MasterIndex \<times> nat) result" where
  "storePack mh now mi i blobs =
     (let pending = foldl (\<lambda>p blob. AList.delete (b_Handle blob) p) (mi_pendingBlobs mi) blobs in
      case find (\<lambda>k. \<not> x_final (mi_idx mi ! k)) [0 ..< length (mi_idx mi)] of
        Some k \<Rightarrow> rbind (StorePack (mi_idx mi ! k) i blobs) (\<lambda>idx.
          Inr (\<lparr>mi_idx = (mi_idx mi)[k := idx], mi_pendingBlobs = pending\<rparr>, k))
      | None \<Rightarrow> rbind (StorePack (NewIndex mh now) i blobs) (\<lambda>idx.
          Inr (\<lparr>mi_idx = mi_idx mi @ [idx], mi_pendingBlobs = pending\<rparr>, length (mi_idx mi))))"

definition finalizeNotFinalIndexes :: "MasterIndex \<Rightarrow> MasterIndex \<times> nat list" where
  "finalizeNotFinalIndexes mi =
     (mi\<lparr>mi_idx := map (\<lambda>idx. if \<not> x_final idx then Finalize idx else idx) (mi_idx mi)\<rparr>,
      filter (\<lambda>k. \<not> x_final (mi_idx mi ! k)) [0 ..< length (mi_idx mi)])"

definition finalizeFullIndexes :: "int \<Rightarrow> MasterIndex \<Rightarrow> MasterIndex \<times> nat list" where
  "finalizeFullIndexes now mi =
     (mi\<lparr>mi_idx := map (\<lambda>idx. if \<not> x_final idx \<and> Full now idx then Finalize idx else idx) (mi_idx mi)\<rparr>,
      filter (\<lambda>k. \<not> x_final (mi_idx mi ! k) \<and> Full now (mi_idx mi ! k)) [0 ..< length (mi_idx mi)])"

definition mi_Values :: "MasterIndex \<Rightarrow> PackedBlob list result" where
  "mi_Values mi = rbind (mapM Values (mi_idx mi)) (\<lambda>vs. Inr (concat vs))"

definition preallocate_type :: "Index list \<Rightarrow> Index \<Rightarrow> BlobType \<Rightarrow> Index result" where
  "preallocate_type idxs idx0 t = rbind (foldM (\<lambda>sz idx. rbind (index_Len idx t) (\<lambda>n. Inr (sz + sint n))) 0 (idx0 # idxs))
     (\<lambda>sz. Preallocate idx0 t sz)"

fun merge_loop :: "Index \<Rightarrow> Index list \<Rightarrow> (Index \<times> Index list) result" where
  "merge_loop idx0 [] = Inr (idx0, [])"
| "merge_loop idx0 (idx # idxs) =
     (let ids = (case index_IDs idx of Inl _ \<Rightarrow> [] | Inr ids \<Rightarrow> ids) in
      if \<not> x_final idx \<or> ids = [] then rbind (merge_loop idx0 idxs) (\<lambda>(idx0, rest). Inr (idx0, idx # rest))
      else rbind (index_merge idx0 idx) (\<lambda>(idx0, _, err). case err of
        Some e \<Rightarrow> Inl (Wrap ''MergeFinalIndexes'' e) | None \<Rightarrow> merge_loop idx0 idxs))"

definition MergeFinalIndexes :: "MasterIndex \<Rightarrow> MasterIndex result" where
  "MergeFinalIndexes mi = (case mi_idx mi of [] \<Rightarrow> Inr mi
   | idx0 # idxs \<Rightarrow> rbind (foldM (preallocate_type idxs) idx0 array_blob_types) (\<lambda>idx0.
       rbind (merge_loop idx0 idxs) (\<lambda>(idx0, rest). Inr (mi\<lparr>mi_idx := idx0 # rest\<rparr>))))"

text \<open>\<^verbatim>\<open>saveIndex\<close> on the indexes at the given positions. With a spill callback the saved index leaves the
  list, and later positions move up.\<close>

type_synonym saver = "packJSON list \<Rightarrow> ID \<times> go_error option"
type_synonym callback = "Index \<Rightarrow> go_error option"

fun save_loop :: "saver \<Rightarrow> callback option \<Rightarrow> callback option \<Rightarrow> MasterIndex \<Rightarrow> nat list \<Rightarrow> MasterIndex result" where
  "save_loop save spill onSaved mi [] = Inr mi"
| "save_loop save spill onSaved mi (k # ks) =
     rbind (SaveIndex save (mi_idx mi ! k)) (\<lambda>(idx, sid, err). case err of Some e \<Rightarrow> Inl e | None \<Rightarrow>
       (case (case spill of None \<Rightarrow> None | Some cb \<Rightarrow> cb idx) of Some e \<Rightarrow> Inl (Wrap ''spill saved index'' e) | None \<Rightarrow>
         (case (case onSaved of None \<Rightarrow> None | Some cb \<Rightarrow> cb idx) of Some e \<Rightarrow> Inl (Wrap ''acknowledge saved index'' e) | None \<Rightarrow>
           (if spill \<noteq> None
            then save_loop save spill onSaved
                   (mi\<lparr>mi_idx := take k (mi_idx mi) @ drop (Suc k) (mi_idx mi)\<rparr>)
                   (map (\<lambda>j. if k < j then j - 1 else j) ks)
            else save_loop save spill onSaved (mi\<lparr>mi_idx := (mi_idx mi)[k := idx]\<rparr>) ks))))"

definition saveIndex :: "saver \<Rightarrow> callback option \<Rightarrow> callback option \<Rightarrow> MasterIndex \<Rightarrow> nat list \<Rightarrow> MasterIndex result" where
  "saveIndex save spill onSaved mi indexes = rbind (save_loop save spill onSaved mi indexes) (\<lambda>mi.
     if spill \<noteq> None then Inr mi else MergeFinalIndexes mi)"

definition Flush :: "saver \<Rightarrow> callback option \<Rightarrow> callback option \<Rightarrow> MasterIndex \<Rightarrow> MasterIndex result" where
  "Flush save spill onSaved mi = (let (mi, ks) = finalizeNotFinalIndexes mi in saveIndex save spill onSaved mi ks)"

definition saveFullIndex :: "int \<Rightarrow> saver \<Rightarrow> callback option \<Rightarrow> callback option \<Rightarrow> MasterIndex \<Rightarrow> MasterIndex result" where
  "saveFullIndex now save spill onSaved mi =
     (let (mi, ks) = finalizeFullIndexes now mi in saveIndex save spill onSaved mi ks)"

text \<open>\<^verbatim>\<open>StorePack\<close>: with a working-state policy (\<open>reserve\<close>) the memory for the blobs is reserved first, and
  the release callback is attached to the index.\<close>

definition mi_StorePack ::
  "hash_seeds \<Rightarrow> int \<Rightarrow> (u64 \<Rightarrow> nat result) option \<Rightarrow> saver \<Rightarrow> callback option \<Rightarrow> callback option
     \<Rightarrow> MasterIndex \<Rightarrow> ID \<Rightarrow> Blob list \<Rightarrow> MasterIndex result" where
  "mi_StorePack mh now policy save spill onSaved mi i blobs = (case policy of
     None \<Rightarrow> rbind (storePack mh now mi i blobs) (\<lambda>(mi, _). saveFullIndex now save spill onSaved mi)
   | Some reserve \<Rightarrow> rbind (reserve (of_nat (length blobs) * 512 + 1024)) (\<lambda>release.
       rbind (storePack mh now mi i blobs) (\<lambda>(mi, k).
         saveFullIndex now save spill onSaved
           (mi\<lparr>mi_idx := (mi_idx mi)[k := attachWorking (mi_idx mi ! k) release True]\<rparr>))))"

text \<open>\<^verbatim>\<open>Close\<close>: the indexes stay, their release callbacks (the second component) are run.\<close>

definition mi_Close :: "MasterIndex \<Rightarrow> MasterIndex \<times> nat list" where
  "mi_Close mi = (mi\<lparr>mi_idx := map (\<lambda>idx. fst (releaseWorking idx True)) (mi_idx mi)\<rparr>,
     concat (map (\<lambda>idx. snd (releaseWorking idx True)) (mi_idx mi)))"

subsection \<open>Loading\<close>

text \<open>\<open>load\<close> is \<^verbatim>\<open>LoadUnpacked\<close> of an index file followed by \<^verbatim>\<open>json.Unmarshal\<close>; \<open>listed\<close> the index files of the
  backend in the order in which they are handed to the callback.\<close>

type_synonym index_loader = "ID \<Rightarrow> packJSON list result result"

definition prepareIncrementalLoad :: "hash_seeds \<Rightarrow> int \<Rightarrow> MasterIndex \<Rightarrow> ID list \<Rightarrow> (MasterIndex \<times> ID set) result" where
  "prepareIncrementalLoad mh now mi listed = (let mi = clearPendingBlobs mi in
     case mi_idx mi of [] \<Rightarrow> Inl (Panic ''index out of range'')
     | idx0 # _ \<Rightarrow> (case index_IDs idx0 of Inl _ \<Rightarrow> Inl (Panic ''internal error - failed to get index IDs'')
       | Inr loaded \<Rightarrow> if set loaded - set listed \<noteq> {} then Inr (fst (mi_clear mh now mi), {})
         else Inr (mi, set loaded)))"

definition loadIndex :: "hash_seeds \<Rightarrow> int \<Rightarrow> index_loader \<Rightarrow> ID \<Rightarrow> Index result" where
  "loadIndex mh now load i = rbind (load i) (\<lambda>idxJSON. DecodeIndex mh now idxJSON i)"

text \<open>The callback of \<^verbatim>\<open>Load\<close> on one file. The caller's callback \<open>cb\<close> may turn an error into \<^verbatim>\<open>nil\<close>: then the
  file is skipped. A panic is not an error value and passes through.\<close>

definition load_step ::
  "hash_seeds \<Rightarrow> int \<Rightarrow> index_loader \<Rightarrow> (ID \<Rightarrow> Index option \<Rightarrow> go_error option \<Rightarrow> go_error option) option
     \<Rightarrow> ID set \<Rightarrow> MasterIndex \<Rightarrow> ID \<Rightarrow> MasterIndex result" where
  "load_step mh now load cb loaded mi i = (if i \<in> loaded then Inr mi else
     let (idx, err) = (case loadIndex mh now load i of Inl e \<Rightarrow> (None, Some e) | Inr idx \<Rightarrow> (Some idx, None)) in
     case err of Some (Panic m) \<Rightarrow> Inl (Panic m)
     | _ \<Rightarrow> (case (case cb of None \<Rightarrow> err | Some f \<Rightarrow> f i idx err) of Some e \<Rightarrow> Inl e
       | None \<Rightarrow> (case idx of None \<Rightarrow> Inr mi | Some x \<Rightarrow> Inr (mi_Insert mi x))))"

definition mi_Load ::
  "hash_seeds \<Rightarrow> int \<Rightarrow> index_loader \<Rightarrow> (ID \<Rightarrow> Index option \<Rightarrow> go_error option \<Rightarrow> go_error option) option
     \<Rightarrow> MasterIndex \<Rightarrow> ID list \<Rightarrow> MasterIndex result" where
  "mi_Load mh now load cb mi listed = rbind (prepareIncrementalLoad mh now mi listed) (\<lambda>(mi, loaded).
     rbind (foldM (load_step mh now load cb loaded) mi listed) MergeFinalIndexes)"

definition blobIndex :: "MasterIndex \<Rightarrow> BlobHandle \<Rightarrow> int result" where
  "blobIndex mi h = (case mi_idx mi of [] \<Rightarrow> Inl (Panic ''index out of range'') | idx0 # _ \<Rightarrow> BlobIndex idx0 h)"

definition stableLen :: "MasterIndex \<Rightarrow> BlobType \<Rightarrow> u64 result" where
  "stableLen mi t = (case mi_idx mi of [] \<Rightarrow> Inl (Panic ''index out of range'') | idx0 # _ \<Rightarrow> index_Len idx0 t)"

text \<open>\<^verbatim>\<open>ListPacks\<close>: sixteen passes over the index, one per low nibble of the pack ID's first byte. The
  requested packs come as a list (a Go set, in any order).\<close>

definition nibble :: "ID \<Rightarrow> u8" where
  "nibble p = and (p ! 0) 0xf"

definition list_packs_pass :: "ID list \<Rightarrow> PackedBlob list \<Rightarrow> u8 \<Rightarrow> PackBlobs list" where
  "list_packs_pass packs vs i = (let sel = filter (\<lambda>p. nibble p = i) packs in
     map (\<lambda>p. \<lparr>pbs_PackID = p, pbs_Blobs = map pb_Blob (filter (\<lambda>pb. pb_Pack pb = p) vs)\<rparr>) sel)"

definition ListPacks :: "MasterIndex \<Rightarrow> ID list \<Rightarrow> PackBlobs list result" where
  "ListPacks mi packs = rbind (mi_Values mi) (\<lambda>vs.
     Inr (concat (map (\<lambda>i. list_packs_pass packs vs (of_nat i)) [0 ..< 16])))"

section \<open>Contents\<close>

definition mi_ok :: "MasterIndex \<Rightarrow> bool" where
  "mi_ok mi \<longleftrightarrow> (\<forall>idx \<in> set (mi_idx mi). index_inv idx)"

definition mi_blobs :: "MasterIndex \<Rightarrow> PackedBlob list" where
  "mi_blobs mi = concat (map index_blobs (mi_idx mi))"

definition mi_handles :: "MasterIndex \<Rightarrow> BlobHandle set" where
  "mi_handles mi = pb_Handle ` set (mi_blobs mi)"

text \<open>A blob is known when it is in an index or on its way into one.\<close>

definition known :: "MasterIndex \<Rightarrow> BlobHandle \<Rightarrow> bool" where
  "known mi bh \<longleftrightarrow> bh \<in> fst ` set (mi_pendingBlobs mi) \<or> bh \<in> mi_handles mi"

lemma mi_Values_blobs: "mi_ok mi \<Longrightarrow> mi_Values mi = Inr (mi_blobs mi)"
  using mapM_Inr [of "mi_idx mi" Values index_blobs]
  by (simp add: mi_Values_def mi_ok_def mi_blobs_def Values_blobs)

lemma any_has_handles:
  "\<forall>idx \<in> set idxs. index_inv idx \<Longrightarrow> bh_Type bh \<noteq> NumBlobTypes \<Longrightarrow>
     any_has idxs bh = Inr (bh \<in> pb_Handle ` set (concat (map index_blobs idxs)))"
  by (induction idxs) (auto simp: Has_blobs image_Un)

lemma first_size_found:
  "\<forall>idx \<in> set idxs. index_inv idx \<Longrightarrow> bh_Type bh \<noteq> NumBlobTypes \<Longrightarrow>
     \<exists>s. first_size idxs bh = Inr (s, bh \<in> pb_Handle ` set (concat (map index_blobs idxs)))"
proof (induction idxs)
  case (Cons idx idxs)
  have "find (\<lambda>pb. pb_Handle pb = bh) (rev (index_blobs idx)) = None \<longleftrightarrow> bh \<notin> pb_Handle ` set (index_blobs idx)"
    by (auto simp: find_None_iff)
  then show ?case
    using Cons by (cases "find (\<lambda>pb. pb_Handle pb = bh) (rev (index_blobs idx))")
      (auto simp: lookupSize_blobs image_Un)
qed simp

lemma mi_Lookup_blobs:
  assumes "mi_ok mi" "bh_Type bh \<noteq> NumBlobTypes"
  shows "\<exists>pbs. mi_Lookup mi bh = Inr pbs \<and> set pbs = {pb \<in> set (mi_blobs mi). pb_Handle pb = bh}"
proof -
  have "\<forall>idx \<in> set idxs. index_inv idx \<Longrightarrow> \<exists>pbs. foldM (\<lambda>pbs idx. Lookup idx bh pbs) acc idxs = Inr pbs
      \<and> set pbs = set acc \<union> {pb \<in> set (concat (map index_blobs idxs)). pb_Handle pb = bh}" for acc idxs
  proof (induction idxs arbitrary: acc)
    case (Cons idx idxs)
    then show ?case
      using Cons.IH [of "acc @ rev (filter (\<lambda>pb. pb_Handle pb = bh) (index_blobs idx))"] Lookup_blobs [OF _ assms(2), of idx acc]
      by auto
  qed simp
  then show ?thesis using assms(1) by (fastforce simp: mi_Lookup_def mi_ok_def mi_blobs_def)
qed

lemma AddPending_known:
  assumes "mi_ok mi" "bh_Type bh \<noteq> NumBlobTypes"
  shows "\<exists>mi'. AddPending mi bh sz = Inr (mi', \<not> known mi bh) \<and> mi_idx mi' = mi_idx mi
    \<and> (\<forall>h. known mi' h \<longleftrightarrow> known mi h \<or> h = bh)"
proof (cases "known mi bh")
  case True
  then show ?thesis
    using any_has_handles [of "mi_idx mi" bh] assms
    by (auto simp: AddPending_def known_def mi_handles_def mi_blobs_def mi_ok_def map_of_eq_None_iff)
next
  case False
  then have "AddPending mi bh sz = Inr (mi\<lparr>mi_pendingBlobs := AList.update bh sz (mi_pendingBlobs mi)\<rparr>, True)"
    using any_has_handles [of "mi_idx mi" bh] assms
    by (auto simp: AddPending_def known_def mi_handles_def mi_blobs_def mi_ok_def map_of_eq_None_iff)
  then show ?thesis using False by (auto simp: known_def mi_handles_def mi_blobs_def dom_update)
qed

lemma mi_LookupSize_known:
  assumes "mi_ok mi" "bh_Type bh \<noteq> NumBlobTypes"
  shows "\<exists>s. mi_LookupSize mi bh = Inr (s, known mi bh)"
  using first_size_found [of "mi_idx mi" bh] assms
  by (auto simp: mi_LookupSize_def known_def mi_handles_def mi_blobs_def mi_ok_def map_of_eq_None_iff
      split: option.splits)
     (metis domI dom_map_of_conv_image_fst)

section \<open>Storing packs\<close>

lemma StorePack_blobs:
  assumes "index_inv idx" "\<not> x_final idx" "length (x_packs idx) < unat maxUint32" "\<forall>b \<in> set blobs. u32_blob b"
    "index_room idx (length blobs)"
  obtains idx' where "StorePack idx i blobs = Inr idx'" "index_inv idx'" "x_packs idx' = x_packs idx @ [i]"
    "x_final idx' = x_final idx" "x_ids idx' = x_ids idx"
    "\<forall>t. t \<noteq> NumBlobTypes \<longrightarrow> type_blobs idx' t = type_blobs idx t
        @ filter (\<lambda>pb. pb_Type pb = t) (map (\<lambda>b. \<lparr>pb_Pack = i, pb_Blob = b\<rparr>) blobs)"
    "set (index_blobs idx') = set (index_blobs idx) \<union> (\<lambda>b. \<lparr>pb_Pack = i, pb_Blob = b\<rparr>) ` set blobs"
proof -
  from store_pack_ok [OF assms(1,3,4,5), of i] obtain idx' where
    s: "StorePack idx i blobs = Inr idx'"
      "stored (idx\<lparr>x_packs := x_packs idx @ [i]\<rparr>) (map (\<lambda>b. \<lparr>pb_Pack = i, pb_Blob = b\<rparr>) blobs) idx'"
      "\<forall>t. t \<noteq> NumBlobTypes \<longrightarrow> type_blobs idx' t = type_blobs idx t
          @ filter (\<lambda>pb. pb_Type pb = t) (map (\<lambda>b. \<lparr>pb_Pack = i, pb_Blob = b\<rparr>) blobs)"
    using assms(2) by (auto simp: StorePack_def)
  have "bh_Type (b_Handle b) \<noteq> NumBlobTypes" if "b \<in> set blobs" for b
    using assms(4) that by (simp add: u32_blob_def)
  then have "set (index_blobs idx') = set (index_blobs idx) \<union> (\<lambda>b. \<lparr>pb_Pack = i, pb_Blob = b\<rparr>) ` set blobs"
    using s(3) by (fastforce simp: set_index_blobs)
  then show thesis using that s storedD [OF s(2)] by auto
qed

lemma delete_key_set: "fst ` set (AList.delete k al) = fst ` set al - {k}"
  using arg_cong [OF delete_keys [of k al], of set] by simp

lemma delete_all_keys:
  "fst ` set (foldl (\<lambda>p b. AList.delete (b_Handle b) p) al blobs) = fst ` set al - b_Handle ` set blobs"
  by (induction blobs arbitrary: al) (auto simp: delete_key_set simp del: set_map)

lemma find_upt:
  "find P [0 ..< n] = None \<Longrightarrow> \<forall>k < n. \<not> P k" "find P [0 ..< n] = Some k \<Longrightarrow> k < n \<and> P k"
  by (auto simp: find_None_iff find_Some_iff)

definition mi_room :: "MasterIndex \<Rightarrow> nat \<Rightarrow> bool" where
  "mi_room mi n \<longleftrightarrow> n \<le> 2 ^ 36 - 1 \<and> (\<forall>idx \<in> set (mi_idx mi). \<not> x_final idx \<longrightarrow>
     length (x_packs idx) < unat maxUint32 \<and> index_room idx n)"

lemma NewIndex_room: "n \<le> 2 ^ 36 - 1 \<Longrightarrow> index_room (NewIndex mh now) n"
  by (simp add: index_room_def NewIndex_inv(2))

lemma storePack_known:
  assumes "mi_ok mi" "\<forall>b \<in> set blobs. u32_blob b" "mi_room mi (length blobs)"
  shows "\<exists>mi' k. storePack mh now mi i blobs = Inr (mi', k) \<and> mi_ok mi'
    \<and> set (mi_blobs mi') = set (mi_blobs mi) \<union> (\<lambda>b. \<lparr>pb_Pack = i, pb_Blob = b\<rparr>) ` set blobs
    \<and> fst ` set (mi_pendingBlobs mi') = fst ` set (mi_pendingBlobs mi) - b_Handle ` set blobs"
proof (cases "find (\<lambda>k. \<not> x_final (mi_idx mi ! k)) [0 ..< length (mi_idx mi)]")
  case None
  have mx: "length (x_packs (NewIndex mh now)) < unat maxUint32" by (simp add: maxUint32_def)
  have n: "length blobs \<le> 2 ^ 36 - 1" using assms(3) by (simp add: mi_room_def)
  obtain idx' where s: "StorePack (NewIndex mh now) i blobs = Inr idx'" "index_inv idx'"
    "set (index_blobs idx') = set (index_blobs (NewIndex mh now)) \<union> (\<lambda>b. \<lparr>pb_Pack = i, pb_Blob = b\<rparr>) ` set blobs"
    using StorePack_blobs [OF NewIndex_inv(1) NewIndex_fields(3) mx assms(2) NewIndex_room [OF n]] by metis
  have "index_blobs (NewIndex mh now) = []" by (simp add: index_blobs_def NewIndex_inv(2) array_blob_types_def)
  then show ?thesis
    using s assms(1) None by (auto simp: storePack_def Let_def mi_ok_def mi_blobs_def delete_all_keys)
next
  case (Some k)
  then have k: "k < length (mi_idx mi)" "\<not> x_final (mi_idx mi ! k)" using find_upt(2) by blast+
  then have m: "mi_idx mi ! k \<in> set (mi_idx mi)" by simp
  then have r: "length (x_packs (mi_idx mi ! k)) < unat maxUint32" "index_room (mi_idx mi ! k) (length blobs)"
    "index_inv (mi_idx mi ! k)"
    using assms(1,3) k(2) by (auto simp: mi_room_def mi_ok_def)
  obtain idx' where s: "StorePack (mi_idx mi ! k) i blobs = Inr idx'" "index_inv idx'"
    "set (index_blobs idx') = set (index_blobs (mi_idx mi ! k)) \<union> (\<lambda>b. \<lparr>pb_Pack = i, pb_Blob = b\<rparr>) ` set blobs"
    using StorePack_blobs [OF r(3) k(2) r(1) assms(2) r(2)] by metis
  let ?mi = "\<lparr>mi_idx = (mi_idx mi)[k := idx'], mi_pendingBlobs = foldl (\<lambda>p b. AList.delete (b_Handle b) p) (mi_pendingBlobs mi) blobs\<rparr>"
  have "mi_ok ?mi" using assms(1) s(2) set_update_subset_insert [of "mi_idx mi" k idx'] by (auto simp: mi_ok_def)
  moreover have sp: "mi_idx mi = take k (mi_idx mi) @ mi_idx mi ! k # drop (Suc k) (mi_idx mi)"
    using k(1) by (rule id_take_nth_drop)
  have "(mi_idx mi)[k := idx'] = take k (mi_idx mi) @ idx' # drop (Suc k) (mi_idx mi)"
    using k(1) by (rule upd_conv_take_nth_drop)
  then have "set (mi_blobs ?mi) = set (mi_blobs mi) \<union> (\<lambda>b. \<lparr>pb_Pack = i, pb_Blob = b\<rparr>) ` set blobs"
    using s(3) arg_cong [OF sp, of "\<lambda>l. set (concat (map index_blobs l))"] by (auto simp: mi_blobs_def)
  ultimately show ?thesis using s(1) Some by (simp add: storePack_def Let_def delete_all_keys)
qed

section \<open>Merging\<close>

lemma Preallocate_blobs:
  assumes "index_inv idx" "t \<noteq> NumBlobTypes" "0 \<le> n" "n \<le> 2 ^ 62"
  shows "\<exists>ms. Preallocate idx t n = Inr (idx\<lparr>x_byType := ms\<rparr>) \<and> index_inv (idx\<lparr>x_byType := ms\<rparr>)
    \<and> (\<forall>t'. type_blobs (idx\<lparr>x_byType := ms\<rparr>) t' = type_blobs idx t')"
proof -
  let ?m = "type_map idx t"
  have mi: "map_inv ?m" by (rule index_invD(2) [OF assms(1,2)])
  obtain m where m: "indexMap_preallocate ?m n = Inr m" "map_inv m" "map_contents m = map_contents ?m"
  proof (cases "n = 0")
    case True
    then show thesis using that mi by (simp add: indexMap_preallocate_def)
  next
    case False
    then have "0 < n" using assms(3) by simp
    then show thesis using indexMap_preallocate_ready [OF mi _ assms(4)] that by (metis map_inv_def)
  qed
  have "packs_cover (x_packs idx) m" using index_invD(3) [OF assms(1,2)] m(3) by (simp add: packs_cover_def)
  note si = set_byType_inv [OF assms(1,2) m(2) this]
  have "map_blobs (x_packs idx) t m = type_blobs idx t" using m(3) by (simp add: map_blobs_def type_blobs_def)
  then show ?thesis
    using m(1) si by (intro exI [of _ "(x_byType idx)[blob_type_num t := m]"])
      (auto simp: Preallocate_def index_invD(1) [OF assms(1,2)] set_byType_def)
qed

lemma index_Len_blobs:
  assumes "index_inv idx" "t \<noteq> NumBlobTypes" "length (type_blobs idx t) < 2 ^ 62"
  shows "\<exists>n. index_Len idx t = Inr n \<and> sint n = int (length (type_blobs idx t))"
proof -
  have "unat (m_numentries (type_map idx t)) = length (type_blobs idx t)"
    using length_map_contents [OF index_invD(2) [OF assms(1,2)]] by (simp add: type_blobs_def)
  then show ?thesis
    using assms(3) sint_small [of "m_numentries (type_map idx t)"]
    by (simp add: index_Len_def index_invD(1) [OF assms(1,2)] indexMap_len_def)
qed

lemma lens_sum:
  assumes "\<And>idx. idx \<in> set idxs \<Longrightarrow> index_inv idx" "t \<noteq> NumBlobTypes"
    "sum_list (map (\<lambda>idx. length (type_blobs idx t)) idxs) < 2 ^ 62"
  shows "foldM (\<lambda>sz idx. rbind (index_Len idx t) (\<lambda>n. Inr (sz + sint n))) a idxs
    = Inr (a + int (sum_list (map (\<lambda>idx. length (type_blobs idx t)) idxs)))"
  using assms
proof (induction idxs arbitrary: a)
  case (Cons idx idxs)
  then have "\<exists>n. index_Len idx t = Inr n \<and> sint n = int (length (type_blobs idx t))"
    by (intro index_Len_blobs) auto
  then show ?case using Cons by (auto simp: add.assoc)
qed simp

text \<open>\<open>prealloc\<close> relates an index to one that differs in the table layout only.\<close>

definition same_blobs :: "Index \<Rightarrow> Index \<Rightarrow> bool" where
  "same_blobs idx idx' \<longleftrightarrow> index_inv idx' \<and> (\<forall>t. type_blobs idx' t = type_blobs idx t)
     \<and> (\<exists>ms. idx' = idx\<lparr>x_byType := ms\<rparr>)"

lemma preallocate_types_blobs:
  assumes "index_inv idx0" "\<And>idx. idx \<in> set idxs \<Longrightarrow> index_inv idx" "\<And>t. t \<in> set ts \<Longrightarrow> t \<noteq> NumBlobTypes"
    "\<And>t. t \<in> set ts \<Longrightarrow> sum_list (map (\<lambda>idx. length (type_blobs idx t)) (idx0 # idxs)) < 2 ^ 62"
  shows "\<exists>idx'. foldM (preallocate_type idxs) idx0 ts = Inr idx' \<and> same_blobs idx0 idx'"
  using assms
proof (induction ts arbitrary: idx0)
  case Nil
  then show ?case by (auto simp: same_blobs_def intro: exI [of _ "x_byType idx0"])
next
  case (Cons t ts)
  let ?n = "int (sum_list (map (\<lambda>idx. length (type_blobs idx t)) (idx0 # idxs)))"
  have tt: "t \<noteq> NumBlobTypes" using Cons.prems(3) by simp
  have s: "sum_list (map (\<lambda>idx. length (type_blobs idx t)) (idx0 # idxs)) < 2 ^ 62" by (rule Cons.prems(4)) simp
  have "?n < int (2 ^ 62)" using s unfolding of_nat_less_iff .
  then have n: "0 \<le> ?n" "?n \<le> 2 ^ 62" by simp_all
  have "foldM (\<lambda>sz idx. rbind (index_Len idx t) (\<lambda>n. Inr (sz + sint n))) 0 (idx0 # idxs) = Inr (0 + ?n)"
    by (rule lens_sum [OF _ tt s]) (use Cons.prems(1,2) in auto)
  then have "preallocate_type idxs idx0 t = Preallocate idx0 t ?n"
    unfolding preallocate_type_def by simp
  with Preallocate_blobs [OF Cons.prems(1) tt n] obtain ms where
    p: "preallocate_type idxs idx0 t = Inr (idx0\<lparr>x_byType := ms\<rparr>)" "index_inv (idx0\<lparr>x_byType := ms\<rparr>)"
      "\<forall>t'. type_blobs (idx0\<lparr>x_byType := ms\<rparr>) t' = type_blobs idx0 t'" by metis
  have "\<exists>idx'. foldM (preallocate_type idxs) (idx0\<lparr>x_byType := ms\<rparr>) ts = Inr idx' \<and> same_blobs (idx0\<lparr>x_byType := ms\<rparr>) idx'"
    using Cons.prems p(2,3) by (intro Cons.IH) auto
  then show ?case using p by (auto simp: same_blobs_def)
qed

definition mergeable :: "Index \<Rightarrow> bool" where
  "mergeable idx \<longleftrightarrow> x_final idx \<and> x_ids idx \<noteq> []"

text \<open>\<open>merged_into idx0 idxs idx0'\<close>: \<open>idx0'\<close> is \<open>idx0\<close> extended by the entries of \<open>idxs\<close>.\<close>

definition merged_into :: "Index \<Rightarrow> Index list \<Rightarrow> Index \<Rightarrow> bool" where
  "merged_into idx0 idxs idx0' \<longleftrightarrow> index_inv idx0' \<and> x_final idx0' = x_final idx0
     \<and> x_ids idx0' = x_ids idx0 @ concat (map x_ids idxs) \<and> x_packs idx0' = x_packs idx0 @ concat (map x_packs idxs)
     \<and> (\<forall>t. t \<noteq> NumBlobTypes \<longrightarrow> prefix (type_blobs idx0 t) (type_blobs idx0' t)
          \<and> length (type_blobs idx0' t) \<le> length (type_blobs idx0 t) + sum_list (map (\<lambda>idx. length (type_blobs idx t)) idxs)
          \<and> set (type_blobs idx0' t) = set (type_blobs idx0 t) \<union> \<Union> (set ` (\<lambda>idx. type_blobs idx t) ` set idxs))"

lemma prefix_add_missing: "prefix xs (add_missing xs ys)"
  unfolding add_missing_def
proof (induction ys arbitrary: xs)
  case (Cons y ys)
  have "prefix xs (if y \<in> set xs then xs else xs @ [y])" by simp
  from prefix_order.trans [OF this Cons] show ?case by simp
qed simp

definition merge_room :: "Index list \<Rightarrow> bool" where
  "merge_room idxs \<longleftrightarrow> sum_list (map (\<lambda>idx. length (x_packs idx)) idxs) \<le> unat maxUint32
     \<and> (\<forall>t. t \<noteq> NumBlobTypes \<longrightarrow> sum_list (map (\<lambda>idx. length (type_blobs idx t)) idxs) \<le> 2 ^ 36 - 1)"

lemma merge_room_weaken:
  assumes "merge_room (idx0 # idxs)"
    "sum_list (map (\<lambda>idx. length (x_packs idx)) js) \<le> sum_list (map (\<lambda>idx. length (x_packs idx)) (idx0 # idxs))"
    "\<And>t. t \<noteq> NumBlobTypes \<Longrightarrow> sum_list (map (\<lambda>idx. length (type_blobs idx t)) js)
       \<le> sum_list (map (\<lambda>idx. length (type_blobs idx t)) (idx0 # idxs))"
  shows "merge_room js"
proof -
  have "sum_list (map (\<lambda>idx. length (type_blobs idx t)) js) \<le> 2 ^ 36 - 1" if "t \<noteq> NumBlobTypes" for t
    using assms(1) assms(3) [OF that] that order_trans unfolding merge_room_def by blast
  then show ?thesis using assms(1) order_trans [OF assms(2)] unfolding merge_room_def by simp
qed

lemma merge_room_two:
  assumes "merge_room (idx0 # idx # idxs)"
  shows "length (x_packs idx0) + length (x_packs idx) \<le> unat maxUint32"
    "\<forall>t. t \<noteq> NumBlobTypes \<longrightarrow> length (type_blobs idx0 t) + length (type_blobs idx t) \<le> 2 ^ 36 - 1"
proof -
  have "merge_room [idx0, idx]" by (rule merge_room_weaken [OF assms]) simp_all
  then show "length (x_packs idx0) + length (x_packs idx) \<le> unat maxUint32"
    "\<forall>t. t \<noteq> NumBlobTypes \<longrightarrow> length (type_blobs idx0 t) + length (type_blobs idx t) \<le> 2 ^ 36 - 1"
    by (simp_all add: merge_room_def)
qed

lemma merged_into_refl: "index_inv idx0 \<Longrightarrow> merged_into idx0 [] idx0"
  by (simp add: merged_into_def)

lemma merged_into_trans:
  assumes "merged_into idx0 js i1" "merged_into i1 ks i2"
  shows "merged_into idx0 (js @ ks) i2"
proof -
  have "prefix (type_blobs idx0 t) (type_blobs i2 t)
      \<and> length (type_blobs i2 t) \<le> length (type_blobs idx0 t) + sum_list (map (\<lambda>idx. length (type_blobs idx t)) (js @ ks))
      \<and> set (type_blobs i2 t) = set (type_blobs idx0 t) \<union> \<Union> (set ` (\<lambda>idx. type_blobs idx t) ` set (js @ ks))"
    if t: "t \<noteq> NumBlobTypes" for t
  proof -
    have a: "prefix (type_blobs idx0 t) (type_blobs i1 t)"
      "length (type_blobs i1 t) \<le> length (type_blobs idx0 t) + sum_list (map (\<lambda>idx. length (type_blobs idx t)) js)"
      "set (type_blobs i1 t) = set (type_blobs idx0 t) \<union> \<Union> (set ` (\<lambda>idx. type_blobs idx t) ` set js)"
      using assms(1) t unfolding merged_into_def by blast+
    have b: "prefix (type_blobs i1 t) (type_blobs i2 t)"
      "length (type_blobs i2 t) \<le> length (type_blobs i1 t) + sum_list (map (\<lambda>idx. length (type_blobs idx t)) ks)"
      "set (type_blobs i2 t) = set (type_blobs i1 t) \<union> \<Union> (set ` (\<lambda>idx. type_blobs idx t) ` set ks)"
      using assms(2) t unfolding merged_into_def by blast+
    show ?thesis
      using prefix_order.trans [OF a(1) b(1)] a(2) b(2) unfolding b(3) a(3) by (simp add: Un_assoc image_Un)
  qed
  then show ?thesis using assms unfolding merged_into_def by simp
qed

lemma merge_loop_merged:
  assumes "index_inv idx0" "\<And>idx. idx \<in> set idxs \<Longrightarrow> index_inv idx" "merge_room (idx0 # idxs)"
  shows "\<exists>idx0'. merge_loop idx0 idxs = Inr (idx0', filter (\<lambda>idx. \<not> mergeable idx) idxs)
    \<and> merged_into idx0 (filter mergeable idxs) idx0'"
  using assms
proof (induction idxs arbitrary: idx0)
  case Nil
  then show ?case by (simp add: merged_into_refl)
next
  case (Cons idx idxs)
  show ?case
  proof (cases "mergeable idx")
    case False
    then have c: "\<not> x_final idx \<or> (case index_IDs idx of Inl _ \<Rightarrow> [] | Inr ids \<Rightarrow> ids) = []"
      by (auto simp: mergeable_def index_IDs_def)
    have "merge_room (idx0 # idxs)" by (rule merge_room_weaken [OF Cons.prems(3)]) simp_all
    with Cons.IH [of idx0] Cons.prems(1,2) obtain idx0' where
      "merge_loop idx0 idxs = Inr (idx0', filter (\<lambda>idx. \<not> mergeable idx) idxs)" "merged_into idx0 (filter mergeable idxs) idx0'"
      by auto
    then show ?thesis using c False by (simp add: Let_def)
  next
    case True
    then have c: "\<not> (\<not> x_final idx \<or> (case index_IDs idx of Inl _ \<Rightarrow> [] | Inr ids \<Rightarrow> ids) = [])" "x_final idx"
      by (auto simp: mergeable_def index_IDs_def)
    note r = merge_room_two [OF Cons.prems(3)]
    have ii: "index_inv idx" using Cons.prems(2) by simp
    obtain i1 where m: "index_merge idx0 idx = Inr (i1, idx\<lparr>x_workingReleases := []\<rparr>, None)" "index_inv i1"
      "x_packs i1 = x_packs idx0 @ x_packs idx" "x_ids i1 = x_ids idx0 @ x_ids idx" "x_final i1 = x_final idx0"
      "\<forall>t. t \<noteq> NumBlobTypes \<longrightarrow> type_blobs i1 t = add_missing (type_blobs idx0 t) (type_blobs idx t)"
      by (rule index_merge_blobs [OF Cons.prems(1) ii c(2) r])
    then have m1: "merged_into idx0 [idx] i1"
      by (simp add: merged_into_def prefix_add_missing length_add_missing)
    have "merge_room (i1 # idxs)"
      by (rule merge_room_weaken [OF Cons.prems(3)]) (use m(3,6) length_add_missing in simp_all)
    then have "\<exists>idx0'. merge_loop i1 idxs = Inr (idx0', filter (\<lambda>idx. \<not> mergeable idx) idxs)
        \<and> merged_into i1 (filter mergeable idxs) idx0'"
      using Cons.prems(2) m(2) by (intro Cons.IH) auto
    then obtain idx0' where i: "merge_loop i1 idxs = Inr (idx0', filter (\<lambda>idx. \<not> mergeable idx) idxs)"
      "merged_into i1 (filter mergeable idxs) idx0'" by blast
    show ?thesis using c m(1) True i(1) merged_into_trans [OF m1 i(2)] by (simp add: Let_def)
  qed
qed

lemma MergeFinalIndexes_merged:
  assumes "mi_idx mi = idx0 # idxs" "mi_ok mi" "merge_room (mi_idx mi)"
  shows "\<exists>idx0'. MergeFinalIndexes mi = Inr (mi\<lparr>mi_idx := idx0' # filter (\<lambda>idx. \<not> mergeable idx) idxs\<rparr>)
    \<and> merged_into idx0 (filter mergeable idxs) idx0'"
proof -
  have inv: "index_inv idx0" "\<And>idx. idx \<in> set idxs \<Longrightarrow> index_inv idx" using assms(1,2) by (auto simp: mi_ok_def)
  have s: "sum_list (map (\<lambda>idx. length (type_blobs idx t)) (idx0 # idxs)) < 2 ^ 62" if "t \<noteq> NumBlobTypes" for t
    using assms(1,3) that by (auto simp: merge_room_def intro: order_le_less_trans)
  obtain i1 where p: "foldM (preallocate_type idxs) idx0 array_blob_types = Inr i1" "same_blobs idx0 i1"
    using preallocate_types_blobs [OF inv, where ts = array_blob_types] s by auto
  then have m: "merged_into idx0 [] i1" by (auto simp: same_blobs_def merged_into_def)
  have "merge_room (i1 # idxs)" using assms(1,3) p(2) by (auto simp: merge_room_def same_blobs_def)
  with merge_loop_merged [of i1 idxs] inv p(2) obtain idx0' where
    "merge_loop i1 idxs = Inr (idx0', filter (\<lambda>idx. \<not> mergeable idx) idxs)" "merged_into i1 (filter mergeable idxs) idx0'"
    by (auto simp: same_blobs_def)
  moreover have "merged_into idx0 (filter mergeable idxs) idx0'"
    using merged_into_trans [OF m calculation(2)] by simp
  ultimately show ?thesis using p(1) assms(1) by (intro exI [of _ idx0'] conjI) (simp_all add: MergeFinalIndexes_def)
qed

section \<open>Stable positions\<close>

text \<open>The position of the first entry with a key, counted from one.\<close>

definition id_pos :: "'a \<Rightarrow> 'a list \<Rightarrow> int" where
  "id_pos x xs = (if x \<in> set xs then int (length (takeWhile (\<lambda>y. y \<noteq> x) xs)) + 1 else -1)"

lemma id_pos_prefix: "x \<in> set xs \<Longrightarrow> prefix xs ys \<Longrightarrow> id_pos x ys = id_pos x xs"
  by (auto simp: id_pos_def prefix_def takeWhile_append1 [where x = x])

lemma id_pos_bounds: "x \<in> set xs \<Longrightarrow> 1 \<le> id_pos x xs \<and> id_pos x xs \<le> int (length xs)"
proof -
  assume x: "x \<in> set xs"
  then have "length (takeWhile (\<lambda>y. y \<noteq> x) xs) < length xs" by (induction xs) auto
  then show ?thesis using x by (simp add: id_pos_def)
qed

lemma id_pos_at: "x \<in> set xs \<Longrightarrow> xs ! nat (id_pos x xs - 1) = x"
proof -
  assume x: "x \<in> set xs"
  then have "length (takeWhile (\<lambda>y. y \<noteq> x) xs) < length xs" by (induction xs) auto
  then show ?thesis using x nth_length_takeWhile [of "\<lambda>y. y \<noteq> x" xs] by (simp add: id_pos_def)
qed

lemma id_pos_inj: "x \<in> set xs \<Longrightarrow> y \<in> set xs \<Longrightarrow> id_pos x xs = id_pos y xs \<Longrightarrow> x = y"
  by (metis id_pos_at)

lemma first_pos_ids: "first_pos key es = id_pos key (map e_id es)"
  by (auto simp: first_pos_def id_pos_def takeWhile_map o_def)

abbreviation type_ids :: "Index \<Rightarrow> BlobType \<Rightarrow> ID list" where
  "type_ids idx t \<equiv> map pb_ID (type_blobs idx t)"

lemma BlobIndex_pos:
  assumes "index_inv idx" "bh_Type bh \<noteq> NumBlobTypes"
  shows "BlobIndex idx bh = Inr (id_pos (bh_ID bh) (type_ids idx (bh_Type bh)))"
proof -
  have "map e_id (map_contents (type_map idx (bh_Type bh))) = type_ids idx (bh_Type bh)"
    by (simp add: type_blobs_def o_def)
  then show ?thesis
    by (simp add: BlobIndex_def index_invD(1) [OF assms] firstIndex_contents [OF index_invD(2) [OF assms]] first_pos_ids)
qed

lemma merged_into_ids: "merged_into idx0 idxs idx0' \<Longrightarrow> t \<noteq> NumBlobTypes \<Longrightarrow> prefix (type_ids idx0 t) (type_ids idx0' t)"
  by (simp add: merged_into_def map_mono_prefix)

lemma merged_into_blobs:
  "merged_into idx0 idxs idx0' \<Longrightarrow> set (index_blobs idx0') = set (index_blobs idx0) \<union> \<Union> (set ` index_blobs ` set idxs)"
  by (auto simp: set_index_blobs merged_into_def)

section \<open>Listing packs\<close>

lemma mset_classes:
  "mset (concat (map (\<lambda>i. filter (\<lambda>x. f x = i) xs) [0 ..< n])) = mset (filter (\<lambda>x. f x < n) xs)" for f :: "'a \<Rightarrow> nat"
proof (induction n)
  case (Suc n)
  have "mset (filter (\<lambda>x. f x < n) xs) + mset (filter (\<lambda>x. f x = n) xs) = mset (filter (\<lambda>x. f x < Suc n) xs)"
    by (induction xs) auto
  then show ?case using Suc by simp
qed simp

lemma nibble_lt: "unat (nibble p) < 16"
proof -
  have "nibble p \<le> 0xf" by (simp add: nibble_def word_and_le1)
  then show ?thesis by (simp add: word_le_nat_alt)
qed

lemma nibble_of_nat: "i < 16 \<Longrightarrow> nibble p = of_nat i \<longleftrightarrow> unat (nibble p) = i"
  using nibble_lt [of p] by (auto simp: unat_of_nat word_unat_eq_iff)

lemma ListPacks_blobs:
  assumes "mi_ok mi"
  shows "\<exists>gs. ListPacks mi packs = Inr gs \<and> mset (map pbs_PackID gs) = mset packs
    \<and> (\<forall>g \<in> set gs. pbs_Blobs g = map pb_Blob (filter (\<lambda>pb. pb_Pack pb = pbs_PackID g) (mi_blobs mi)))"
proof -
  let ?gs = "concat (map (\<lambda>i. list_packs_pass packs (mi_blobs mi) (of_nat i)) [0 ..< 16])"
  have "map pbs_PackID ?gs = concat (map (\<lambda>i. filter (\<lambda>p. nibble p = of_nat i) packs) [0 ..< 16])"
    by (simp add: list_packs_pass_def Let_def map_concat o_def)
  also have "\<dots> = concat (map (\<lambda>i. filter (\<lambda>p. unat (nibble p) = i) packs) [0 ..< 16])"
    by (intro arg_cong [of _ _ concat] map_cong refl filter_cong) (simp_all add: nibble_of_nat)
  finally have "mset (map pbs_PackID ?gs) = mset packs"
    using mset_classes [of "\<lambda>p. unat (nibble p)" packs 16] by (simp add: nibble_lt)
  moreover have "ListPacks mi packs = Inr ?gs" by (simp add: ListPacks_def mi_Values_blobs [OF assms])
  moreover have "pbs_Blobs g = map pb_Blob (filter (\<lambda>pb. pb_Pack pb = pbs_PackID g) (mi_blobs mi))" if "g \<in> set ?gs" for g
    using that by (auto simp: list_packs_pass_def Let_def)
  ultimately show ?thesis by blast
qed

section \<open>Loading\<close>

definition file_blobs :: "packJSON list \<Rightarrow> PackedBlob list" where
  "file_blobs f = concat (map group_blobs f)"

definition file_ok :: "packJSON list \<Rightarrow> bool" where
  "file_ok f \<longleftrightarrow> (\<forall>g \<in> set f. \<forall>b \<in> set (pj_Blobs g). u32_blob (of_blobJSON b))
     \<and> length f \<le> unat maxUint32 \<and> length (file_blobs f) \<le> 2 ^ 36 - 1"

text \<open>\<open>decoded f i idx\<close>: the index of the file \<open>f\<close> with ID \<open>i\<close>.\<close>

definition decoded :: "packJSON list \<Rightarrow> ID \<Rightarrow> Index \<Rightarrow> bool" where
  "decoded f i idx \<longleftrightarrow> index_inv idx \<and> x_final idx \<and> x_ids idx = [i] \<and> x_packs idx = map pj_ID f
     \<and> (\<forall>t. t \<noteq> NumBlobTypes \<longrightarrow> type_blobs idx t = filter (\<lambda>pb. pb_Type pb = t) (file_blobs f))"

lemma DecodeIndex_decoded:
  assumes "file_ok f"
  shows "\<exists>idx. DecodeIndex mh now (Inr f) i = Inr idx \<and> decoded f i idx"
proof -
  have "\<exists>idx'. foldM decode_pack (NewIndex mh now) f = Inr idx' \<and> index_inv idx'
     \<and> x_packs idx' = x_packs (NewIndex mh now) @ map pj_ID f \<and> x_ids idx' = x_ids (NewIndex mh now)
     \<and> (\<forall>t. t \<noteq> NumBlobTypes \<longrightarrow> type_blobs idx' t = type_blobs (NewIndex mh now) t
          @ filter (\<lambda>pb. pb_Type pb = t) (concat (map group_blobs f)))"
    using assms by (intro decode_packs_ok NewIndex_inv(1)) (simp_all add: NewIndex_inv(2) file_ok_def file_blobs_def)
  then obtain idx' where "foldM decode_pack (NewIndex mh now) f = Inr idx'" "index_inv idx'" "x_packs idx' = map pj_ID f"
    "x_ids idx' = []" "\<forall>t. t \<noteq> NumBlobTypes \<longrightarrow> type_blobs idx' t = filter (\<lambda>pb. pb_Type pb = t) (concat (map group_blobs f))"
    by (auto simp: NewIndex_inv(2))
  then show ?thesis by (auto simp: DecodeIndex_def decoded_def file_blobs_def)
qed

lemma decoded_blobs: "file_ok f \<Longrightarrow> decoded f i idx \<Longrightarrow> set (index_blobs idx) = set (file_blobs f)"
proof -
  assume f: "file_ok f" "decoded f i idx"
  have "pb_Type pb \<noteq> NumBlobTypes" if "pb \<in> set (file_blobs f)" for pb
    using that f(1) by (auto simp: file_ok_def file_blobs_def group_blobs_def u32_blob_def)
  then show ?thesis using f(2) by (auto simp: set_index_blobs decoded_def)
qed

lemma decoded_retained: "decoded f i (idx\<lparr>x_workingRetained := b\<rparr>) = decoded f i idx"
  by (simp add: decoded_def)

lemma load_steps:
  assumes "\<And>i. i \<in> set is \<Longrightarrow> load i = Inr (Inr (files i)) \<and> file_ok (files i)"
  shows "\<exists>xs. foldM (load_step mh now load None loaded) mi is = Inr (mi\<lparr>mi_idx := mi_idx mi @ xs\<rparr>)
    \<and> list_all2 (\<lambda>i x. decoded (files i) i x) (filter (\<lambda>i. i \<notin> loaded) is) xs"
  using assms
proof (induction "is" arbitrary: mi)
  case (Cons i "is")
  show ?case
  proof (cases "i \<in> loaded")
    case True
    then show ?thesis using Cons by (simp add: load_step_def)
  next
    case False
    obtain x where x: "DecodeIndex mh now (Inr (files i)) i = Inr x" "decoded (files i) i x"
      using DecodeIndex_decoded Cons.prems by (meson list.set_intros(1))
    let ?x = "x\<lparr>x_workingRetained := True\<rparr>"
    have l: "load_step mh now load None loaded mi i = Inr (mi\<lparr>mi_idx := mi_idx mi @ [?x]\<rparr>)"
      using False x(1) Cons.prems by (simp add: load_step_def loadIndex_def mi_Insert_def)
    obtain xs where "foldM (load_step mh now load None loaded) (mi\<lparr>mi_idx := mi_idx mi @ [?x]\<rparr>) is
        = Inr (mi\<lparr>mi_idx := mi_idx mi @ ?x # xs\<rparr>)"
      "list_all2 (\<lambda>i x. decoded (files i) i x) (filter (\<lambda>i. i \<notin> loaded) is) xs"
      using Cons.IH [of "mi\<lparr>mi_idx := mi_idx mi @ [?x]\<rparr>"] Cons.prems by auto
    then show ?thesis using l False x(2) by (intro exI [of _ "?x # xs"]) (simp add: decoded_retained)
  qed
qed (auto intro: exI [of _ "[]"])

lemma decoded_sums:
  assumes "list_all2 (\<lambda>i x. decoded (files i) i x) is xs"
  shows "sum_list (map (\<lambda>x. length (x_packs x)) xs) = sum_list (map (\<lambda>i. length (files i)) is)"
    "t \<noteq> NumBlobTypes \<Longrightarrow> sum_list (map (\<lambda>x. length (type_blobs x t)) xs) \<le> sum_list (map (\<lambda>i. length (file_blobs (files i))) is)"
    "concat (map x_ids xs) = is" "filter mergeable xs = xs" "filter (\<lambda>x. \<not> mergeable x) xs = []" "\<forall>x \<in> set xs. index_inv x"
  using assms by (induction rule: list_all2_induct) (auto simp: decoded_def mergeable_def intro: add_mono)

lemma decoded_all_blobs:
  assumes "list_all2 (\<lambda>i x. decoded (files i) i x) is xs" "\<And>i. i \<in> set is \<Longrightarrow> file_ok (files i)"
  shows "\<Union> (set ` index_blobs ` set xs) = (\<Union>i \<in> set is. set (file_blobs (files i)))"
  using assms
proof (induction rule: list_all2_induct)
  case (Cons i "is" x xs)
  then have "set (index_blobs x) = set (file_blobs (files i))" by (intro decoded_blobs) auto
  then show ?case using Cons by auto
qed simp

lemma merge_room_load:
  assumes "list_all2 (\<lambda>i x. decoded (files i) i x) is xs"
    "length (x_packs idx0) + sum_list (map (\<lambda>i. length (files i)) is) \<le> unat maxUint32"
    "\<And>t. t \<noteq> NumBlobTypes \<Longrightarrow>
       length (type_blobs idx0 t) + sum_list (map (\<lambda>i. length (file_blobs (files i))) is) \<le> 2 ^ 36 - 1"
  shows "merge_room (idx0 # xs)"
proof -
  have "sum_list (map (\<lambda>idx. length (type_blobs idx t)) (idx0 # xs)) \<le> 2 ^ 36 - 1" if "t \<noteq> NumBlobTypes" for t
    using decoded_sums(2) [OF assms(1) that] assms(3) [OF that] by simp
  then show ?thesis unfolding merge_room_def using assms(2) decoded_sums(1) [OF assms(1)] by simp
qed

text \<open>\<open>loaded_view files mi ids\<close>: the state after loading exactly the files \<open>ids\<close>: one final index with the
  union of their entries.\<close>

definition loaded_view :: "(ID \<Rightarrow> packJSON list) \<Rightarrow> MasterIndex \<Rightarrow> ID set \<Rightarrow> bool" where
  "loaded_view files mi ids \<longleftrightarrow> (\<exists>idx0. mi_idx mi = [idx0] \<and> index_inv idx0 \<and> x_final idx0 \<and> set (x_ids idx0) = ids
     \<and> set (index_blobs idx0) = (\<Union>i \<in> ids. set (file_blobs (files i))))"

lemma load_merged:
  assumes "mi_idx mi = [idx0]" "index_inv idx0" "x_final idx0"
    "\<And>i. i \<in> set is \<Longrightarrow> load i = Inr (Inr (files i)) \<and> file_ok (files i)"
    "length (x_packs idx0) + sum_list (map (\<lambda>i. length (files i)) is) \<le> unat maxUint32"
    "\<And>t. t \<noteq> NumBlobTypes \<Longrightarrow>
       length (type_blobs idx0 t) + sum_list (map (\<lambda>i. length (file_blobs (files i))) is) \<le> 2 ^ 36 - 1"
    "set (index_blobs idx0) = (\<Union>i \<in> set (x_ids idx0). set (file_blobs (files i)))"
  shows "\<exists>mi'. rbind (foldM (load_step mh now load None loaded) mi is) MergeFinalIndexes = Inr mi'
    \<and> mi_pendingBlobs mi' = mi_pendingBlobs mi \<and> loaded_view files mi' (set (x_ids idx0) \<union> (set is - loaded))"
proof -
  let ?is = "filter (\<lambda>i. i \<notin> loaded) is"
  have "\<exists>xs. foldM (load_step mh now load None loaded) mi is = Inr (mi\<lparr>mi_idx := mi_idx mi @ xs\<rparr>)
      \<and> list_all2 (\<lambda>i x. decoded (files i) i x) ?is xs"
    by (rule load_steps) (rule assms(4))
  then obtain xs where l: "foldM (load_step mh now load None loaded) mi is = Inr (mi\<lparr>mi_idx := idx0 # xs\<rparr>)"
    "list_all2 (\<lambda>i x. decoded (files i) i x) ?is xs"
    unfolding assms(1) append.simps by blast
  note d = decoded_sums [OF l(2)]
  have le: "sum_list (map f ?is) \<le> sum_list (map f is)" for f :: "ID \<Rightarrow> nat"
    by (rule sum_list_filter_le_nat)
  have "merge_room (idx0 # xs)"
    by (rule merge_room_load [OF l(2)])
      (rule order_trans [OF add_left_mono [OF le] assms(5)], rule order_trans [OF add_left_mono [OF le] assms(6)])
  moreover have "mi_ok (mi\<lparr>mi_idx := idx0 # xs\<rparr>)" using d(6) assms(2) by (auto simp: mi_ok_def)
  ultimately obtain idx0' where m: "MergeFinalIndexes (mi\<lparr>mi_idx := idx0 # xs\<rparr>) = Inr (mi\<lparr>mi_idx := [idx0']\<rparr>)"
    "merged_into idx0 xs idx0'"
    using MergeFinalIndexes_merged [of "mi\<lparr>mi_idx := idx0 # xs\<rparr>" idx0 xs] d(4,5) by auto
  have "\<Union> (set ` index_blobs ` set xs) = (\<Union>i \<in> set ?is. set (file_blobs (files i)))"
    using decoded_all_blobs [OF l(2)] assms(4) by auto
  then have "set (index_blobs idx0') = (\<Union>i \<in> set (x_ids idx0) \<union> (set is - loaded). set (file_blobs (files i)))"
    using merged_into_blobs [OF m(2)] assms(7) by auto
  moreover have "set (x_ids idx0') = set (x_ids idx0) \<union> (set is - loaded)"
    using m(2) arg_cong [OF d(3), of set] by (auto simp: merged_into_def)
  ultimately show ?thesis
    using l(1) m assms(3) by (auto simp: loaded_view_def merged_into_def)
qed

section \<open>Main results\<close>

text \<open>A master index with one empty final index, and a small index file.\<close>

definition sample_master :: MasterIndex where
  "sample_master = NewMasterIndex (\<lambda>_ _. 5) 0"

definition sample_file :: "packJSON list" where
  "sample_file = [\<lparr>pj_ID = replicate 32 1, pj_Blobs = [to_blobJSON \<lparr>pb_Pack = replicate 32 1, pb_Blob = sample_blob\<rparr>]\<rparr>]"

lemma sample_master_ok: "mi_idx sample_master = [Finalize sample_index]" "mi_ok sample_master" "mi_pendingBlobs sample_master = []"
  "mi_blobs sample_master = []"
proof -
  show i: "mi_idx sample_master = [Finalize sample_index]" "mi_pendingBlobs sample_master = []"
    by (simp_all add: sample_master_def NewMasterIndex_def mi_clear_def sample_index_def)
  show "mi_ok sample_master" by (simp add: mi_ok_def i Finalize_def sample_index_ok)
  show "mi_blobs sample_master = []"
    by (simp add: mi_blobs_def i Finalize_def index_blobs_def array_blob_types_def sample_index_ok(6))
qed

lemma sample_file_ok: "file_ok sample_file" "length sample_file = 1" "length (file_blobs sample_file) = 1"
proof -
  show l: "length sample_file = 1" "length (file_blobs sample_file) = 1"
    by (simp_all add: sample_file_def file_blobs_def group_blobs_def)
  have "unat maxUint32 = 4294967295" by (simp add: maxUint32_def)
  then show "file_ok sample_file" using sample_index_ok(7) l(2) by (simp add: file_ok_def sample_file_def)
qed

text \<open>C21: A blob is claimed for upload exactly once: \<^verbatim>\<open>AddPending\<close> succeeds exactly when the blob is neither
  pending nor in an index; afterwards the blob is found by \<^verbatim>\<open>LookupSize\<close>, a second claim fails, and
  no other blob's status has changed.\<close>

theorem AddPending_once:
  assumes "mi_ok mi" and "bh_Type bh \<noteq> NumBlobTypes"
  shows "\<exists>mi'. AddPending mi bh sz = Inr (mi', \<not> known mi bh) \<and> (\<exists>s. mi_LookupSize mi' bh = Inr (s, True))
    \<and> AddPending mi' bh sz' = Inr (mi', False) \<and> (\<forall>h. h \<noteq> bh \<longrightarrow> known mi' h = known mi h)"
proof -
  obtain mi' where m: "AddPending mi bh sz = Inr (mi', \<not> known mi bh)" "mi_idx mi' = mi_idx mi"
    "\<forall>h. known mi' h \<longleftrightarrow> known mi h \<or> h = bh"
    using AddPending_known [OF assms] by blast
  have ok: "mi_ok mi'" using assms(1) m(2) by (simp add: mi_ok_def)
  have "AddPending mi' bh sz' = Inr (mi', False)"
    using m(3) any_has_handles [of "mi_idx mi'" bh] ok assms(2)
    by (auto simp: AddPending_def known_def mi_handles_def mi_blobs_def mi_ok_def map_of_eq_None_iff)
  then show ?thesis using m mi_LookupSize_known [OF ok assms(2)] by auto
qed

theorem AddPending_once_witness:
  "\<exists>mi'. AddPending sample_master (b_Handle sample_blob) 8 = Inr (mi', \<not> known sample_master (b_Handle sample_blob))
    \<and> (\<exists>s. mi_LookupSize mi' (b_Handle sample_blob) = Inr (s, True))
    \<and> AddPending mi' (b_Handle sample_blob) 9 = Inr (mi', False)
    \<and> (\<forall>h. h \<noteq> b_Handle sample_blob \<longrightarrow> known mi' h = known sample_master h)"
  by (rule AddPending_once) (simp_all add: sample_master_ok sample_blob_def)

text \<open>C22: Storing a finished pack never forgets a blob: every blob known before is known afterwards, the
  pack's blobs leave the pending set and are found in the index in that pack, and the only new
  entries are those of the pack.\<close>

theorem storePack_keeps_known:
  assumes "mi_ok mi" and "\<forall>b \<in> set blobs. u32_blob b" and "mi_room mi (length blobs)"
  shows "\<exists>mi' k. storePack mh now mi i blobs = Inr (mi', k) \<and> mi_ok mi'
    \<and> (\<forall>h. known mi' h \<longleftrightarrow> known mi h \<or> h \<in> b_Handle ` set blobs)
    \<and> (\<forall>b \<in> set blobs. b_Handle b \<notin> fst ` set (mi_pendingBlobs mi')
        \<and> (\<exists>pbs. mi_Lookup mi' (b_Handle b) = Inr pbs \<and> \<lparr>pb_Pack = i, pb_Blob = b\<rparr> \<in> set pbs))
    \<and> set (mi_blobs mi') = set (mi_blobs mi) \<union> (\<lambda>b. \<lparr>pb_Pack = i, pb_Blob = b\<rparr>) ` set blobs"
proof -
  obtain mi' k where s: "storePack mh now mi i blobs = Inr (mi', k)" "mi_ok mi'"
    "set (mi_blobs mi') = set (mi_blobs mi) \<union> (\<lambda>b. \<lparr>pb_Pack = i, pb_Blob = b\<rparr>) ` set blobs"
    "fst ` set (mi_pendingBlobs mi') = fst ` set (mi_pendingBlobs mi) - b_Handle ` set blobs"
    using storePack_known [OF assms, of mh now i] by blast
  have "mi_handles mi' = mi_handles mi \<union> b_Handle ` set blobs" 
    unfolding mi_handles_def s(3) image_Un image_image by simp
  then have "known mi' h \<longleftrightarrow> known mi h \<or> h \<in> b_Handle ` set blobs" for h by (auto simp: known_def s(4))
  moreover have "\<exists>pbs. mi_Lookup mi' (b_Handle b) = Inr pbs \<and> \<lparr>pb_Pack = i, pb_Blob = b\<rparr> \<in> set pbs" if "b \<in> set blobs" for b
  proof -
    have "bh_Type (b_Handle b) \<noteq> NumBlobTypes" using assms(2) that by (simp add: u32_blob_def)
    from mi_Lookup_blobs [OF s(2) this] obtain pbs where "mi_Lookup mi' (b_Handle b) = Inr pbs"
      "set pbs = {pb \<in> set (mi_blobs mi'). pb_Handle pb = b_Handle b}" by blast
    then show ?thesis using that by (simp add: s(3))
  qed
  moreover have "\<forall>b \<in> set blobs. b_Handle b \<notin> fst ` set (mi_pendingBlobs mi')" by (simp add: s(4))
  ultimately show ?thesis using s(1-3) by (intro exI [of _ mi'] exI [of _ k] conjI) simp_all
qed

theorem storePack_keeps_known_witness:
  "\<exists>mi' k. storePack (\<lambda>_ _. 5) 0 sample_master (replicate 32 1) [sample_blob] = Inr (mi', k) \<and> mi_ok mi'
    \<and> (\<forall>h. known mi' h \<longleftrightarrow> known sample_master h \<or> h \<in> b_Handle ` set [sample_blob])
    \<and> (\<forall>b \<in> set [sample_blob]. b_Handle b \<notin> fst ` set (mi_pendingBlobs mi')
        \<and> (\<exists>pbs. mi_Lookup mi' (b_Handle b) = Inr pbs \<and> \<lparr>pb_Pack = replicate 32 1, pb_Blob = b\<rparr> \<in> set pbs))
    \<and> set (mi_blobs mi') = set (mi_blobs sample_master) \<union> (\<lambda>b. \<lparr>pb_Pack = replicate 32 1, pb_Blob = b\<rparr>) ` set [sample_blob]"
  by (rule storePack_keeps_known)
    (simp_all add: sample_master_ok sample_index_ok mi_room_def Finalize_def)

text \<open>C20: Merging the saved indexes into the first one loses and invents nothing: the entries, the file
  IDs and the pending blobs are the same, every index that was not yet saved is still there, and the
  position \<^verbatim>\<open>blobIndex\<close> reports for a blob of the first index is unchanged (which
  \<^verbatim>\<open>AssociatedSet\<close> relies on).\<close>

theorem MergeFinalIndexes_keeps:
  assumes "mi_idx mi = idx0 # idxs" and "x_final idx0" and "mi_ok mi" and "merge_room (mi_idx mi)"
  shows "\<exists>mi'. MergeFinalIndexes mi = Inr mi' \<and> mi_ok mi' \<and> set (mi_blobs mi') = set (mi_blobs mi)
    \<and> mi_IDs mi' = mi_IDs mi \<and> mi_pendingBlobs mi' = mi_pendingBlobs mi
    \<and> tl (mi_idx mi') = filter (\<lambda>idx. \<not> (x_final idx \<and> x_ids idx \<noteq> [])) idxs
    \<and> (\<forall>bh p. bh_Type bh \<noteq> NumBlobTypes \<longrightarrow> blobIndex mi bh = Inr p \<longrightarrow> p \<noteq> -1 \<longrightarrow> blobIndex mi' bh = Inr p)"
proof -
  obtain idx0' where m: "MergeFinalIndexes mi = Inr (mi\<lparr>mi_idx := idx0' # filter (\<lambda>idx. \<not> mergeable idx) idxs\<rparr>)"
    "merged_into idx0 (filter mergeable idxs) idx0'"
    using MergeFinalIndexes_merged [OF assms(1,3,4)] by blast
  let ?mi = "mi\<lparr>mi_idx := idx0' # filter (\<lambda>idx. \<not> mergeable idx) idxs\<rparr>"
  have inv: "index_inv idx0" "index_inv idx0'" "x_final idx0'" "mi_ok ?mi"
    using assms(1,2,3) m(2) by (auto simp: mi_ok_def merged_into_def)
  have "set (mi_blobs ?mi) = set (mi_blobs mi)"
    using merged_into_blobs [OF m(2)] by (auto simp: mi_blobs_def assms(1))
  moreover have "x_ids idx0' = x_ids idx0 @ concat (map x_ids (filter mergeable idxs))"
    using m(2) by (simp add: merged_into_def)
  then have "mi_IDs ?mi = mi_IDs mi" using inv(3) by (auto simp: mi_IDs_def assms(1,2) index_IDs_def mergeable_def)
  moreover have "blobIndex ?mi bh = Inr p"
    if t: "bh_Type bh \<noteq> NumBlobTypes" and p: "blobIndex mi bh = Inr p" "p \<noteq> -1" for bh p
  proof -
    have q: "p = id_pos (bh_ID bh) (type_ids idx0 (bh_Type bh))"
      using p(1) BlobIndex_pos [OF inv(1) t] by (simp add: blobIndex_def assms(1))
    then have "bh_ID bh \<in> set (type_ids idx0 (bh_Type bh))" using p(2) by (auto simp: id_pos_def split: if_splits)
    from id_pos_prefix [OF this merged_into_ids [OF m(2) t]] show ?thesis
      using q BlobIndex_pos [OF inv(2) t] by (simp add: blobIndex_def)
  qed
  ultimately show ?thesis using m(1) inv(4) by (intro exI [of _ ?mi]) (simp add: mergeable_def)
qed

theorem MergeFinalIndexes_keeps_witness:
  "let mi = sample_master\<lparr>mi_idx := [Finalize sample_index, Finalize sample_index\<lparr>x_ids := [nullID]\<rparr>, sample_index]\<rparr> in
   \<exists>mi'. MergeFinalIndexes mi = Inr mi' \<and> mi_ok mi' \<and> set (mi_blobs mi') = set (mi_blobs mi)
    \<and> mi_IDs mi' = mi_IDs mi \<and> mi_pendingBlobs mi' = mi_pendingBlobs mi
    \<and> tl (mi_idx mi') = filter (\<lambda>idx. \<not> (x_final idx \<and> x_ids idx \<noteq> [])) [Finalize sample_index\<lparr>x_ids := [nullID]\<rparr>, sample_index]
    \<and> (\<forall>bh p. bh_Type bh \<noteq> NumBlobTypes \<longrightarrow> blobIndex mi bh = Inr p \<longrightarrow> p \<noteq> -1 \<longrightarrow> blobIndex mi' bh = Inr p)"
  unfolding Let_def
  by (rule MergeFinalIndexes_keeps [where ?idx0.0 = "Finalize sample_index"])
    (simp_all add: Finalize_def mi_ok_def merge_room_def sample_index_ok)

text \<open>C19: An incremental load gives the same view as loading everything into a new master index: after
  \<^verbatim>\<open>Load\<close> the master index holds one final index with exactly the entries of the files now listed, and
  their IDs, whether files were added or removed since the previous load.\<close>

theorem Load_incremental:
  assumes "loaded_view files mi ids"
    and "\<forall>i \<in> set listed. load i = Inr (Inr (files i)) \<and> file_ok (files i)"
    and "\<forall>idx \<in> set (mi_idx mi). length (x_packs idx) + sum_list (map (\<lambda>i. length (files i)) listed) \<le> unat maxUint32
      \<and> (\<forall>t. t \<noteq> NumBlobTypes \<longrightarrow>
            length (type_blobs idx t) + sum_list (map (\<lambda>i. length (file_blobs (files i))) listed) \<le> 2 ^ 36 - 1)"
  shows "\<exists>mi'. mi_Load mh now load None mi listed = Inr mi' \<and> loaded_view files mi' (set listed) \<and> mi_pendingBlobs mi' = []"
proof -
  from assms(1) obtain idx0 where v: "mi_idx mi = [idx0]" "index_inv idx0" "x_final idx0" "set (x_ids idx0) = ids"
    "set (index_blobs idx0) = (\<Union>i \<in> set (x_ids idx0). set (file_blobs (files i)))"
    by (auto simp: loaded_view_def)
  have f: "\<And>i. i \<in> set listed \<Longrightarrow> load i = Inr (Inr (files i)) \<and> file_ok (files i)" using assms(2) by blast
  show ?thesis
  proof (cases "ids \<subseteq> set listed")
    case True
    then have p: "prepareIncrementalLoad mh now mi listed = Inr (clearPendingBlobs mi, ids)"
      using v by (auto simp: prepareIncrementalLoad_def clearPendingBlobs_def index_IDs_def)
    have "\<exists>mi'. rbind (foldM (load_step mh now load None ids) (clearPendingBlobs mi) listed) MergeFinalIndexes = Inr mi'
        \<and> mi_pendingBlobs mi' = mi_pendingBlobs (clearPendingBlobs mi)
        \<and> loaded_view files mi' (set (x_ids idx0) \<union> (set listed - ids))"
      using assms(3) v by (intro load_merged f) (auto simp: clearPendingBlobs_def)
    moreover have "set (x_ids idx0) \<union> (set listed - ids) = set listed" using True v(4) by auto
    ultimately show ?thesis using p by (auto simp: mi_Load_def clearPendingBlobs_def)
  next
    case False
    let ?mi = "fst (mi_clear mh now (clearPendingBlobs mi))"
    have i: "mi_idx ?mi = [Finalize (NewIndex mh now)]" "mi_pendingBlobs ?mi = []" by (simp_all add: mi_clear_def)
    have p: "prepareIncrementalLoad mh now mi listed = Inr (?mi, {})"
      using False v by (auto simp: prepareIncrementalLoad_def clearPendingBlobs_def index_IDs_def)
    have e: "index_blobs (Finalize (NewIndex mh now)) = []"
      by (simp add: index_blobs_def array_blob_types_def Finalize_def NewIndex_inv(2))
    have "\<exists>mi'. rbind (foldM (load_step mh now load None {}) ?mi listed) MergeFinalIndexes = Inr mi'
        \<and> mi_pendingBlobs mi' = mi_pendingBlobs ?mi
        \<and> loaded_view files mi' (set (x_ids (Finalize (NewIndex mh now))) \<union> (set listed - {}))"
    proof (intro load_merged f)
      show "length (x_packs (Finalize (NewIndex mh now))) + sum_list (map (\<lambda>i. length (files i)) listed) \<le> unat maxUint32"
        using assms(3) v(1) by (simp add: Finalize_def)
      show "length (type_blobs (Finalize (NewIndex mh now)) t) + sum_list (map (\<lambda>i. length (file_blobs (files i))) listed) \<le> 2 ^ 36 - 1"
        if "t \<noteq> NumBlobTypes" for t
      proof -
        have "length (type_blobs idx0 t) + sum_list (map (\<lambda>i. length (file_blobs (files i))) listed) \<le> 2 ^ 36 - 1"
          using assms(3) v(1) that by simp
        then show ?thesis using that by (simp add: Finalize_def NewIndex_inv(2))
      qed
    qed (use i e in \<open>simp_all add: Finalize_def NewIndex_inv(1)\<close>)
    then show ?thesis using p i(2) by (auto simp: mi_Load_def Finalize_def)
  qed
qed

theorem Load_incremental_witness:
  "\<exists>mi'. mi_Load (\<lambda>_ _. 5) 0 (\<lambda>_. Inr (Inr sample_file)) None sample_master [replicate 32 2] = Inr mi'
     \<and> loaded_view (\<lambda>_. sample_file) mi' (set [replicate 32 2]) \<and> mi_pendingBlobs mi' = []"
  by (rule Load_incremental [where ids = "{}"])
    (auto simp: loaded_view_def sample_master_ok Finalize_def sample_index_ok sample_file_ok maxUint32_def index_blobs_def
       array_blob_types_def)



end
