(* ===== verification/Index_Rewrite.thy ===== *)
theory Index_Rewrite
  imports Master_Index
begin

text \<open>
  Rewriting the index files, \<^verbatim>\<open>MasterIndex.Rewrite\<close> and \<^verbatim>\<open>SaveFallback\<close> of
  \<^verbatim>\<open>internal/repository/index/master_index.go\<close>: the packs in \<open>excludePacks\<close> are removed from all indexes;
  indexes that need no change are kept, the others are copied into new ones and become obsolete.

  The goroutines of the pipeline communicate over channels. The model runs the one rewriter goroutine
  on the indexes in the order in which it receives them, which may be any, and yields the sequence it
  sends to the savers. The hash that recognises packs seen before is a parameter; the results assume
  that it has no collision on the packs at hand.
\<close>

section \<open>Model\<close>

text \<open>\<^verbatim>\<open>PackBlobsHash\<close>: the hashed bytes, and SHA-256 as a parameter. \<^verbatim>\<open>Blobs.Sort\<close> orders by offset
  (blobs at one offset, whose order Go leaves open, stay in their order).\<close>

definition blob_hash_bytes :: "Blob \<Rightarrow> bytes" where
  "blob_hash_bytes b = bh_ID (b_Handle b) @ put_u32_le (of_nat (blob_type_num (bh_Type (b_Handle b))))
     @ put_u32_le (ucast (b_Offset b)) @ put_u32_le (ucast (b_Length b)) @ put_u32_le (ucast (b_UncompressedLength b))"

definition pack_hash_bytes :: "PackBlobs \<Rightarrow> bytes" where
  "pack_hash_bytes pbs = pbs_PackID pbs @ concat (map blob_hash_bytes (sort_key b_Offset (pbs_Blobs pbs)))"

definition PackBlobsHash :: "(bytes \<Rightarrow> ID) \<Rightarrow> PackBlobs \<Rightarrow> ID" where
  "PackBlobsHash sha256 pbs = sha256 (pack_hash_bytes pbs)"

text \<open>\<^verbatim>\<open>Full\<close> is a variable of the package and reads the clock: here a predicate \<open>full\<close> on indexes.\<close>

definition keepCurrentIndex ::
  "(bytes \<Rightarrow> ID) \<Rightarrow> (Index \<Rightarrow> bool) \<Rightarrow> ID set \<Rightarrow> Index \<Rightarrow> ID set \<Rightarrow> (bool \<times> ID set) result" where
  "keepCurrentIndex sha256 full excludePacks idx packBlobsIDSet =
     (if Packs idx \<inter> excludePacks \<noteq> {} \<or> \<not> full idx \<or> Oversized idx then Inr (False, packBlobsIDSet)
      else rbind (EachByPack idx excludePacks) (\<lambda>groups.
        let idxPackBlobsIDSet = set (map (PackBlobsHash sha256) groups) in
        if idxPackBlobsIDSet \<inter> packBlobsIDSet \<noteq> {} then Inr (False, packBlobsIDSet)
        else Inr (True, packBlobsIDSet \<union> idxPackBlobsIDSet)))"

definition markObsolete :: "Index \<Rightarrow> ID set result" where
  "markObsolete idx = (case index_IDs idx of
     Inl _ \<Rightarrow> Inl (Panic ''internal error, index has no ID'')
   | Inr ids \<Rightarrow> if length ids \<noteq> 1 then Inl (Panic ''internal error, index has no ID'') else Inr (set ids))"

text \<open>The state of the rewriter: the hashes seen, the index being filled, the full indexes already sent
  to the savers and the IDs of the indexes to remove.\<close>

record rewriter =
  rw_seen :: "ID set"
  rw_new :: Index
  rw_saved :: "Index list"
  rw_obsolete :: "ID set"
  rw_kept :: "Index list"

definition copy_pack :: "(bytes \<Rightarrow> ID) \<Rightarrow> hash_seeds \<Rightarrow> int \<Rightarrow> (Index \<Rightarrow> bool) \<Rightarrow> rewriter \<Rightarrow> PackBlobs \<Rightarrow> rewriter result" where
  "copy_pack sha256 mh now full rw pbs = (let packBlobsID = PackBlobsHash sha256 pbs in
     if packBlobsID \<in> rw_seen rw then Inr rw
     else rbind (StorePack (rw_new rw) (pbs_PackID pbs) (pbs_Blobs pbs)) (\<lambda>newIndex.
       let rw = rw\<lparr>rw_seen := insert packBlobsID (rw_seen rw)\<rparr> in
       if full newIndex then Inr (rw\<lparr>rw_saved := rw_saved rw @ [newIndex], rw_new := NewIndex mh now\<rparr>)
       else Inr (rw\<lparr>rw_new := newIndex\<rparr>)))"

definition copyIndexPacks ::
  "(bytes \<Rightarrow> ID) \<Rightarrow> hash_seeds \<Rightarrow> int \<Rightarrow> (Index \<Rightarrow> bool) \<Rightarrow> ID set \<Rightarrow> rewriter \<Rightarrow> Index \<Rightarrow> rewriter result" where
  "copyIndexPacks sha256 mh now full excludePacks rw idx =
     rbind (EachByPack idx excludePacks) (foldM (copy_pack sha256 mh now full) rw)"

definition rewrite_task ::
  "(bytes \<Rightarrow> ID) \<Rightarrow> hash_seeds \<Rightarrow> int \<Rightarrow> (Index \<Rightarrow> bool) \<Rightarrow> ID set \<Rightarrow> rewriter \<Rightarrow> Index \<Rightarrow> rewriter result" where
  "rewrite_task sha256 mh now full excludePacks rw idx =
     rbind (keepCurrentIndex sha256 full excludePacks idx (rw_seen rw)) (\<lambda>(keep, seen).
       if keep then Inr (rw\<lparr>rw_seen := seen, rw_kept := rw_kept rw @ [idx]\<rparr>)
       else rbind (markObsolete idx) (\<lambda>ids.
         copyIndexPacks sha256 mh now full excludePacks (rw\<lparr>rw_obsolete := rw_obsolete rw \<union> ids\<rparr>) idx))"

definition rewriteIndexes ::
  "(bytes \<Rightarrow> ID) \<Rightarrow> hash_seeds \<Rightarrow> int \<Rightarrow> (Index \<Rightarrow> bool) \<Rightarrow> ID set \<Rightarrow> ID set \<Rightarrow> Index list \<Rightarrow> rewriter result" where
  "rewriteIndexes sha256 mh now full excludePacks extraObsolete idxs =
     rbind (foldM (rewrite_task sha256 mh now full excludePacks)
              \<lparr>rw_seen = {}, rw_new = NewIndex mh now, rw_saved = [], rw_obsolete = extraObsolete, rw_kept = []\<rparr> idxs)
       (\<lambda>rw. Inr (rw\<lparr>rw_saved := rw_saved rw @ [rw_new rw]\<rparr>))"

text \<open>One saver: an index without packs is not written.\<close>

definition save_rewritten :: "saver \<Rightarrow> MasterIndex \<Rightarrow> Index \<Rightarrow> (MasterIndex \<times> ID list) result" where
  "save_rewritten save mi idx = (let idx = Finalize idx in
     if x_packs idx = [] then Inr (mi, [])
     else rbind (SaveIndex save idx) (\<lambda>(idx, i, err). case err of Some e \<Rightarrow> Inl e
       | None \<Rightarrow> Inr (mi_Insert mi idx, [i])))"

text \<open>The loaders: every index file is read and decoded.\<close>

definition startLoaders :: "hash_seeds \<Rightarrow> int \<Rightarrow> index_loader \<Rightarrow> ID list \<Rightarrow> Index list result" where
  "startLoaders mh now load indexes = mapM (\<lambda>i. case load i of
     Inl e \<Rightarrow> Inl (Wrap ''LoadUnpacked'' e) | Inr idxJSON \<Rightarrow> DecodeIndex mh now idxJSON i) indexes"

text \<open>What is asked of the backend at the end: the IDs of the index files to delete, and those reported to
  the caller instead.\<close>

definition deleteObsoleteIndexes :: "bool \<Rightarrow> ID set \<Rightarrow> ID set \<times> ID set" where
  "deleteObsoleteIndexes skipObsoleteDelete obsolete =
     (if skipObsoleteDelete then ({}, obsolete) else (obsolete, {}))"

record rewrite_result =
  rr_master :: MasterIndex
  rr_saved :: "ID list"
  rr_deleted :: "ID set"
  rr_reported :: "ID set"

text \<open>\<open>order\<close> lists the elements of a set, as ranging over a Go map does.\<close>

definition Rewrite ::
  "(bytes \<Rightarrow> ID) \<Rightarrow> hash_seeds \<Rightarrow> int \<Rightarrow> (Index \<Rightarrow> bool) \<Rightarrow> index_loader \<Rightarrow> saver \<Rightarrow> (ID set \<Rightarrow> ID list)
     \<Rightarrow> MasterIndex \<Rightarrow> ID set \<Rightarrow> ID set option \<Rightarrow> ID set \<Rightarrow> bool \<Rightarrow> rewrite_result result" where
  "Rewrite sha256 mh now full load save order mi excludePacks oldIndexes extraObsolete skipObsoleteDelete =
     (if \<exists>idx \<in> set (mi_idx mi). \<not> x_final idx
      then Inl (Panic ''internal error - index must be saved before calling MasterIndex.Rewrite'')
      else let indexes = (case oldIndexes of None \<Rightarrow> mi_IDs mi | Some ids \<Rightarrow> ids);
               mi = fst (mi_clear mh now mi) in
        case rbind (startLoaders mh now load (order indexes)) (\<lambda>idxs.
               rbind (rewriteIndexes sha256 mh now full excludePacks extraObsolete idxs) (\<lambda>rw.
                 rbind (foldM (\<lambda>(mi, saved) idx. rbind (save_rewritten save mi idx) (\<lambda>(mi, ids). Inr (mi, saved @ ids)))
                          (mi, []) (rw_saved rw)) (\<lambda>(mi, saved). Inr (mi, saved, rw_obsolete rw)))) of
          Inl e \<Rightarrow> Inl (Wrap ''failed to rewrite indexes'' e)
        | Inr (mi, saved, obsolete) \<Rightarrow> let (del, report) = deleteObsoleteIndexes skipObsoleteDelete obsolete in
            Inr \<lparr>rr_master = mi, rr_saved = saved, rr_deleted = del, rr_reported = report\<rparr>)"

text \<open>\<^verbatim>\<open>SaveFallback\<close>: all known indexes are copied into new ones, without looking for packs seen before.\<close>

definition fallback_pack :: "hash_seeds \<Rightarrow> int \<Rightarrow> (Index \<Rightarrow> bool) \<Rightarrow> Index list \<times> Index \<Rightarrow> PackBlobs \<Rightarrow> (Index list \<times> Index) result" where
  "fallback_pack mh now full = (\<lambda>(sent, newIndex) pbs.
     rbind (StorePack newIndex (pbs_PackID pbs) (pbs_Blobs pbs)) (\<lambda>newIndex.
       if full newIndex then Inr (sent @ [newIndex], NewIndex mh now) else Inr (sent, newIndex)))"

definition fallback_indexes :: "hash_seeds \<Rightarrow> int \<Rightarrow> (Index \<Rightarrow> bool) \<Rightarrow> ID set \<Rightarrow> MasterIndex \<Rightarrow> Index list result" where
  "fallback_indexes mh now full excludePacks mi =
     rbind (foldM (\<lambda>st idx. rbind (EachByPack idx excludePacks) (foldM (fallback_pack mh now full) st))
              ([], NewIndex mh now) (mi_idx mi))
       (\<lambda>(sent, newIndex). Inr (sent @ [newIndex]))"

definition SaveFallback ::
  "hash_seeds \<Rightarrow> int \<Rightarrow> (Index \<Rightarrow> bool) \<Rightarrow> saver \<Rightarrow> ID set \<Rightarrow> MasterIndex \<Rightarrow> (MasterIndex \<times> ID list) result" where
  "SaveFallback mh now full save excludePacks mi =
     rbind (fallback_indexes mh now full excludePacks mi) (\<lambda>idxs.
       rbind (mapM (\<lambda>idx. rbind (SaveIndex save (Finalize idx)) (\<lambda>(_, i, err). case err of Some e \<Rightarrow> Inl e | None \<Rightarrow> Inr i)) idxs)
         (\<lambda>ids. Inr (fst (mi_clear mh now mi), ids)))"

section \<open>The entries of a group\<close>

definition group_entries :: "PackBlobs \<Rightarrow> PackedBlob set" where
  "group_entries g = (\<lambda>b. \<lparr>pb_Pack = pbs_PackID g, pb_Blob = b\<rparr>) ` set (pbs_Blobs g)"

definition group_ok :: "PackBlobs \<Rightarrow> bool" where
  "group_ok g \<longleftrightarrow> pbs_Blobs g \<noteq> [] \<and> (\<forall>b \<in> set (pbs_Blobs g). u32_blob b)"

lemma sum_classes:
  "distinct ps \<Longrightarrow> sum_list (map (\<lambda>p. length (filter (\<lambda>x. f x = p) xs)) ps) \<le> length xs"
proof (induction xs)
  case (Cons x xs)
  have "sum_list (map (\<lambda>p. length (filter (\<lambda>x. f x = p) (x # xs))) ps)
      = sum_list (map (\<lambda>p. length (filter (\<lambda>x. f x = p) xs)) ps) + sum_list (map (\<lambda>p. if f x = p then 1 else 0) ps)"
    unfolding sum_list_addf [symmetric] by (rule arg_cong [of _ _ sum_list], rule map_cong) auto
  moreover have "sum_list (map (\<lambda>p. if f x = p then 1 else 0 :: nat) ps) \<le> 1"
    using Cons.prems by (induction ps) auto
  ultimately show ?case using Cons by simp
qed simp

lemma group_entries_filter:
  assumes "pbs_Blobs g = map pb_Blob (filter (\<lambda>pb. pb_Pack pb = pbs_PackID g) vs)"
  shows "group_entries g = {pb \<in> set vs. pb_Pack pb = pbs_PackID g}"
proof -
  have "\<lparr>pb_Pack = pbs_PackID g, pb_Blob = pb_Blob pb\<rparr> = pb" if "pb_Pack pb = pbs_PackID g" for pb :: PackedBlob
    using that by (cases pb) simp
  then have "(\<lambda>pb. \<lparr>pb_Pack = pbs_PackID g, pb_Blob = pb_Blob pb\<rparr>) ` {pb \<in> set vs. pb_Pack pb = pbs_PackID g}
      = (\<lambda>pb. pb) ` {pb \<in> set vs. pb_Pack pb = pbs_PackID g}" by (intro image_cong) auto
  then show ?thesis by (simp add: group_entries_def assms image_image)
qed

lemma EachByPack_groups:
  assumes "index_inv idx"
  shows "\<exists>gs. EachByPack idx bl = Inr gs \<and> (\<forall>g \<in> set gs. group_ok g)
    \<and> sum_list (map (\<lambda>g. length (pbs_Blobs g)) gs) \<le> length (index_blobs idx)
    \<and> \<Union> (group_entries ` set gs) = {pb \<in> set (index_blobs idx). \<not> x_final idx \<or> pb_Pack pb \<notin> bl}"
proof -
  obtain gs where g: "EachByPack idx bl = Inr gs" "distinct (map pbs_PackID gs)"
    and ids: "\<forall>p. p \<in> pbs_PackID ` set gs \<longleftrightarrow> p \<in> pb_Pack ` set (index_blobs idx) \<and> (\<not> x_final idx \<or> p \<notin> bl)"
    and bs: "\<forall>g \<in> set gs. pbs_Blobs g = map pb_Blob (filter (\<lambda>pb. pb_Pack pb = pbs_PackID g) (index_blobs idx))"
    by (rule EachByPack_blobs [OF assms, of bl]) blast
  note g = g ids [rule_format] bs [rule_format]
  have e: "group_entries g = {pb \<in> set (index_blobs idx). pb_Pack pb = pbs_PackID g}" if "g \<in> set gs" for g
    by (rule group_entries_filter [OF g(4) [OF that]])
  have "group_ok g" if "g \<in> set gs" for g
  proof -
    have "pbs_PackID g \<in> pb_Pack ` set (index_blobs idx)" using g(3) [of "pbs_PackID g"] that by blast
    then have "pbs_Blobs g \<noteq> []" using g(4) [OF that] by (auto simp: filter_empty_conv)
    moreover have "u32_blob b" if "b \<in> set (pbs_Blobs g)" for b
      using that g(4) [OF \<open>g \<in> set gs\<close>] u32_index_blobs by auto
    ultimately show ?thesis by (simp add: group_ok_def)
  qed
  moreover have "map (\<lambda>g. length (pbs_Blobs g)) gs
      = map (\<lambda>p. length (filter (\<lambda>pb. pb_Pack pb = p) (index_blobs idx))) (map pbs_PackID gs)"
    using g(4) by simp
  then have "sum_list (map (\<lambda>g. length (pbs_Blobs g)) gs) \<le> length (index_blobs idx)"
    using sum_classes [OF g(2), of pb_Pack "index_blobs idx"] by (simp only:)
  moreover have "\<Union> (group_entries ` set gs) = {pb \<in> set (index_blobs idx). pb_Pack pb \<in> pbs_PackID ` set gs}"
    using e by auto
  then have "\<Union> (group_entries ` set gs) = {pb \<in> set (index_blobs idx). \<not> x_final idx \<or> pb_Pack pb \<notin> bl}"
    unfolding g(3) by auto
  ultimately show ?thesis using g(1) by blast
qed

section \<open>Filling new indexes\<close>

definition new_ok :: "Index \<Rightarrow> nat \<Rightarrow> bool" where
  "new_ok idx n \<longleftrightarrow> index_inv idx \<and> \<not> x_final idx \<and> x_ids idx = [] \<and> length (x_packs idx) \<le> n
     \<and> (\<forall>t. t \<noteq> NumBlobTypes \<longrightarrow> length (type_blobs idx t) \<le> n)"

lemma new_ok_mono: "new_ok idx n \<Longrightarrow> n \<le> m \<Longrightarrow> new_ok idx m"
  unfolding new_ok_def by (meson le_trans)

lemma NewIndex_new_ok: "new_ok (NewIndex mh now) n" "index_blobs (NewIndex mh now) = []"
  by (simp_all add: new_ok_def NewIndex_inv index_blobs_def array_blob_types_def)

lemma new_ok_room: "new_ok idx n \<Longrightarrow> n + k < unat maxUint32 \<Longrightarrow> index_room idx k"
proof -
  assume a: "new_ok idx n" "n + k < unat maxUint32"
  have "n + k \<le> 2 ^ 36 - 1" using a(2) by (simp add: maxUint32_def)
  then show ?thesis using a(1) unfolding index_room_def new_ok_def by (meson add_right_mono le_trans)
qed

lemma store_group:
  assumes "new_ok idx n" "group_ok g" "n + length (pbs_Blobs g) < unat maxUint32"
  shows "\<exists>idx'. StorePack idx (pbs_PackID g) (pbs_Blobs g) = Inr idx' \<and> new_ok idx' (n + length (pbs_Blobs g))
    \<and> set (index_blobs idx') = set (index_blobs idx) \<union> group_entries g"
proof -
  have i: "index_inv idx" "\<not> x_final idx" "length (x_packs idx) < unat maxUint32" "\<forall>b \<in> set (pbs_Blobs g). u32_blob b"
    using assms by (auto simp: new_ok_def group_ok_def)
  obtain idx' where s: "StorePack idx (pbs_PackID g) (pbs_Blobs g) = Inr idx'" "index_inv idx'"
    "x_packs idx' = x_packs idx @ [pbs_PackID g]" "x_final idx' = x_final idx" "x_ids idx' = x_ids idx"
    "\<forall>t. t \<noteq> NumBlobTypes \<longrightarrow> type_blobs idx' t = type_blobs idx t
        @ filter (\<lambda>pb. pb_Type pb = t) (map (\<lambda>b. \<lparr>pb_Pack = pbs_PackID g, pb_Blob = b\<rparr>) (pbs_Blobs g))"
    "set (index_blobs idx') = set (index_blobs idx) \<union> (\<lambda>b. \<lparr>pb_Pack = pbs_PackID g, pb_Blob = b\<rparr>) ` set (pbs_Blobs g)"
    by (rule StorePack_blobs [OF i new_ok_room [OF assms(1,3)]])
  have "length (type_blobs idx' t) \<le> n + length (pbs_Blobs g)" if "t \<noteq> NumBlobTypes" for t
  proof -
    have "length (type_blobs idx t) \<le> n" using assms(1) that by (simp add: new_ok_def)
    then show ?thesis
      using s(6) that length_filter_le [of "\<lambda>pb. pb_Type pb = t" "map (\<lambda>b. \<lparr>pb_Pack = pbs_PackID g, pb_Blob = b\<rparr>) (pbs_Blobs g)"]
      by (simp add: add_mono del: length_filter_le)
  qed
  moreover have "1 \<le> length (pbs_Blobs g)" using assms(2) by (auto simp: group_ok_def Suc_le_eq)
  ultimately have "new_ok idx' (n + length (pbs_Blobs g))"
    using s(2-5) assms(1) by (auto simp: new_ok_def)
  then show ?thesis using s(1,7) by (auto simp: group_entries_def)
qed

section \<open>The rewriter\<close>

definition indexes_blobs :: "Index list \<Rightarrow> PackedBlob set" where
  "indexes_blobs idxs = \<Union> (set ` index_blobs ` set idxs)"

lemma indexes_blobs_simps [simp]:
  "indexes_blobs [] = {}" "indexes_blobs (idx # idxs) = set (index_blobs idx) \<union> indexes_blobs idxs"
  "indexes_blobs (idxs @ js) = indexes_blobs idxs \<union> indexes_blobs js"
  by (auto simp: indexes_blobs_def)

text \<open>Everything the rewriter has kept, sent or holds.\<close>

definition rw_blobs :: "rewriter \<Rightarrow> PackedBlob set" where
  "rw_blobs rw = indexes_blobs (rw_kept rw @ rw_saved rw @ [rw_new rw])"

text \<open>\<open>rw_inv hash G rw n C\<close>: after at most \<open>n\<close> blobs, of which \<open>C\<close> are the entries, every entry is in the
  output and every hash seen is that of a group all of whose entries are there.\<close>

definition rw_inv :: "(PackBlobs \<Rightarrow> ID) \<Rightarrow> PackBlobs set \<Rightarrow> rewriter \<Rightarrow> nat \<Rightarrow> PackedBlob set \<Rightarrow> bool" where
  "rw_inv hash G rw n C \<longleftrightarrow> new_ok (rw_new rw) n \<and> (\<forall>idx \<in> set (rw_saved rw). \<exists>m. new_ok idx m) \<and> rw_blobs rw = C
     \<and> (\<forall>h \<in> rw_seen rw. \<exists>g \<in> G. hash g = h \<and> group_entries g \<subseteq> C)"

lemma rw_inv_mono: "rw_inv hash G rw n C \<Longrightarrow> n \<le> m \<Longrightarrow> rw_inv hash G rw m C"
  unfolding rw_inv_def using new_ok_mono [of "rw_new rw" n m] by simp

lemma copy_pack_inv:
  assumes "rw_inv (PackBlobsHash sha256) G rw n C" "g \<in> G" "group_ok g" "n + length (pbs_Blobs g) < unat maxUint32"
    "\<forall>g \<in> G. \<forall>g' \<in> G. PackBlobsHash sha256 g = PackBlobsHash sha256 g' \<longrightarrow> group_entries g = group_entries g'"
  shows "\<exists>rw'. copy_pack sha256 mh now full rw g = Inr rw' \<and> rw_kept rw' = rw_kept rw \<and> rw_obsolete rw' = rw_obsolete rw
    \<and> rw_inv (PackBlobsHash sha256) G rw' (n + length (pbs_Blobs g)) (C \<union> group_entries g)"
proof (cases "PackBlobsHash sha256 g \<in> rw_seen rw")
  case True
  then have "group_entries g \<subseteq> C" using assms(1,2,5) unfolding rw_inv_def by blast
  then have "C \<union> group_entries g = C" by blast
  then show ?thesis using True assms(1) new_ok_mono by (auto simp: copy_pack_def rw_inv_def Let_def)
next
  case False
  have "new_ok (rw_new rw) n" using assms(1) by (simp add: rw_inv_def)
  from store_group [OF this assms(3,4)] obtain idx' where
    s: "StorePack (rw_new rw) (pbs_PackID g) (pbs_Blobs g) = Inr idx'" "new_ok idx' (n + length (pbs_Blobs g))"
      "set (index_blobs idx') = set (index_blobs (rw_new rw)) \<union> group_entries g" by blast
  let ?rw = "rw\<lparr>rw_seen := insert (PackBlobsHash sha256 g) (rw_seen rw)\<rparr>"
  let ?rw' = "if full idx' then ?rw\<lparr>rw_saved := rw_saved rw @ [idx'], rw_new := NewIndex mh now\<rparr> else ?rw\<lparr>rw_new := idx'\<rparr>"
  have c: "copy_pack sha256 mh now full rw g = Inr ?rw'" using False s(1) by (simp add: copy_pack_def Let_def)
  have b: "rw_blobs ?rw' = C \<union> group_entries g"
    using s(3) assms(1) by (auto simp: rw_blobs_def rw_inv_def NewIndex_new_ok)
  have seen: "\<forall>h \<in> rw_seen ?rw'. \<exists>g' \<in> G. PackBlobsHash sha256 g' = h \<and> group_entries g' \<subseteq> C \<union> group_entries g"
  proof -
    have "\<forall>h \<in> rw_seen rw. \<exists>g' \<in> G. PackBlobsHash sha256 g' = h \<and> group_entries g' \<subseteq> C \<union> group_entries g"
      using assms(1) unfolding rw_inv_def by blast
    then show ?thesis using assms(2) by auto
  qed
  have "rw_inv (PackBlobsHash sha256) G ?rw' (n + length (pbs_Blobs g)) (C \<union> group_entries g)"
    unfolding rw_inv_def b using seen s(2) assms(1) by (auto simp: NewIndex_new_ok rw_inv_def)
  then show ?thesis using c by (intro exI [of _ ?rw']) simp
qed

lemma copy_packs_inv:
  assumes "rw_inv (PackBlobsHash sha256) G rw n C" "set gs \<subseteq> G" "\<forall>g \<in> set gs. group_ok g"
    "n + sum_list (map (\<lambda>g. length (pbs_Blobs g)) gs) < unat maxUint32"
    "\<forall>g \<in> G. \<forall>g' \<in> G. PackBlobsHash sha256 g = PackBlobsHash sha256 g' \<longrightarrow> group_entries g = group_entries g'"
  shows "\<exists>rw'. foldM (copy_pack sha256 mh now full) rw gs = Inr rw' \<and> rw_kept rw' = rw_kept rw \<and> rw_obsolete rw' = rw_obsolete rw
    \<and> rw_inv (PackBlobsHash sha256) G rw' (n + sum_list (map (\<lambda>g. length (pbs_Blobs g)) gs)) (C \<union> \<Union> (group_entries ` set gs))"
  using assms(1-4)
proof (induction gs arbitrary: rw n C)
  case (Cons g gs)
  have "\<exists>rw'. copy_pack sha256 mh now full rw g = Inr rw' \<and> rw_kept rw' = rw_kept rw \<and> rw_obsolete rw' = rw_obsolete rw
    \<and> rw_inv (PackBlobsHash sha256) G rw' (n + length (pbs_Blobs g)) (C \<union> group_entries g)"
    using Cons.prems by (intro copy_pack_inv [OF _ _ _ _ assms(5)]) auto
  then obtain rw1 where r: "copy_pack sha256 mh now full rw g = Inr rw1" "rw_kept rw1 = rw_kept rw" "rw_obsolete rw1 = rw_obsolete rw"
    "rw_inv (PackBlobsHash sha256) G rw1 (n + length (pbs_Blobs g)) (C \<union> group_entries g)" by blast
  have "\<exists>rw'. foldM (copy_pack sha256 mh now full) rw1 gs = Inr rw' \<and> rw_kept rw' = rw_kept rw1 \<and> rw_obsolete rw' = rw_obsolete rw1
    \<and> rw_inv (PackBlobsHash sha256) G rw' (n + length (pbs_Blobs g) + sum_list (map (\<lambda>g. length (pbs_Blobs g)) gs))
        (C \<union> group_entries g \<union> \<Union> (group_entries ` set gs))"
    using Cons.prems r(4) by (intro Cons.IH) auto
  then show ?case using r(1-3) by (simp add: Un_assoc add.assoc)
qed (simp add: Un_absorb2)

text \<open>The groups of the packs that stay.\<close>

definition kept_groups :: "ID set \<Rightarrow> Index list \<Rightarrow> PackBlobs set" where
  "kept_groups ex idxs = (\<Union>idx \<in> set idxs. case EachByPack idx ex of Inl _ \<Rightarrow> {} | Inr gs \<Rightarrow> set gs)"

definition remaining :: "ID set \<Rightarrow> Index list \<Rightarrow> PackedBlob set" where
  "remaining ex idxs = {pb \<in> indexes_blobs idxs. pb_Pack pb \<notin> ex}"

definition distinguishes :: "(bytes \<Rightarrow> ID) \<Rightarrow> PackBlobs set \<Rightarrow> bool" where
  "distinguishes sha256 G \<longleftrightarrow>
     (\<forall>g \<in> G. \<forall>g' \<in> G. PackBlobsHash sha256 g = PackBlobsHash sha256 g' \<longrightarrow> group_entries g = group_entries g')"

definition file_index :: "Index \<Rightarrow> bool" where
  "file_index idx \<longleftrightarrow> index_inv idx \<and> x_final idx \<and> length (x_ids idx) = 1"

lemma index_blobs_packs: "index_inv idx \<Longrightarrow> pb_Pack ` set (index_blobs idx) \<subseteq> Packs idx"
  using index_invD(3) [of idx] by (auto simp: set_index_blobs type_blobs_def Packs_def)

lemma remaining_no_excluded: "index_inv idx \<Longrightarrow> Packs idx \<inter> ex = {} \<Longrightarrow> remaining ex [idx] = set (index_blobs idx)"
  using index_blobs_packs [of idx] by (auto simp: remaining_def)

lemma rewrite_task_inv:
  assumes "rw_inv (PackBlobsHash sha256) G rw n C" "file_index idx" "kept_groups ex [idx] \<subseteq> G"
    "n + length (index_blobs idx) < unat maxUint32" "distinguishes sha256 G"
  shows "\<exists>rw' keep. rewrite_task sha256 mh now full ex rw idx = Inr rw'
    \<and> rw_inv (PackBlobsHash sha256) G rw' (n + length (index_blobs idx)) (C \<union> remaining ex [idx])
    \<and> rw_kept rw' = rw_kept rw @ (if keep then [idx] else [])
    \<and> rw_obsolete rw' = rw_obsolete rw \<union> (if keep then {} else set (x_ids idx))
    \<and> (keep \<longrightarrow> Packs idx \<inter> ex = {})"
proof -
  have inv: "index_inv idx" "x_final idx" "length (x_ids idx) = 1" using assms(2) by (auto simp: file_index_def)
  from EachByPack_groups [OF inv(1), of ex] obtain gs where g: "EachByPack idx ex = Inr gs" "\<forall>g \<in> set gs. group_ok g"
    "sum_list (map (\<lambda>g. length (pbs_Blobs g)) gs) \<le> length (index_blobs idx)"
    "\<Union> (group_entries ` set gs) = remaining ex [idx]"
    using inv(2) by (auto simp: remaining_def)
  have G: "set gs \<subseteq> G" using assms(3) g(1) by (simp add: kept_groups_def)
  define hs where "hs = set (map (PackBlobsHash sha256) gs)"
  define keep where "keep \<longleftrightarrow> \<not> (Packs idx \<inter> ex \<noteq> {} \<or> \<not> full idx \<or> Oversized idx) \<and> hs \<inter> rw_seen rw = {}"
  define seen where "seen = (if keep then rw_seen rw \<union> hs else rw_seen rw)"
  have k: "keepCurrentIndex sha256 full ex idx (rw_seen rw) = Inr (keep, seen)"
    using g(1) by (simp add: keepCurrentIndex_def Let_def keep_def seen_def hs_def)
  show ?thesis
  proof (cases keep)
    case True
    let ?rw = "rw\<lparr>rw_seen := seen, rw_kept := rw_kept rw @ [idx]\<rparr>"
    from True have k2: "Packs idx \<inter> ex = {}" "seen = rw_seen rw \<union> hs" by (auto simp: keep_def seen_def)
    have r: "remaining ex [idx] = set (index_blobs idx)" by (rule remaining_no_excluded [OF inv(1) k2(1)])
    have b: "rw_blobs ?rw = C \<union> remaining ex [idx]" using assms(1) r by (auto simp: rw_blobs_def rw_inv_def)
    have "\<exists>g \<in> G. PackBlobsHash sha256 g = h \<and> group_entries g \<subseteq> C \<union> remaining ex [idx]" if hs: "h \<in> seen" for h
    proof (cases "h \<in> rw_seen rw")
      case True
      then show ?thesis using assms(1) unfolding rw_inv_def by blast
    next
      case False
      then obtain g' where "g' \<in> set gs" "PackBlobsHash sha256 g' = h" using hs by (auto simp: k2(2) hs_def)
      then show ?thesis using G g(4) by blast
    qed
    then have "rw_inv (PackBlobsHash sha256) G ?rw (n + length (index_blobs idx)) (C \<union> remaining ex [idx])"
      unfolding rw_inv_def b using assms(1) new_ok_mono by (auto simp: rw_inv_def)
    then show ?thesis using k k2(1) True by (intro exI [of _ ?rw] exI [of _ True]) (simp add: rewrite_task_def)
  next
    case False
    let ?rw = "rw\<lparr>rw_obsolete := rw_obsolete rw \<union> set (x_ids idx)\<rparr>"
    have i: "rw_inv (PackBlobsHash sha256) G ?rw n C" using assms(1) by (simp add: rw_inv_def rw_blobs_def)
    have le: "n + sum_list (map (\<lambda>g. length (pbs_Blobs g)) gs) < unat maxUint32" using assms(4) g(3) by linarith
    from copy_packs_inv [OF i G g(2) le assms(5) [unfolded distinguishes_def], of mh now full] obtain rw' where
      c: "foldM (copy_pack sha256 mh now full) ?rw gs = Inr rw'" "rw_kept rw' = rw_kept rw"
      "rw_obsolete rw' = rw_obsolete rw \<union> set (x_ids idx)"
      "rw_inv (PackBlobsHash sha256) G rw' (n + sum_list (map (\<lambda>g. length (pbs_Blobs g)) gs)) (C \<union> remaining ex [idx])"
      unfolding g(4) by auto
    have "rw_inv (PackBlobsHash sha256) G rw' (n + length (index_blobs idx)) (C \<union> remaining ex [idx])"
      by (rule rw_inv_mono [OF c(4)]) (use g(3) in simp)
    moreover have "rewrite_task sha256 mh now full ex rw idx = Inr rw'"
      using k(1) False inv(2,3) c(1) g(1) by (simp add: rewrite_task_def markObsolete_def index_IDs_def copyIndexPacks_def)
    ultimately show ?thesis using c(2,3) by (intro exI [of _ rw'] exI [of _ False]) simp
  qed
qed

lemma remaining_Cons: "remaining ex (idx # idxs) = remaining ex [idx] \<union> remaining ex idxs"
  by (auto simp: remaining_def)

lemma kept_groups_Cons: "kept_groups ex (idx # idxs) = kept_groups ex [idx] \<union> kept_groups ex idxs"
  by (simp add: kept_groups_def)

text \<open>The indexes that are kept and those that are copied, by one flag for each.\<close>

definition flagged :: "bool \<Rightarrow> Index list \<Rightarrow> bool list \<Rightarrow> Index list" where
  "flagged b idxs ks = map fst (filter (\<lambda>(_, k). k = b) (zip idxs ks))"

lemma flagged_Cons [simp]: "flagged b (idx # idxs) (k # ks) = (if k = b then [idx] else []) @ flagged b idxs ks"
  by (simp add: flagged_def)

lemma flagged_Nil [simp]: "flagged b [] ks = []"
  by (simp add: flagged_def)

lemma rewrite_tasks_inv:
  assumes "rw_inv (PackBlobsHash sha256) G rw n C" "\<forall>idx \<in> set idxs. file_index idx" "kept_groups ex idxs \<subseteq> G"
    "n + sum_list (map (\<lambda>idx. length (index_blobs idx)) idxs) < unat maxUint32" "distinguishes sha256 G"
  shows "\<exists>rw' ks. foldM (rewrite_task sha256 mh now full ex) rw idxs = Inr rw'
    \<and> rw_inv (PackBlobsHash sha256) G rw' (n + sum_list (map (\<lambda>idx. length (index_blobs idx)) idxs)) (C \<union> remaining ex idxs)
    \<and> length ks = length idxs \<and> rw_kept rw' = rw_kept rw @ flagged True idxs ks
    \<and> rw_obsolete rw' = rw_obsolete rw \<union> set (concat (map x_ids (flagged False idxs ks)))
    \<and> (\<forall>idx \<in> set (flagged True idxs ks). Packs idx \<inter> ex = {})"
  using assms(1-4)
proof (induction idxs arbitrary: rw n C)
  case Nil
  then show ?case by (auto simp: remaining_def)
next
  case (Cons idx idxs)
  have p: "file_index idx" "kept_groups ex [idx] \<subseteq> G" "n + length (index_blobs idx) < unat maxUint32"
    "\<forall>idx \<in> set idxs. file_index idx" "kept_groups ex idxs \<subseteq> G"
    "n + length (index_blobs idx) + sum_list (map (\<lambda>idx. length (index_blobs idx)) idxs) < unat maxUint32"
    using Cons.prems(2-4) kept_groups_Cons [of ex idx idxs] by auto
  from rewrite_task_inv [OF Cons.prems(1) p(1-3) assms(5), of mh now full] obtain rw1 k where
    t: "rewrite_task sha256 mh now full ex rw idx = Inr rw1"
      "rw_inv (PackBlobsHash sha256) G rw1 (n + length (index_blobs idx)) (C \<union> remaining ex [idx])"
      "rw_kept rw1 = rw_kept rw @ (if k then [idx] else [])"
      "rw_obsolete rw1 = rw_obsolete rw \<union> (if k then {} else set (x_ids idx))" "k \<longrightarrow> Packs idx \<inter> ex = {}"
    by blast
  from Cons.IH [OF t(2) p(4-6)] obtain rw' ks where
    r: "foldM (rewrite_task sha256 mh now full ex) rw1 idxs = Inr rw'"
      "rw_inv (PackBlobsHash sha256) G rw' (n + length (index_blobs idx) + sum_list (map (\<lambda>idx. length (index_blobs idx)) idxs))
         (C \<union> remaining ex [idx] \<union> remaining ex idxs)"
      "length ks = length idxs" "rw_kept rw' = rw_kept rw1 @ flagged True idxs ks"
      "rw_obsolete rw' = rw_obsolete rw1 \<union> set (concat (map x_ids (flagged False idxs ks)))"
      "\<forall>idx \<in> set (flagged True idxs ks). Packs idx \<inter> ex = {}" by blast
  have i: "rw_inv (PackBlobsHash sha256) G rw' (n + sum_list (map (\<lambda>idx. length (index_blobs idx)) (idx # idxs)))
      (C \<union> remaining ex (idx # idxs))"
    using r(2) unfolding remaining_Cons [of ex idx idxs] by (simp add: Un_assoc add.assoc)
  show ?case
    by (rule exI [of _ rw'], rule exI [of _ "k # ks"]) (use t r(1,3-6) i in auto)
qed

lemma rewriteIndexes_exact:
  assumes "\<forall>idx \<in> set idxs. file_index idx" "sum_list (map (\<lambda>idx. length (index_blobs idx)) idxs) < unat maxUint32"
    "distinguishes sha256 (kept_groups ex idxs)"
  shows "\<exists>rw ks. rewriteIndexes sha256 mh now full ex extra idxs = Inr rw \<and> length ks = length idxs
    \<and> rw_kept rw = flagged True idxs ks \<and> rw_obsolete rw = extra \<union> set (concat (map x_ids (flagged False idxs ks)))
    \<and> indexes_blobs (rw_kept rw @ rw_saved rw) = remaining ex idxs \<and> (\<forall>idx \<in> set (rw_kept rw). Packs idx \<inter> ex = {})
    \<and> (\<forall>idx \<in> set (rw_saved rw). \<exists>m. new_ok idx m)"
proof -
  let ?rw = "\<lparr>rw_seen = {}, rw_new = NewIndex mh now, rw_saved = [], rw_obsolete = extra, rw_kept = []\<rparr>"
  have "rw_inv (PackBlobsHash sha256) (kept_groups ex idxs) ?rw 0 {}"
    by (simp add: rw_inv_def rw_blobs_def NewIndex_new_ok)
  from rewrite_tasks_inv [OF this assms(1) order_refl, where mh = mh and now = now and full = full] assms(2,3) obtain rw ks where
    r: "foldM (rewrite_task sha256 mh now full ex) ?rw idxs = Inr rw"
      "rw_inv (PackBlobsHash sha256) (kept_groups ex idxs) rw (sum_list (map (\<lambda>idx. length (index_blobs idx)) idxs)) (remaining ex idxs)"
      "length ks = length idxs" "rw_kept rw = flagged True idxs ks"
      "rw_obsolete rw = extra \<union> set (concat (map x_ids (flagged False idxs ks)))"
      "\<forall>idx \<in> set (flagged True idxs ks). Packs idx \<inter> ex = {}"
    by auto
  then show ?thesis
    by (intro exI [of _ "rw\<lparr>rw_saved := rw_saved rw @ [rw_new rw]\<rparr>"] exI [of _ ks])
      (auto simp: rewriteIndexes_def rw_inv_def rw_blobs_def)
qed

section \<open>The hash tells packs apart\<close>

lemma concat_fixed_inj:
  assumes "\<forall>x \<in> set xs \<union> set ys. length (f x) = k" "0 < k" "inj_on f (set xs \<union> set ys)" "concat (map f xs) = concat (map f ys)"
  shows "xs = ys"
  using assms
proof (induction xs arbitrary: ys)
  case Nil
  then show ?case by (cases ys) auto
next
  case (Cons x xs)
  then obtain y ys' where y: "ys = y # ys'" by (cases ys) auto
  have "f x @ concat (map f xs) = f y @ concat (map f ys')" using Cons.prems(4) y by simp
  then have e: "f x = f y" "concat (map f xs) = concat (map f ys')" using Cons.prems(1) y by auto
  have "x = y" by (rule inj_onD [OF Cons.prems(3) e(1)]) (use y in auto)
  moreover have "inj_on f (set xs \<union> set ys')" by (rule inj_on_subset [OF Cons.prems(3)]) (use y in auto)
  then have "xs = ys'" using Cons.IH [of ys'] Cons.prems(1,2) e(2) y by auto
  ultimately show ?case using y by simp
qed

lemma put_u32_le_inj: "put_u32_le v = put_u32_le w \<longleftrightarrow> v = w"
  by (metis u32_le_put)

lemma blob_hash_bytes_length: "is_id (bh_ID (b_Handle b)) \<Longrightarrow> length (blob_hash_bytes b) = 48"
  by (simp add: blob_hash_bytes_def is_id_def idSize_def)

lemma blob_hash_bytes_inj:
  assumes "is_id (bh_ID (b_Handle b))" "is_id (bh_ID (b_Handle c))" "u32_blob b" "u32_blob c"
    "blob_hash_bytes b = blob_hash_bytes c"
  shows "b = c"
proof -
  have l: "length (bh_ID (b_Handle b)) = length (bh_ID (b_Handle c))" using assms(1,2) by (simp add: is_id_def)
  have e: "bh_ID (b_Handle b) = bh_ID (b_Handle c)"
    "(of_nat (blob_type_num (bh_Type (b_Handle b))) :: u32) = of_nat (blob_type_num (bh_Type (b_Handle c)))"
    "(ucast (b_Offset b) :: u32) = ucast (b_Offset c)" "(ucast (b_Length b) :: u32) = ucast (b_Length c)"
    "(ucast (b_UncompressedLength b) :: u32) = ucast (b_UncompressedLength c)"
    using assms(5) l by (simp_all add: blob_hash_bytes_def put_u32_le_inj)
  have "bh_Type (b_Handle b) = bh_Type (b_Handle c)"
    using e(2) by (cases "bh_Type (b_Handle b)"; cases "bh_Type (b_Handle c)") (simp_all add: blob_type_num_def)
  moreover have "b_Offset b = b_Offset c" "b_Length b = b_Length c" "b_UncompressedLength b = b_UncompressedLength c"
    using e(3-5) assms(3,4) unfolding u32_blob_def by (metis u32_of_u64)+
  ultimately show ?thesis using e(1) by (cases b; cases c; cases "b_Handle b"; cases "b_Handle c") simp
qed

definition group_ids :: "PackBlobs \<Rightarrow> bool" where
  "group_ids g \<longleftrightarrow> is_id (pbs_PackID g) \<and> (\<forall>b \<in> set (pbs_Blobs g). is_id (bh_ID (b_Handle b)))"

lemma pack_hash_bytes_entries:
  assumes "group_ids g" "group_ids g'" "group_ok g" "group_ok g'" "pack_hash_bytes g = pack_hash_bytes g'"
  shows "group_entries g = group_entries g'"
proof -
  let ?s = "sort_key b_Offset (pbs_Blobs g)" and ?s' = "sort_key b_Offset (pbs_Blobs g')"
  have "pbs_PackID g @ concat (map blob_hash_bytes ?s) = pbs_PackID g' @ concat (map blob_hash_bytes ?s')"
    using assms(5) by (simp add: pack_hash_bytes_def)
  then have e: "pbs_PackID g = pbs_PackID g'" "concat (map blob_hash_bytes ?s) = concat (map blob_hash_bytes ?s')"
    using assms(1,2) by (simp_all add: group_ids_def is_id_def)
  have i: "inj_on blob_hash_bytes (set ?s \<union> set ?s')"
    using assms(1-4) by (auto intro!: inj_onI blob_hash_bytes_inj simp: group_ids_def group_ok_def)
  have l: "\<forall>b \<in> set ?s \<union> set ?s'. length (blob_hash_bytes b) = 48"
    using assms(1,2) blob_hash_bytes_length by (auto simp: group_ids_def)
  have "?s = ?s'" by (rule concat_fixed_inj [OF l _ i e(2)]) simp
  from arg_cong [OF this, of set] show ?thesis using e(1) by (simp add: group_entries_def)
qed

lemma distinguishes_inj:
  assumes "inj_on sha256 (pack_hash_bytes ` G)" "\<forall>g \<in> G. group_ids g \<and> group_ok g"
  shows "distinguishes sha256 G"
  unfolding distinguishes_def PackBlobsHash_def
  using assms pack_hash_bytes_entries by (blast dest: inj_onD)

section \<open>Saving\<close>

lemma SaveIndex_blobs:
  assumes "index_inv idx" "x_final idx" "x_ids idx = []" "\<forall>pb \<in> set (index_blobs idx). \<not> IsNull (pb_Pack pb)"
    "\<forall>lst. snd (save lst) = None"
  shows "\<exists>i. SaveIndex save idx = Inr (idx\<lparr>x_ids := [i]\<rparr>, i, None)"
proof -
  obtain lst packs where "generatePackList idx = Inr lst" by (rule generatePackList_inv [OF assms(1,4)])
  moreover obtain i where "save lst = (i, None)" using assms(5) by (metis prod.collapse)
  ultimately show ?thesis using assms(2,3) by (simp add: SaveIndex_def SetID_def)
qed

lemma blobs_of_fields [simp]:
  "index_blobs (idx\<lparr>x_final := b\<rparr>) = index_blobs idx" "index_blobs (idx\<lparr>x_ids := is\<rparr>) = index_blobs idx"
  "index_blobs (idx\<lparr>x_workingRetained := b\<rparr>) = index_blobs idx"
  by (simp_all add: index_blobs_def array_blob_types_def)

lemma save_rewritten_blobs:
  assumes "new_ok idx m" "\<forall>pb \<in> set (index_blobs idx). \<not> IsNull (pb_Pack pb)" "\<forall>lst. snd (save lst) = None"
  shows "\<exists>mi' ids. save_rewritten save mi idx = Inr (mi', ids) \<and> set (mi_blobs mi') = set (mi_blobs mi) \<union> set (index_blobs idx)
    \<and> mi_IDs mi' = mi_IDs mi \<union> set ids"
proof (cases "x_packs idx = []")
  case True
  then have "set (index_blobs idx) = {}"
    using index_blobs_packs [of idx] assms(1) by (auto simp: new_ok_def Packs_def)
  then show ?thesis using True by (simp add: save_rewritten_def Finalize_def)
next
  case False
  have "\<exists>i. SaveIndex save (Finalize idx) = Inr ((Finalize idx)\<lparr>x_ids := [i]\<rparr>, i, None)"
    using assms by (intro SaveIndex_blobs) (auto simp: Finalize_def new_ok_def)
  then obtain i where "SaveIndex save (Finalize idx) = Inr ((Finalize idx)\<lparr>x_ids := [i]\<rparr>, i, None)" by blast
  then have "save_rewritten save mi idx = Inr (mi_Insert mi ((Finalize idx)\<lparr>x_ids := [i]\<rparr>), [i])"
    using False by (simp add: save_rewritten_def Finalize_def)
  then show ?thesis by (auto simp: mi_Insert_def mi_blobs_def Finalize_def mi_IDs_def index_IDs_def)
qed

lemma save_all_blobs:
  assumes "\<forall>idx \<in> set idxs. (\<exists>m. new_ok idx m)" "\<forall>pb \<in> indexes_blobs idxs. \<not> IsNull (pb_Pack pb)" "\<forall>lst. snd (save lst) = None"
  shows "\<exists>mi' ids. foldM (\<lambda>(mi, saved) idx. rbind (save_rewritten save mi idx) (\<lambda>(mi, ids). Inr (mi, saved @ ids))) (mi, acc) idxs
      = Inr (mi', acc @ ids) \<and> set (mi_blobs mi') = set (mi_blobs mi) \<union> indexes_blobs idxs \<and> mi_IDs mi' = mi_IDs mi \<union> set ids"
  using assms(1,2)
proof (induction idxs arbitrary: mi acc)
  case (Cons idx idxs)
  obtain m where m: "new_ok idx m" using Cons.prems(1) by auto
  have "\<forall>pb \<in> set (index_blobs idx). \<not> IsNull (pb_Pack pb)" using Cons.prems(2) by simp
  from save_rewritten_blobs [OF m this assms(3), of mi] obtain mi1 ids1 where
    s: "save_rewritten save mi idx = Inr (mi1, ids1)" "set (mi_blobs mi1) = set (mi_blobs mi) \<union> set (index_blobs idx)"
      "mi_IDs mi1 = mi_IDs mi \<union> set ids1" by blast
  have p: "\<forall>idx \<in> set idxs. (\<exists>m. new_ok idx m)" "\<forall>pb \<in> indexes_blobs idxs. \<not> IsNull (pb_Pack pb)" using Cons.prems by simp_all
  obtain mi' ids where
    "foldM (\<lambda>(mi, saved) idx. rbind (save_rewritten save mi idx) (\<lambda>(mi, ids). Inr (mi, saved @ ids))) (mi1, acc @ ids1) idxs
      = Inr (mi', (acc @ ids1) @ ids)" "set (mi_blobs mi') = set (mi_blobs mi1) \<union> indexes_blobs idxs"
    "mi_IDs mi' = mi_IDs mi1 \<union> set ids" using Cons.IH [OF p, of mi1 "acc @ ids1"] by blast
  then show ?case using s by (intro exI [of _ mi'] exI [of _ "ids1 @ ids"]) auto
qed auto

section \<open>From files to files\<close>

lemma startLoaders_decoded:
  "\<forall>i \<in> set is. load i = Inr (Inr (files i)) \<and> file_ok (files i) \<Longrightarrow>
   \<exists>idxs. startLoaders mh now load is = Inr idxs \<and> list_all2 (\<lambda>i idx. decoded (files i) i idx) is idxs"
proof (induction "is")
  case (Cons i "is")
  then obtain idxs where "startLoaders mh now load is = Inr idxs" "list_all2 (\<lambda>i idx. decoded (files i) i idx) is idxs" by auto
  moreover obtain idx where "DecodeIndex mh now (Inr (files i)) i = Inr idx" "decoded (files i) i idx"
    using DecodeIndex_decoded [of "files i" mh now i] Cons.prems by auto
  ultimately show ?case using Cons.prems by (auto simp: startLoaders_def)
qed (simp add: startLoaders_def)

lemma decoded_length: "file_ok f \<Longrightarrow> decoded f i idx \<Longrightarrow> length (index_blobs idx) = length (file_blobs f)"
proof -
  assume f: "file_ok f" "decoded f i idx"
  have t: "\<forall>pb \<in> set (file_blobs f). pb_Type pb \<noteq> NumBlobTypes"
    using f(1) by (auto simp: file_ok_def file_blobs_def group_blobs_def u32_blob_def)
  have s: "length (filter (\<lambda>pb. pb_Type pb = InvalidBlob) xs) + length (filter (\<lambda>pb. pb_Type pb = DataBlob) xs)
      + length (filter (\<lambda>pb. pb_Type pb = TreeBlob) xs) = length xs" if "\<forall>pb \<in> set xs. pb_Type pb \<noteq> NumBlobTypes" for xs
    using that
  proof (induction xs)
    case (Cons x xs)
    then show ?case by (cases "pb_Type x") simp_all
  qed simp
  show ?thesis using f(2) s [OF t] by (simp add: index_blobs_def array_blob_types_def decoded_def)
qed

lemma decoded_files:
  assumes "list_all2 (\<lambda>i idx. decoded (files i) i idx) is idxs" "\<forall>i \<in> set is. file_ok (files i)"
  shows "indexes_blobs idxs = (\<Union>i \<in> set is. set (file_blobs (files i)))" "\<forall>idx \<in> set idxs. file_index idx"
    "sum_list (map (\<lambda>idx. length (index_blobs idx)) idxs) = sum_list (map (\<lambda>i. length (file_blobs (files i))) is)"
proof -
  show "indexes_blobs idxs = (\<Union>i \<in> set is. set (file_blobs (files i)))"
    unfolding indexes_blobs_def using decoded_all_blobs [OF assms(1)] assms(2) by blast
  show "\<forall>idx \<in> set idxs. file_index idx"
    using assms(1) by (auto simp: list_all2_conv_all_nth in_set_conv_nth file_index_def decoded_def)
  show "sum_list (map (\<lambda>idx. length (index_blobs idx)) idxs) = sum_list (map (\<lambda>i. length (file_blobs (files i))) is)"
    using assms by (induction rule: list_all2_induct) (auto simp: decoded_length)
qed

lemma flagged_decoded:
  assumes "list_all2 (\<lambda>i idx. decoded (files i) i idx) is idxs" "length ks = length idxs" "distinct is"
    "\<forall>i \<in> set is. file_ok (files i)"
  shows "indexes_blobs (flagged True idxs ks)
      = (\<Union>i \<in> set is - set (concat (map x_ids (flagged False idxs ks))). set (file_blobs (files i)))
    \<and> set (concat (map x_ids (flagged False idxs ks))) \<subseteq> set is"
  using assms
proof (induction arbitrary: ks rule: list_all2_induct)
  case (Cons i "is" idx idxs)
  obtain k ks' where k: "ks = k # ks'" using Cons.prems(1) by (cases ks) auto
  have d: "x_ids idx = [i]" "set (index_blobs idx) = set (file_blobs (files i))"
    using Cons.hyps Cons.prems(3) decoded_blobs [of "files i" i idx] by (auto simp: decoded_def)
  have ih: "indexes_blobs (flagged True idxs ks')
      = (\<Union>i \<in> set is - set (concat (map x_ids (flagged False idxs ks'))). set (file_blobs (files i)))"
    "set (concat (map x_ids (flagged False idxs ks'))) \<subseteq> set is"
    using Cons.IH [of ks'] Cons.prems k by auto
  have n: "i \<notin> set is" using Cons.prems(2) by simp
  show ?case
  proof (cases k)
    case True
    have "set (i # is) - set (concat (map x_ids (flagged False idxs ks')))
        = insert i (set is - set (concat (map x_ids (flagged False idxs ks'))))" using n ih(2) by auto
    then show ?thesis using True k ih d(2) by auto
  next
    case False
    have "set (i # is) - set (concat (map x_ids (flagged False (idx # idxs) ks)))
        = set is - set (concat (map x_ids (flagged False idxs ks')))" using n False k d(1) by auto
    then show ?thesis using False k ih d(1) by auto
  qed
qed simp

lemma kept_groups_ok:
  assumes "\<forall>idx \<in> set idxs. index_inv idx" "\<forall>pb \<in> indexes_blobs idxs. is_id (pb_Pack pb) \<and> is_id (pb_ID pb)"
  shows "\<forall>g \<in> kept_groups ex idxs. group_ids g \<and> group_ok g"
proof
  fix g assume "g \<in> kept_groups ex idxs"
  then obtain idx where "idx \<in> set idxs" "g \<in> (case EachByPack idx ex of Inl _ \<Rightarrow> {} | Inr gs \<Rightarrow> set gs)"
    unfolding kept_groups_def by blast
  then obtain gs where i: "idx \<in> set idxs" "EachByPack idx ex = Inr gs" "g \<in> set gs"
    by (cases "EachByPack idx ex") auto
  with EachByPack_groups [of idx ex] assms(1) have g: "group_ok g" "group_entries g \<subseteq> set (index_blobs idx)" by auto
  have e: "is_id (pb_Pack pb) \<and> is_id (pb_ID pb)" if "pb \<in> group_entries g" for pb
    using that g(2) i(1) assms(2) by (auto simp: indexes_blobs_def)
  have "is_id (pbs_PackID g) \<and> is_id (bh_ID (b_Handle b))" if "b \<in> set (pbs_Blobs g)" for b
    using e [of "\<lparr>pb_Pack = pbs_PackID g, pb_Blob = b\<rparr>"] that by (simp add: group_entries_def)
  then show "group_ids g \<and> group_ok g" using g(1) by (cases "pbs_Blobs g") (auto simp: group_ids_def group_ok_def)
qed

text \<open>What the model takes for granted about the repository: index files load and fit the index, IDs are
  32 bytes long and no pack has the null ID, and saving a file succeeds.\<close>

definition repo_ok :: "index_loader \<Rightarrow> saver \<Rightarrow> (ID \<Rightarrow> packJSON list) \<Rightarrow> ID list \<Rightarrow> bool" where
  "repo_ok load save files is \<longleftrightarrow> (\<forall>i \<in> set is. load i = Inr (Inr (files i)) \<and> file_ok (files i)
       \<and> (\<forall>pb \<in> set (file_blobs (files i)). is_id (pb_Pack pb) \<and> is_id (pb_ID pb) \<and> \<not> IsNull (pb_Pack pb)))
     \<and> sum_list (map (\<lambda>i. length (file_blobs (files i))) is) < unat maxUint32 \<and> (\<forall>lst. snd (save lst) = None)"

lemma Rewrite_ok:
  assumes "\<forall>idx \<in> set (mi_idx mi). x_final idx" "is = order (case old of None \<Rightarrow> mi_IDs mi | Some ids \<Rightarrow> ids)" "distinct is"
    "repo_ok load save files is" "\<forall>idxs. startLoaders mh now load is = Inr idxs \<longrightarrow> inj_on sha256 (pack_hash_bytes ` kept_groups ex idxs)"
  shows "\<exists>r obs. Rewrite sha256 mh now full load save order mi ex old extra skip = Inr r
    \<and> rr_deleted r \<union> rr_reported r = extra \<union> obs \<and> (skip \<longrightarrow> rr_deleted r = {}) \<and> obs \<subseteq> set is \<and> mi_IDs (rr_master r) = set (rr_saved r)
    \<and> (\<Union>i \<in> set is - obs. set (file_blobs (files i))) \<union> set (mi_blobs (rr_master r))
        = {pb \<in> \<Union>i \<in> set is. set (file_blobs (files i)). pb_Pack pb \<notin> ex}"
proof -
  let ?mi = "fst (mi_clear mh now mi)"
  have empty: "set (mi_blobs ?mi) = {}" "mi_IDs ?mi = {}"
    by (auto simp: mi_clear_def mi_blobs_def Finalize_def NewIndex_new_ok mi_IDs_def index_IDs_def)
  obtain idxs where l: "startLoaders mh now load is = Inr idxs" "list_all2 (\<lambda>i idx. decoded (files i) i idx) is idxs"
    using startLoaders_decoded [of "is" load files mh now] assms(4) by (auto simp: repo_ok_def)
  have fk: "\<forall>i \<in> set is. file_ok (files i)" using assms(4) by (simp add: repo_ok_def)
  note d = decoded_files [OF l(2) fk]
  have pb: "\<forall>pb \<in> indexes_blobs idxs. is_id (pb_Pack pb) \<and> is_id (pb_ID pb)" "\<forall>pb \<in> indexes_blobs idxs. \<not> IsNull (pb_Pack pb)"
    using assms(4) unfolding d(1) by (auto simp: repo_ok_def)
  have "distinguishes sha256 (kept_groups ex idxs)"
    using assms(5) l(1) kept_groups_ok [of idxs ex] d(2) pb(1) by (intro distinguishes_inj) (auto simp: file_index_def)
  from rewriteIndexes_exact [OF d(2) _ this, of mh now full extra] obtain rw ks where
    r: "rewriteIndexes sha256 mh now full ex extra idxs = Inr rw" "length ks = length idxs"
      "rw_kept rw = flagged True idxs ks" "rw_obsolete rw = extra \<union> set (concat (map x_ids (flagged False idxs ks)))"
      "indexes_blobs (rw_kept rw @ rw_saved rw) = remaining ex idxs" "\<forall>idx \<in> set (rw_saved rw). \<exists>m. new_ok idx m"
    using d(3) assms(4) by (auto simp: repo_ok_def)
  have "\<forall>pb \<in> indexes_blobs (rw_saved rw). \<not> IsNull (pb_Pack pb)" using r(5) pb(2) by (auto simp: remaining_def)
  from save_all_blobs [OF r(6) this, of save ?mi "[]"] assms(4) obtain mi' ids where
    s: "foldM (\<lambda>(mi, saved) idx. rbind (save_rewritten save mi idx) (\<lambda>(mi, ids). Inr (mi, saved @ ids))) (?mi, []) (rw_saved rw)
      = Inr (mi', ids)" "set (mi_blobs mi') = indexes_blobs (rw_saved rw)" "mi_IDs mi' = set ids"
    unfolding empty by (auto simp: repo_ok_def)
  define obs where "obs = set (concat (map x_ids (flagged False idxs ks)))"
  define r' where "r' = (let (del, report) = deleteObsoleteIndexes skip (extra \<union> obs) in
    \<lparr>rr_master = mi', rr_saved = ids, rr_deleted = del, rr_reported = report\<rparr>)"
  have "Rewrite sha256 mh now full load save order mi ex old extra skip = Inr r'"
    using assms(1) l(1) r(1,4) s(1) unfolding r'_def obs_def Rewrite_def assms(2)
    by (simp add: Let_def split: prod.split)
  moreover note f = flagged_decoded [OF l(2) r(2) assms(3) fk]
  have "(\<Union>i \<in> set is - obs. set (file_blobs (files i))) \<union> set (mi_blobs mi') = indexes_blobs (rw_kept rw @ rw_saved rw)"
    using f r(3) s(2) by (simp add: obs_def)
  then have "(\<Union>i \<in> set is - obs. set (file_blobs (files i))) \<union> set (mi_blobs mi')
      = {pb \<in> \<Union>i \<in> set is. set (file_blobs (files i)). pb_Pack pb \<notin> ex}"
    unfolding r(5) remaining_def d(1) .
  moreover have "obs \<subseteq> set is" using f by (simp add: obs_def)
  ultimately show ?thesis
    using s(3) by (intro exI [of _ r'] exI [of _ obs]) (auto simp: r'_def deleteObsoleteIndexes_def Let_def)
qed

section \<open>The fallback\<close>

definition fb_inv :: "Index list \<times> Index \<Rightarrow> nat \<Rightarrow> PackedBlob set \<Rightarrow> bool" where
  "fb_inv st n C \<longleftrightarrow> new_ok (snd st) n \<and> (\<forall>idx \<in> set (fst st). \<exists>m. new_ok idx m) \<and> indexes_blobs (fst st @ [snd st]) = C"

lemma fallback_pack_inv:
  assumes "fb_inv st n C" "group_ok g" "n + length (pbs_Blobs g) < unat maxUint32"
  shows "\<exists>st'. fallback_pack mh now full st g = Inr st' \<and> fb_inv st' (n + length (pbs_Blobs g)) (C \<union> group_entries g)"
proof -
  obtain sent new where st: "st = (sent, new)" by (cases st)
  then have "new_ok new n" using assms(1) by (simp add: fb_inv_def)
  from store_group [OF this assms(2,3)] obtain idx' where
    s: "StorePack new (pbs_PackID g) (pbs_Blobs g) = Inr idx'" "new_ok idx' (n + length (pbs_Blobs g))"
      "set (index_blobs idx') = set (index_blobs new) \<union> group_entries g" by blast
  then show ?thesis using assms(1) st by (auto simp: fallback_pack_def fb_inv_def NewIndex_new_ok)
qed

lemma fallback_packs_inv:
  assumes "fb_inv st n C" "\<forall>g \<in> set gs. group_ok g" "n + sum_list (map (\<lambda>g. length (pbs_Blobs g)) gs) < unat maxUint32"
  shows "\<exists>st'. foldM (fallback_pack mh now full) st gs = Inr st'
    \<and> fb_inv st' (n + sum_list (map (\<lambda>g. length (pbs_Blobs g)) gs)) (C \<union> \<Union> (group_entries ` set gs))"
  using assms
proof (induction gs arbitrary: st n C)
  case (Cons g gs)
  from fallback_pack_inv [OF Cons.prems(1), of g mh now full] Cons.prems(2,3) obtain st1 where
    s: "fallback_pack mh now full st g = Inr st1" "fb_inv st1 (n + length (pbs_Blobs g)) (C \<union> group_entries g)" by auto
  have "\<exists>st'. foldM (fallback_pack mh now full) st1 gs = Inr st'
    \<and> fb_inv st' (n + length (pbs_Blobs g) + sum_list (map (\<lambda>g. length (pbs_Blobs g)) gs)) (C \<union> group_entries g \<union> \<Union> (group_entries ` set gs))"
    using Cons.prems by (intro Cons.IH [OF s(2)]) auto
  then show ?case using s(1) by (simp add: Un_assoc add.assoc)
qed simp

definition stays :: "ID set \<Rightarrow> Index \<Rightarrow> PackedBlob set" where
  "stays ex idx = {pb \<in> set (index_blobs idx). \<not> x_final idx \<or> pb_Pack pb \<notin> ex}"

lemma fallback_all_inv:
  assumes "fb_inv st n C" "\<forall>idx \<in> set idxs. index_inv idx" "n + sum_list (map (\<lambda>idx. length (index_blobs idx)) idxs) < unat maxUint32"
  shows "\<exists>st'. foldM (\<lambda>st idx. rbind (EachByPack idx ex) (foldM (fallback_pack mh now full) st)) st idxs = Inr st'
    \<and> fb_inv st' (n + sum_list (map (\<lambda>idx. length (index_blobs idx)) idxs)) (C \<union> \<Union> (stays ex ` set idxs))"
  using assms
proof (induction idxs arbitrary: st n C)
  case (Cons idx idxs)
  from EachByPack_groups [of idx ex] Cons.prems(2) obtain gs where g: "EachByPack idx ex = Inr gs" "\<forall>g \<in> set gs. group_ok g"
    "sum_list (map (\<lambda>g. length (pbs_Blobs g)) gs) \<le> length (index_blobs idx)" "\<Union> (group_entries ` set gs) = stays ex idx"
    by (auto simp: stays_def)
  have "n + sum_list (map (\<lambda>g. length (pbs_Blobs g)) gs) < unat maxUint32" using g(3) Cons.prems(3) by simp
  from fallback_packs_inv [OF Cons.prems(1) g(2) this, of mh now full] obtain st1 where
    s: "foldM (fallback_pack mh now full) st gs = Inr st1" "fb_inv st1 (n + sum_list (map (\<lambda>g. length (pbs_Blobs g)) gs)) (C \<union> stays ex idx)"
    unfolding g(4) by blast
  have "new_ok (snd st1) (n + length (index_blobs idx))"
    by (rule new_ok_mono [of _ "n + sum_list (map (\<lambda>g. length (pbs_Blobs g)) gs)"]) (use s(2) g(3) in \<open>auto simp: fb_inv_def\<close>)
  then have "fb_inv st1 (n + length (index_blobs idx)) (C \<union> stays ex idx)" using s(2) by (simp add: fb_inv_def)
  from Cons.IH [OF this] Cons.prems(2,3) obtain st' where
    "foldM (\<lambda>st idx. rbind (EachByPack idx ex) (foldM (fallback_pack mh now full) st)) st1 idxs = Inr st'"
    "fb_inv st' (n + length (index_blobs idx) + sum_list (map (\<lambda>idx. length (index_blobs idx)) idxs)) (C \<union> stays ex idx \<union> \<Union> (stays ex ` set idxs))"
    by auto
  then show ?case using g(1) s(1) by (simp add: Un_assoc add.assoc)
qed simp

section \<open>Main results\<close>

text \<open>C17: Rewriting the index loses and invents nothing: the entries of the index files that stay,
  together with those of the files just saved, are exactly the entries of all the files before whose
  packs are not excluded. The files that become obsolete are among those that were rewritten, or were
  named by the caller; with \<^verbatim>\<open>SkipObsoleteDelete\<close> none is deleted. This holds for every order in which the
  files are processed and every choice of the fullness test, if SHA-256 has no collision on the packs
  at hand.\<close>

theorem Rewrite_exact:
  assumes "\<forall>idx \<in> set (mi_idx mi). x_final idx"
    and "is = order (case old of None \<Rightarrow> mi_IDs mi | Some ids \<Rightarrow> ids)" and "distinct is"
    and "repo_ok load save files is"
    and "\<forall>idxs. startLoaders mh now load is = Inr idxs \<longrightarrow> inj_on sha256 (pack_hash_bytes ` kept_groups ex idxs)"
  shows "\<exists>r obs. Rewrite sha256 mh now full load save order mi ex old extra skip = Inr r
    \<and> rr_deleted r \<union> rr_reported r = extra \<union> obs \<and> (skip \<longrightarrow> rr_deleted r = {}) \<and> obs \<subseteq> set is
    \<and> mi_IDs (rr_master r) = set (rr_saved r)
    \<and> (\<Union>i \<in> set is - obs. set (file_blobs (files i))) \<union> set (mi_blobs (rr_master r))
        = {pb \<in> \<Union>i \<in> set is. set (file_blobs (files i)). pb_Pack pb \<notin> ex}"
  using assms by (rule Rewrite_ok)

definition sample_save :: saver where
  "sample_save lst = (replicate 32 9, None)"

theorem Rewrite_exact_witness:
  "\<exists>r obs. Rewrite (\<lambda>b. b) (\<lambda>_ _. 5) 0 (Full 0) (\<lambda>_. Inr (Inr sample_file)) sample_save (\<lambda>_. [replicate 32 2])
      sample_master {replicate 32 3} (Some {replicate 32 2}) {} False = Inr r
    \<and> rr_deleted r \<union> rr_reported r = {} \<union> obs \<and> (False \<longrightarrow> rr_deleted r = {}) \<and> obs \<subseteq> set [replicate 32 2]
    \<and> mi_IDs (rr_master r) = set (rr_saved r)
    \<and> (\<Union>i \<in> set [replicate 32 2] - obs. set (file_blobs sample_file)) \<union> set (mi_blobs (rr_master r))
        = {pb \<in> \<Union>i \<in> set [replicate 32 2 :: u8 list]. set (file_blobs sample_file). pb_Pack pb \<notin> {replicate 32 3}}"
proof -
  have r: "\<forall>pb \<in> set (file_blobs sample_file). is_id (pb_Pack pb) \<and> is_id (pb_ID pb) \<and> \<not> IsNull (pb_Pack pb)"
    by (simp add: sample_file_def file_blobs_def group_blobs_def sample_blob_def is_id_def idSize_def IsNull_def nullID_def
       replicate_eq_replicate)
  show ?thesis
    by (rule Rewrite_exact [where files = "\<lambda>_. sample_file"])
      (use r in \<open>auto simp: sample_master_ok Finalize_def repo_ok_def sample_file_ok sample_save_def maxUint32_def\<close>)
qed



end
