(* ===== verification/Prune_Plan.thy ===== *)
theory Prune_Plan
  imports Index_Rewrite "HOL-Library.List_Lexorder"
begin

text \<open>
  Durable prune plans, \<^verbatim>\<open>internal/repository/prune_plan.go\<close>, with the configuration update of
  \<^verbatim>\<open>repository_engine.go\<close> and the parallel deletion of \<^verbatim>\<open>internal/vaultic/parallel.go\<close> they rely on. A prune
  claims a marker in the configuration (phase A), completes it with the exact files to delete once the
  replacement indexes are stored, and finalizes it: the marker is revalidated against the index files of
  the backend before anything is deleted.

  The repository state has the backend's index and pack files, the marker in the configuration file and
  its copy in memory. The record \<open>plan_io\<close> holds what the environment decides: which backend calls fail,
  in which order sets are traversed, which deletions are still in flight when another one fails, the
  sealed staging journals, clock, random ID and hash seeds. An operation returns the new state and
  \<^verbatim>\<open>nil\<close> or an error; what it did before an error is in the state.
\<close>

section \<open>Model\<close>

record PlanMarker =
  pm_Version :: u64
  pm_ID :: string
  pm_State :: string
  pm_CreatedAt :: int
  pm_ObservedIndexes :: "ID list"
  pm_RequiredIndexes :: "ID list"
  pm_IndexIDs :: "ID list"
  pm_PackIDs :: "ID list"

definition prunePlanVersion :: u64 where "prunePlanVersion = 1"

definition prunePlanPhaseA :: string where "prunePlanPhaseA = ''phase_a''"

definition prunePlanReady :: string where "prunePlanReady = ''ready''"

text \<open>\<open>r_extensionError\<close> is what \<^verbatim>\<open>ValidateExtensions\<close> says about the configuration, which does not look at the
  marker.\<close>

record plan_repo =
  r_version :: u64
  r_atomicReplace :: bool
  r_appendOnly :: bool
  r_extensionError :: "go_error option"
  r_PrunePlan :: "PlanMarker option"
  r_storedPlan :: "PlanMarker option"
  r_idx :: MasterIndex
  r_indexFiles :: "(ID \<times> packJSON list result) list"
  r_packFiles :: "ID set"

record plan_io =
  io_now :: int
  io_newID :: string
  io_mh :: hash_seeds
  io_order :: "ID set \<Rightarrow> ID list"
  io_load :: "ID \<Rightarrow> go_error option"
  io_prepareCache :: "go_error option"
  io_saveConfig :: "go_error option"
  io_saveReached :: bool
  io_removeIndex :: "ID \<Rightarrow> go_error option"
  io_removePack :: "ID \<Rightarrow> go_error option"
  io_inFlight :: "ID set"
  io_stagedRoots :: "ID set result option"
  io_stagedAt :: "ID \<Rightarrow> ID set result"

type_synonym outcome = "plan_repo \<times> go_error option"

definition andThen :: "outcome \<Rightarrow> (plan_repo \<Rightarrow> outcome) \<Rightarrow> outcome" where
  "andThen res f = (case res of (r, Some e) \<Rightarrow> (r, Some e) | (r, None) \<Rightarrow> f r)"

lemma andThen_simps [simp]: "andThen (r, Some e) f = (r, Some e)" "andThen (r, None) f = f r"
  by (simp_all add: andThen_def)

subsection \<open>Configuration\<close>

text \<open>If saving fails, the stored file may be the old or the new one.\<close>

definition UpdateConfig :: "plan_io \<Rightarrow> (PlanMarker option \<Rightarrow> PlanMarker option result) \<Rightarrow> plan_repo \<Rightarrow> outcome" where
  "UpdateConfig io fn r =
     (if r_appendOnly r then (r, Some (Error ''cannot modify config: repository is in append-only mode''))
      else case fn (r_PrunePlan r) of Inl e \<Rightarrow> (r, Some e)
      | Inr plan \<Rightarrow> (case r_extensionError r of Some e \<Rightarrow> (r, Some e)
        | None \<Rightarrow> (case io_saveConfig io of
            Some e \<Rightarrow> (if io_saveReached io then r\<lparr>r_storedPlan := plan\<rparr> else r, Some e)
          | None \<Rightarrow> (r\<lparr>r_storedPlan := plan, r_PrunePlan := plan\<rparr>, None))))"

definition UpdateConfigAtomically ::
  "plan_io \<Rightarrow> (PlanMarker option \<Rightarrow> PlanMarker option result) \<Rightarrow> plan_repo \<Rightarrow> outcome" where
  "UpdateConfigAtomically io fn r =
     (if \<not> r_atomicReplace r then (r, Some (Error ''durable prune plans require a backend with atomic config replacement''))
      else UpdateConfig io fn r)"

subsection \<open>Claiming and completing\<close>

definition BeginPrunePlan :: "plan_io \<Rightarrow> plan_repo \<Rightarrow> outcome" where
  "BeginPrunePlan io r = (case r_PrunePlan r of
     Some _ \<Rightarrow> (r, Some (Error ''repository already contains a prune plan''))
   | None \<Rightarrow> UpdateConfigAtomically io
       (\<lambda>_. Inr (Some \<lparr>pm_Version = prunePlanVersion, pm_ID = io_newID io, pm_State = prunePlanPhaseA, pm_CreatedAt = io_now io,
          pm_ObservedIndexes = [], pm_RequiredIndexes = [], pm_IndexIDs = [], pm_PackIDs = []\<rparr>)) r)"

text \<open>\<^verbatim>\<open>IDSet.List\<close> is sorted; the order of the IDs in a marker has no effect.\<close>

definition CompletePrunePlan ::
  "plan_io \<Rightarrow> string \<Rightarrow> ID set \<Rightarrow> ID set \<Rightarrow> ID set \<Rightarrow> ID set \<Rightarrow> plan_repo \<Rightarrow> outcome" where
  "CompletePrunePlan io i observedIndexes requiredIndexes indexIDs packIDs r =
     (let plan = \<lparr>pm_Version = prunePlanVersion, pm_ID = i, pm_State = prunePlanReady, pm_CreatedAt = io_now io,
        pm_ObservedIndexes = io_order io observedIndexes, pm_RequiredIndexes = io_order io requiredIndexes,
        pm_IndexIDs = io_order io indexIDs, pm_PackIDs = io_order io packIDs\<rparr>
      in UpdateConfigAtomically io (\<lambda>cur. case cur of
           None \<Rightarrow> Inl (Error ''prune plan changed while phase A was running'')
         | Some p \<Rightarrow> if pm_ID p \<noteq> i \<or> pm_State p \<noteq> prunePlanPhaseA
             then Inl (Error ''prune plan changed while phase A was running'') else Inr (Some plan)) r)"

definition PersistPrunePlan :: "plan_io \<Rightarrow> ID set \<Rightarrow> ID set \<Rightarrow> ID set \<Rightarrow> ID set \<Rightarrow> plan_repo \<Rightarrow> outcome" where
  "PersistPrunePlan io observedIndexes requiredIndexes indexIDs packIDs r =
     andThen (BeginPrunePlan io r) (CompletePrunePlan io (io_newID io) observedIndexes requiredIndexes indexIDs packIDs)"

definition clearPendingPrunePlan :: "plan_io \<Rightarrow> string \<Rightarrow> plan_repo \<Rightarrow> outcome" where
  "clearPendingPrunePlan io i = UpdateConfigAtomically io (\<lambda>cur. case cur of
     None \<Rightarrow> Inl (Error ''pending prune plan changed while it was being cleared'')
   | Some p \<Rightarrow> if pm_ID p \<noteq> i \<or> pm_State p \<noteq> prunePlanPhaseA
       then Inl (Error ''pending prune plan changed while it was being cleared'') else Inr None)"

definition finishPrunePlan :: "plan_io \<Rightarrow> string \<Rightarrow> plan_repo \<Rightarrow> outcome" where
  "finishPrunePlan io i = UpdateConfigAtomically io (\<lambda>cur. case cur of
     None \<Rightarrow> Inl (Error ''deferred prune plan changed while it was being finalized'')
   | Some p \<Rightarrow> if pm_ID p \<noteq> i then Inl (Error ''deferred prune plan changed while it was being finalized'') else Inr None)"

subsection \<open>Deleting\<close>

text \<open>The files are handed to the workers in some order. The first reported error stops the loop; the
  deletions \<open>inFlight\<close> may still complete. The result is the set of deleted files and the error.\<close>

definition ParallelRemove ::
  "ID list \<Rightarrow> ID set \<Rightarrow> (ID \<Rightarrow> go_error option) \<Rightarrow> (ID \<Rightarrow> go_error option \<Rightarrow> go_error option) \<Rightarrow> ID set \<times> go_error option" where
  "ParallelRemove fileList inFlight remove report =
     (let good = (\<lambda>i. report i (remove i) = None);
          started = set (takeWhile good fileList) in
      case dropWhile good fileList of
        [] \<Rightarrow> ({i \<in> started. remove i = None}, None)
      | i # rest \<Rightarrow> ({j \<in> insert i started \<union> (set rest \<inter> inFlight). remove j = None}, report i (remove i)))"

definition deleteFiles :: "plan_io \<Rightarrow> bool \<Rightarrow> (ID \<Rightarrow> go_error option) \<Rightarrow> ID set \<Rightarrow> ID set \<times> go_error option" where
  "deleteFiles io ignoreError remove fileList = ParallelRemove (io_order io fileList) (io_inFlight io) remove
     (\<lambda>i err. case err of None \<Rightarrow> None | Some e \<Rightarrow> if ignoreError then None else Some e)"

definition delete_indexes :: "plan_io \<Rightarrow> bool \<Rightarrow> ID set \<Rightarrow> plan_repo \<Rightarrow> outcome" where
  "delete_indexes io ignoreError ids r = (let (gone, err) = deleteFiles io ignoreError (io_removeIndex io) ids in
     (r\<lparr>r_indexFiles := filter (\<lambda>(i, _). i \<notin> gone) (r_indexFiles r)\<rparr>, err))"

definition delete_packs :: "plan_io \<Rightarrow> bool \<Rightarrow> (ID \<Rightarrow> go_error option) \<Rightarrow> ID set \<Rightarrow> plan_repo \<Rightarrow> outcome" where
  "delete_packs io ignoreError remove ids r = (let (gone, err) = deleteFiles io ignoreError remove ids in
     (r\<lparr>r_packFiles := r_packFiles r - gone\<rparr>, err))"

text \<open>\<^verbatim>\<open>stagedRootRevalidatingRemover.RemoveUnpacked\<close> for pack files.\<close>

definition staged_remove :: "plan_io \<Rightarrow> ID \<Rightarrow> go_error option" where
  "staged_remove io i = (case io_stagedAt io i of
     Inl e \<Rightarrow> Some (Wrap ''revalidate staged journal roots immediately before pack deletion'' e)
   | Inr staged \<Rightarrow> if i \<in> staged then Some (Error ''pack became protected by a sealed staging journal'') else io_removePack io i)"

definition excludeStagedPackRoots :: "plan_io \<Rightarrow> ID set \<Rightarrow> ID set result" where
  "excludeStagedPackRoots io candidates = (case io_stagedRoots io of
     None \<Rightarrow> Inr candidates
   | Some staged \<Rightarrow> if candidates = {} then Inr candidates else
       (case staged of Inl e \<Rightarrow> Inl (Wrap ''revalidate staged journal roots before prune deletion'' e)
        | Inr roots \<Rightarrow> Inr (candidates - roots)))"

subsection \<open>Loading indexes\<close>

definition io_loader :: "plan_io \<Rightarrow> plan_repo \<Rightarrow> index_loader" where
  "io_loader io r i = (case io_load io i of Some e \<Rightarrow> Inl e
     | None \<Rightarrow> (case map_of (r_indexFiles r) i of None \<Rightarrow> Inl (Error ''file does not exist'') | Some f \<Rightarrow> Inr f))"

definition clearIndex :: "plan_io \<Rightarrow> plan_repo \<Rightarrow> plan_repo" where
  "clearIndex io r = r\<lparr>r_idx := NewMasterIndex (io_mh io) (io_now io)\<rparr>"

definition LoadIndex :: "plan_io \<Rightarrow> plan_repo \<Rightarrow> outcome" where
  "LoadIndex io r = (case mi_Load (io_mh io) (io_now io) (io_loader io r) None (r_idx r) (map fst (r_indexFiles r)) of
     Inl e \<Rightarrow> (r, Some e)
   | Inr mi \<Rightarrow> let r = r\<lparr>r_idx := mi\<rparr> in
       case (if r_version r < 2 then rbind (mi_Values mi) (\<lambda>vs. Inr (\<exists>pb \<in> set vs. pb_IsCompressed pb)) else Inr False) of
         Inl e \<Rightarrow> (r, Some e)
       | Inr invalidIndex \<Rightarrow>
           if invalidIndex then (r, Some (Error ''index uses feature not supported by repository version 1''))
           else (r, io_prepareCache io))"

definition packsFromIndexes :: "plan_io \<Rightarrow> plan_repo \<Rightarrow> ID set \<Rightarrow> ID set result" where
  "packsFromIndexes io r ids = foldM (\<lambda>packs i. case io_loader io r i of
       Inl e \<Rightarrow> Inl (Wrap ''load index for prune plan revalidation'' e)
     | Inr buf \<Rightarrow> (case DecodeIndex (io_mh io) (io_now io) buf i of
         Inl e \<Rightarrow> Inl (Wrap ''decode index for prune plan revalidation'' e)
       | Inr idx \<Rightarrow> Inr (packs \<union> Packs idx))) {} (io_order io ids)"

subsection \<open>Finalizing\<close>

definition FinalizePrunePlan :: "plan_io \<Rightarrow> plan_repo \<Rightarrow> outcome" where
  "FinalizePrunePlan io r = (case r_PrunePlan r of None \<Rightarrow> (r, None)
   | Some plan \<Rightarrow>
     if pm_Version plan \<noteq> prunePlanVersion \<or> pm_ID plan = []
     then (r, Some (Error ''repository contains an unsupported deferred prune plan''))
     else if pm_State plan = prunePlanPhaseA then clearPendingPrunePlan io (pm_ID plan) r
     else if pm_State plan \<noteq> prunePlanReady
     then (r, Some (Error ''repository contains an invalid deferred prune plan state''))
     else andThen (LoadIndex io (clearIndex io r)) (\<lambda>r.
       let currentIndexes = mi_IDs (r_idx r) in
       if \<not> set (pm_RequiredIndexes plan) \<subseteq> currentIndexes
       then (r, Some (Error ''deferred prune plan cannot be finalized: replacement index is missing''))
       else let indexIDs = set (pm_IndexIDs plan); survivingIndexes = currentIndexes - indexIDs in
       case packsFromIndexes io r survivingIndexes of Inl e \<Rightarrow> (r, Some e)
       | Inr indexedPacks \<Rightarrow>
         if set (pm_PackIDs plan) \<inter> indexedPacks \<noteq> {}
         then (r, Some (Error ''deferred prune plan cannot delete pack: it is referenced by a current non-obsolete index''))
         else let indexIDs = indexIDs \<inter> currentIndexes in
         andThen (if indexIDs \<noteq> {} then delete_indexes io False indexIDs r else (r, None)) (\<lambda>r.
         case excludeStagedPackRoots io (set (pm_PackIDs plan)) of Inl e \<Rightarrow> (r, Some e)
         | Inr packIDs \<Rightarrow>
           andThen (if packIDs \<noteq> {} then delete_packs io True (io_removePack io) packIDs r else (r, None)) (\<lambda>r.
           andThen (finishPrunePlan io (pm_ID plan) r) (\<lambda>r. (clearIndex io r, None))))))"

definition FinalizePrunePlanLoaded :: "plan_io \<Rightarrow> plan_repo \<Rightarrow> outcome" where
  "FinalizePrunePlanLoaded io r = (case r_PrunePlan r of None \<Rightarrow> (r, None)
   | Some plan \<Rightarrow>
     if pm_Version plan \<noteq> prunePlanVersion \<or> pm_ID plan = [] \<or> pm_State plan \<noteq> prunePlanReady
     then (r, Some (Error ''repository contains an unsupported deferred prune plan''))
     else let currentIndexes = mi_IDs (r_idx r) in
     if \<not> set (pm_RequiredIndexes plan) \<subseteq> currentIndexes
     then (r, Some (Error ''deferred prune plan cannot be finalized: replacement index is missing''))
     else let indexIDs = set (pm_IndexIDs plan) in
     andThen (if indexIDs \<noteq> {} then delete_indexes io False indexIDs r else (r, None)) (\<lambda>r.
     case packsFromIndexes io r (currentIndexes - indexIDs) of Inl e \<Rightarrow> (r, Some e)
     | Inr indexedPacks \<Rightarrow>
       if set (pm_PackIDs plan) \<inter> indexedPacks \<noteq> {}
       then (r, Some (Error ''prune plan cannot delete pack: it is still referenced by a rewritten index''))
       else case excludeStagedPackRoots io (set (pm_PackIDs plan)) of Inl e \<Rightarrow> (r, Some e)
       | Inr packIDs \<Rightarrow>
         andThen (if packIDs \<noteq> {}
             then delete_packs io True (if io_stagedRoots io = None then io_removePack io else staged_remove io) packIDs r
             else (r, None)) (\<lambda>r.
         andThen (finishPrunePlan io (pm_ID plan) r) (\<lambda>r. (clearIndex io r, None)))))"

section \<open>Single steps\<close>

text \<open>\<open>same_files\<close>: nothing was deleted or added, and the markers are as before or cleared.\<close>

definition same_files :: "plan_repo \<Rightarrow> plan_repo \<Rightarrow> bool" where
  "same_files r r' \<longleftrightarrow> r_indexFiles r' = r_indexFiles r \<and> r_packFiles r' = r_packFiles r
     \<and> r_PrunePlan r' \<in> {r_PrunePlan r, None} \<and> r_storedPlan r' \<in> {r_storedPlan r, None}"

lemma same_files_refl [simp]: "same_files r r" by (simp add: same_files_def)

lemma andThen_rule: "P (fst res) \<Longrightarrow> (\<And>r. res = (r, None) \<Longrightarrow> P (fst (f r))) \<Longrightarrow> P (fst (andThen res f))"
  by (cases res) (auto simp: andThen_def split: option.splits)

lemma UpdateConfigAtomically_files:
  "r_indexFiles (fst (UpdateConfigAtomically io fn r)) = r_indexFiles r" "r_packFiles (fst (UpdateConfigAtomically io fn r)) = r_packFiles r"
  by (auto simp: UpdateConfigAtomically_def UpdateConfig_def split: sum.splits option.splits)

lemma UpdateConfigAtomically_plan:
  "r_PrunePlan (fst (UpdateConfigAtomically io fn r)) = r_PrunePlan r \<or> fn (r_PrunePlan r) = Inr (r_PrunePlan (fst (UpdateConfigAtomically io fn r)))"
  "r_storedPlan (fst (UpdateConfigAtomically io fn r)) = r_storedPlan r \<or> fn (r_PrunePlan r) = Inr (r_storedPlan (fst (UpdateConfigAtomically io fn r)))"
  by (auto simp: UpdateConfigAtomically_def UpdateConfig_def split: sum.splits option.splits)

lemma UpdateConfigAtomically_clear:
  "(\<And>q. fn (r_PrunePlan r) = Inr q \<Longrightarrow> q = None) \<Longrightarrow> same_files r (fst (UpdateConfigAtomically io fn r))"
  using UpdateConfigAtomically_plan [of io fn r] by (auto simp: same_files_def UpdateConfigAtomically_files)

lemma clearPending_files: "same_files r (fst (clearPendingPrunePlan io i r))"
  unfolding clearPendingPrunePlan_def by (rule UpdateConfigAtomically_clear) (auto split: option.splits if_splits)

lemma finish_files: "same_files r (fst (finishPrunePlan io i r))"
  unfolding finishPrunePlan_def by (rule UpdateConfigAtomically_clear) (auto split: option.splits if_splits)

lemma LoadIndex_files: "same_files r (fst (LoadIndex io r))" "r_PrunePlan (fst (LoadIndex io r)) = r_PrunePlan r"
  by (auto simp: LoadIndex_def same_files_def Let_def split: sum.splits)

text \<open>Traversing a finite set reaches every element.\<close>

definition io_ok :: "plan_io \<Rightarrow> bool" where
  "io_ok io \<longleftrightarrow> (\<forall>S. finite S \<longrightarrow> set (io_order io S) = S)"

lemma ParallelRemove_gone:
  "fst (ParallelRemove files fl remove report) \<subseteq> {i \<in> set files. remove i = None}"
  "snd (ParallelRemove files fl remove report) = None \<Longrightarrow> fst (ParallelRemove files fl remove report) = {i \<in> set files. remove i = None}"
  "snd (ParallelRemove files fl remove report) = None \<Longrightarrow> \<forall>i \<in> set files. report i (remove i) = None"
proof -
  let ?g = "\<lambda>i. report i (remove i) = None"
  have s: "set (takeWhile ?g files) \<union> set (dropWhile ?g files) = set files" by (metis set_append takeWhile_dropWhile_id)
  show "fst (ParallelRemove files fl remove report) \<subseteq> {i \<in> set files. remove i = None}"
  proof (cases "dropWhile ?g files")
    case Nil
    show ?thesis using s by (auto simp: ParallelRemove_def Let_def Nil)
  next
    case (Cons i rest)
    show ?thesis using s by (auto simp: ParallelRemove_def Let_def Cons)
  qed
  have d: "dropWhile ?g files = []" if a: "snd (ParallelRemove files fl remove report) = None"
  proof (cases "dropWhile ?g files")
    case (Cons i rest)
    then have "\<not> ?g i" using hd_dropWhile [of ?g files] by simp
    then show ?thesis using a Cons by (simp add: ParallelRemove_def Let_def)
  qed
  show "snd (ParallelRemove files fl remove report) = None \<Longrightarrow> fst (ParallelRemove files fl remove report) = {i \<in> set files. remove i = None}"
    using s by (simp add: ParallelRemove_def Let_def d)
  show "snd (ParallelRemove files fl remove report) = None \<Longrightarrow> \<forall>i \<in> set files. report i (remove i) = None" using d by simp
qed

lemma ParallelRemove_none: "(\<And>i. i \<in> set files \<Longrightarrow> report i (remove i) = None) \<Longrightarrow> snd (ParallelRemove files fl remove report) = None"
proof -
  assume "\<And>i. i \<in> set files \<Longrightarrow> report i (remove i) = None"
  then have d: "dropWhile (\<lambda>i. report i (remove i) = None) files = []" by simp
  show ?thesis by (simp add: ParallelRemove_def Let_def d)
qed

lemma deleteFiles_gone:
  assumes "io_ok io" "finite ids"
  shows "fst (deleteFiles io ig remove ids) \<subseteq> {i \<in> ids. remove i = None}"
    "snd (deleteFiles io ig remove ids) = None \<Longrightarrow> fst (deleteFiles io ig remove ids) = {i \<in> ids. remove i = None}"
    "(\<forall>i \<in> ids. remove i = None) \<or> ig \<Longrightarrow> snd (deleteFiles io ig remove ids) = None"
proof -
  have s: "set (io_order io ids) = ids" using assms by (simp add: io_ok_def)
  let ?r = "\<lambda>i err. case err of None \<Rightarrow> None | Some e \<Rightarrow> if ig then None else Some e"
  show "fst (deleteFiles io ig remove ids) \<subseteq> {i \<in> ids. remove i = None}"
    "snd (deleteFiles io ig remove ids) = None \<Longrightarrow> fst (deleteFiles io ig remove ids) = {i \<in> ids. remove i = None}"
    using ParallelRemove_gone [of "io_order io ids" "io_inFlight io" remove ?r] by (simp_all add: deleteFiles_def s)
  assume "(\<forall>i \<in> ids. remove i = None) \<or> ig"
  then show "snd (deleteFiles io ig remove ids) = None"
    unfolding deleteFiles_def by (intro ParallelRemove_none) (auto simp: s split: option.split)
qed

lemma deleteFiles_strict:
  assumes "io_ok io" "finite ids" "snd (deleteFiles io False remove ids) = None"
  shows "fst (deleteFiles io False remove ids) = ids"
proof -
  have "\<forall>i \<in> set (io_order io ids). (case remove i of None \<Rightarrow> None | Some e \<Rightarrow> if False then None else Some e) = None"
    by (rule ParallelRemove_gone(3)) (use assms(3) in \<open>simp add: deleteFiles_def\<close>)
  then have "\<forall>i \<in> ids. remove i = None" using assms(1,2) by (auto simp: io_ok_def split: option.splits)
  then show ?thesis using deleteFiles_gone(2) [OF assms] by auto
qed

section \<open>The index files\<close>

definition file_list :: "packJSON list result \<Rightarrow> packJSON list" where
  "file_list f = (case f of Inl _ \<Rightarrow> [] | Inr js \<Rightarrow> js)"

definition file_packs :: "packJSON list result \<Rightarrow> ID set" where
  "file_packs f = set (map pj_ID (file_list f))"

text \<open>The stored index files are readable and within the limits of the in-memory index.\<close>

definition store_ok :: "plan_repo \<Rightarrow> bool" where
  "store_ok r \<longleftrightarrow> distinct (map fst (r_indexFiles r)) \<and> (\<forall>(i, f) \<in> set (r_indexFiles r). \<exists>js. f = Inr js \<and> file_ok js)
     \<and> sum_list (map (\<lambda>(i, f). length (file_list f)) (r_indexFiles r)) \<le> unat maxUint32
     \<and> sum_list (map (\<lambda>(i, f). length (file_blobs (file_list f))) (r_indexFiles r)) \<le> 2 ^ 36 - 1"

text \<open>Every pack an index file refers to exists.\<close>

definition intact :: "plan_repo \<Rightarrow> bool" where
  "intact r \<longleftrightarrow> (\<forall>(i, f) \<in> set (r_indexFiles r). file_packs f \<subseteq> r_packFiles r)"

lemma store_ok_file:
  assumes "store_ok r" "(i, f) \<in> set (r_indexFiles r)"
  shows "map_of (r_indexFiles r) i = Some f" "f = Inr (file_list f)" "file_ok (file_list f)"
  using assms by (auto simp: store_ok_def file_list_def)

lemma store_ok_loader:
  assumes "store_ok r" "(i, f) \<in> set (r_indexFiles r)"
  shows "io_loader io r i = (case io_load io i of Some e \<Rightarrow> Inl e | None \<Rightarrow> Inr f)"
  using store_ok_file [OF assms] by (simp add: io_loader_def split: option.split)

lemma load_step_Inr:
  "load_step mh now load None {} mi i = Inr mi' \<Longrightarrow> \<exists>x. load i = Inr x"
  by (auto simp: load_step_def loadIndex_def rbind_def split: sum.splits go_error.splits)

lemma load_steps_Inr: "foldM (load_step mh now load None {}) mi is = Inr mi' \<Longrightarrow> \<forall>i \<in> set is. \<exists>x. load i = Inr x"
proof (induction "is" arbitrary: mi)
  case (Cons i "is")
  then show ?case using load_step_Inr [of mh now load mi i] by (cases "load_step mh now load None {} mi i") auto
qed simp

lemma NewMasterIndex_fields:
  "mi_idx (NewMasterIndex mh now) = [Finalize (NewIndex mh now)]" "mi_pendingBlobs (NewMasterIndex mh now) = []"
  by (simp_all add: NewMasterIndex_def mi_clear_def)

lemma NewMasterIndex_prepare:
  "prepareIncrementalLoad mh now (NewMasterIndex mh now) listed = Inr (NewMasterIndex mh now, {})"
  by (simp add: prepareIncrementalLoad_def NewMasterIndex_def mi_clear_def clearPendingBlobs_def index_IDs_def Finalize_def NewIndex_fields)

text \<open>Loading into an empty master index: exactly the stored files.\<close>

lemma Load_all:
  assumes "store_ok r" "\<forall>i \<in> fst ` set (r_indexFiles r). io_load io i = None"
  shows "\<exists>mi. mi_Load (io_mh io) (io_now io) (io_loader io r) None (NewMasterIndex (io_mh io) (io_now io)) (map fst (r_indexFiles r)) = Inr mi
    \<and> loaded_view (\<lambda>i. file_list (the (map_of (r_indexFiles r) i))) mi (fst ` set (r_indexFiles r))"
proof -
  let ?is = "map fst (r_indexFiles r)" let ?fs = "\<lambda>i. file_list (the (map_of (r_indexFiles r) i))"
  let ?new = "Finalize (NewIndex (io_mh io) (io_now io))"
  have l: "io_loader io r i = Inr (Inr (?fs i)) \<and> file_ok (?fs i)" if i: "i \<in> set ?is" for i
  proof -
    obtain f where f: "(i, f) \<in> set (r_indexFiles r)" using i by auto
    then show ?thesis using store_ok_file [OF assms(1) f] store_ok_loader [OF assms(1) f, of io] assms(2) by force
  qed
  have m: "map (\<lambda>i. g (?fs i)) ?is = map (\<lambda>(i, f). g (file_list f)) (r_indexFiles r)" for g :: "packJSON list \<Rightarrow> nat"
    using store_ok_file(1) [OF assms(1)] by (auto simp: o_def)
  have e: "index_blobs ?new = []" "type_blobs ?new t = []" if "t \<noteq> NumBlobTypes" for t
    using that by (simp_all add: index_blobs_def array_blob_types_def Finalize_def NewIndex_inv(2))
  have "\<exists>mi'. rbind (foldM (load_step (io_mh io) (io_now io) (io_loader io r) None {}) (NewMasterIndex (io_mh io) (io_now io)) ?is)
      MergeFinalIndexes = Inr mi' \<and> mi_pendingBlobs mi' = mi_pendingBlobs (NewMasterIndex (io_mh io) (io_now io))
      \<and> loaded_view ?fs mi' (set (x_ids ?new) \<union> (set ?is - {}))"
  proof (rule load_merged [where ?idx0.0 = ?new])
    show "length (x_packs ?new) + sum_list (map (\<lambda>i. length (?fs i)) ?is) \<le> unat maxUint32"
      using assms(1) unfolding m by (simp add: store_ok_def Finalize_def NewIndex_fields)
    show "length (type_blobs ?new t) + sum_list (map (\<lambda>i. length (file_blobs (?fs i))) ?is) \<le> 2 ^ 36 - 1"
      if "t \<noteq> NumBlobTypes" for t
      using assms(1) e(2) [OF that] unfolding m [of "\<lambda>js. length (file_blobs js)"] by (simp add: store_ok_def)
  qed (use l e in \<open>simp_all add: NewMasterIndex_fields Finalize_def NewIndex_inv(1) NewIndex_fields index_blobs_def array_blob_types_def NewIndex_inv(2)\<close>)
  then show ?thesis by (auto simp: mi_Load_def NewMasterIndex_prepare Finalize_def NewIndex_fields)
qed

lemma loaded_view_IDs: "loaded_view files mi ids \<Longrightarrow> mi_IDs mi = ids"
  by (auto simp: loaded_view_def mi_IDs_def index_IDs_def)

lemma LoadIndex_IDs:
  assumes "store_ok r" "LoadIndex io (clearIndex io r) = (r1, None)"
  shows "mi_IDs (r_idx r1) = fst ` set (r_indexFiles r)" "same_files r r1" "r_PrunePlan r1 = r_PrunePlan r"
proof -
  let ?mi = "NewMasterIndex (io_mh io) (io_now io)" let ?is = "map fst (r_indexFiles r)"
  have c: "r_indexFiles (clearIndex io r) = r_indexFiles r" "r_idx (clearIndex io r) = ?mi" "io_loader io (clearIndex io r) = io_loader io r"
    by (simp_all add: clearIndex_def io_loader_def fun_eq_iff split: option.split)
  obtain mi where mi: "mi_Load (io_mh io) (io_now io) (io_loader io r) None ?mi ?is = Inr mi" "r_idx r1 = mi"
    using assms(2) by (auto simp: LoadIndex_def c Let_def split: sum.splits if_splits)
  then obtain mi1 where "foldM (load_step (io_mh io) (io_now io) (io_loader io r) None {}) ?mi ?is = Inr mi1"
    by (auto simp: mi_Load_def NewMasterIndex_prepare rbind_Inr_iff)
  from load_steps_Inr [OF this] have "\<forall>i \<in> fst ` set (r_indexFiles r). io_load io i = None"
    by (auto simp: io_loader_def split: option.splits)
  from Load_all [OF assms(1) this] mi show "mi_IDs (r_idx r1) = fst ` set (r_indexFiles r)" using loaded_view_IDs by auto
  have "same_files (clearIndex io r) r1" "r_PrunePlan r1 = r_PrunePlan (clearIndex io r)"
    using LoadIndex_files [where r = "clearIndex io r" and io = io] assms(2) by simp_all
  then show "same_files r r1" "r_PrunePlan r1 = r_PrunePlan r" by (simp_all add: same_files_def clearIndex_def)
qed

text \<open>Revalidation reads the pack lists of exactly the surviving files.\<close>

lemma packsFromIndexes_packs:
  assumes "store_ok r" "io_ok io" "finite ids" "packsFromIndexes io r ids = Inr packs"
  shows "packs = (\<Union>(i, f) \<in> {x \<in> set (r_indexFiles r). fst x \<in> ids}. file_packs f)"
proof -
  let ?step = "\<lambda>packs i. case io_loader io r i of
       Inl e \<Rightarrow> Inl (Wrap ''load index for prune plan revalidation'' e)
     | Inr buf \<Rightarrow> (case DecodeIndex (io_mh io) (io_now io) buf i of
         Inl e \<Rightarrow> Inl (Wrap ''decode index for prune plan revalidation'' e)
       | Inr idx \<Rightarrow> Inr (packs \<union> Packs idx))"
  let ?fp = "\<lambda>i. file_packs (the (map_of (r_indexFiles r) i))"
  have step: "P' = P \<union> ?fp i \<and> i \<in> fst ` set (r_indexFiles r)" if st: "?step P i = Inr P'" for P P' i
  proof -
    have l: "io_load io i = None" using st by (cases "io_load io i") (simp_all add: io_loader_def)
    then obtain f where f: "(i, f) \<in> set (r_indexFiles r)"
      using st by (cases "map_of (r_indexFiles r) i") (auto simp: io_loader_def dest: map_of_SomeD)
    obtain idx where "DecodeIndex (io_mh io) (io_now io) (Inr (file_list f)) i = Inr idx" "decoded (file_list f) i idx"
      using DecodeIndex_decoded [OF store_ok_file(3) [OF assms(1) f]] by blast
    then show ?thesis using l f st store_ok_loader [OF assms(1) f, of io] store_ok_file(1,2) [OF assms(1) f]
      by (force simp: decoded_def Packs_def file_packs_def)
  qed
  have "packs' = P \<union> (\<Union>i \<in> set is. ?fp i) \<and> set is \<subseteq> fst ` set (r_indexFiles r)" if "foldM ?step P is = Inr packs'" for P "is" packs'
    using that
  proof (induction "is" arbitrary: P)
    case (Cons i "is")
    then obtain P' where "?step P i = Inr P'" "foldM ?step P' is = Inr packs'" by (auto simp: rbind_Inr_iff)
    then show ?case using Cons.IH [of P'] step [of P i P'] by auto
  qed simp
  from this [of "{}" "io_order io ids" packs] have "packs = (\<Union>i \<in> ids. ?fp i)" "ids \<subseteq> fst ` set (r_indexFiles r)"
    using assms(2,3,4) by (simp_all add: packsFromIndexes_def io_ok_def)
  moreover from this(2) have "(\<Union>i \<in> ids. ?fp i) = (\<Union>(i, f) \<in> {x \<in> set (r_indexFiles r). fst x \<in> ids}. file_packs f)"
    using store_ok_file(1) [OF assms(1)] by fastforce
  ultimately show ?thesis by simp
qed

section \<open>Finalizing deletes only what is planned\<close>

text \<open>\<open>pruned io plan r r'\<close>: only index files and packs of the marker are gone, no pack of a sealed staging
  journal, and no remaining index file refers to a pack that is gone.\<close>

definition pruned :: "plan_io \<Rightarrow> PlanMarker \<Rightarrow> plan_repo \<Rightarrow> plan_repo \<Rightarrow> bool" where
  "pruned io plan r r' \<longleftrightarrow> (\<exists>gi gp. r_indexFiles r' = filter (\<lambda>x. fst x \<notin> gi) (r_indexFiles r) \<and> r_packFiles r' = r_packFiles r - gp
     \<and> gi \<subseteq> set (pm_IndexIDs plan) \<and> gp \<subseteq> set (pm_PackIDs plan)
     \<and> (\<forall>roots. io_stagedRoots io = Some (Inr roots) \<longrightarrow> gp \<inter> roots = {})
     \<and> (\<forall>(i, f) \<in> set (r_indexFiles r'). file_packs f \<inter> gp = {}))
     \<and> r_PrunePlan r' \<in> {r_PrunePlan r, None} \<and> r_storedPlan r' \<in> {r_storedPlan r, None}"

lemma prunedI:
  assumes "r_indexFiles r' = filter (\<lambda>x. fst x \<notin> gi) (r_indexFiles r)" "r_packFiles r' = r_packFiles r - gp"
    "gi \<subseteq> set (pm_IndexIDs plan)" "gp \<subseteq> set (pm_PackIDs plan)"
    "\<And>roots. io_stagedRoots io = Some (Inr roots) \<Longrightarrow> gp \<inter> roots = {}"
    "\<forall>(i, f) \<in> set (r_indexFiles r'). file_packs f \<inter> gp = {}"
    "r_PrunePlan r' \<in> {r_PrunePlan r, None} \<and> r_storedPlan r' \<in> {r_storedPlan r, None}"
  shows "pruned io plan r r'"
  unfolding pruned_def by (intro conjI exI [of _ gi] exI [of _ gp]) (use assms in auto)

lemma pruned_same: "same_files r r' \<Longrightarrow> pruned io plan r r'"
  unfolding pruned_def same_files_def by (intro conjI exI [of _ "{}"]) auto

lemma pruned_cong: "pruned io plan r r1 \<Longrightarrow> same_files r1 r' \<Longrightarrow> pruned io plan r r'"
  unfolding pruned_def same_files_def by auto

lemma pruned_intact: "pruned io plan r r' \<Longrightarrow> intact r \<Longrightarrow> intact r'"
  unfolding pruned_def intact_def by fastforce

lemma store_ok_filter:
  assumes "store_ok r" "r_indexFiles r' = filter P (r_indexFiles r)"
  shows "store_ok r'"
proof -
  have le: "sum_list (map f (filter P xs)) \<le> sum_list (map f xs)" for f :: "ID \<times> packJSON list result \<Rightarrow> nat" and xs
    by (rule sum_list_filter_le_nat)
  have "distinct (map fst (filter P (r_indexFiles r)))" using assms(1) by (simp add: store_ok_def distinct_map_filter)
  then show ?thesis using assms order_trans [OF le] by (auto simp: store_ok_def)
qed

lemma delete_indexes_effect:
  assumes "io_ok io" "finite ids"
  shows "\<exists>gi. r_indexFiles (fst (delete_indexes io False ids r)) = filter (\<lambda>x. fst x \<notin> gi) (r_indexFiles r) \<and> gi \<subseteq> ids
    \<and> (snd (delete_indexes io False ids r) = None \<longrightarrow> gi = ids)"
    "r_packFiles (fst (delete_indexes io False ids r)) = r_packFiles r" "r_PrunePlan (fst (delete_indexes io False ids r)) = r_PrunePlan r"
    "r_storedPlan (fst (delete_indexes io False ids r)) = r_storedPlan r"
proof -
  let ?d = "deleteFiles io False (io_removeIndex io) ids"
  have d: "delete_indexes io False ids r = (r\<lparr>r_indexFiles := filter (\<lambda>x. fst x \<notin> fst ?d) (r_indexFiles r)\<rparr>, snd ?d)"
    by (simp add: delete_indexes_def Let_def case_prod_unfold)
  show "\<exists>gi. r_indexFiles (fst (delete_indexes io False ids r)) = filter (\<lambda>x. fst x \<notin> gi) (r_indexFiles r) \<and> gi \<subseteq> ids
    \<and> (snd (delete_indexes io False ids r) = None \<longrightarrow> gi = ids)"
    using deleteFiles_gone(1) [OF assms, of False "io_removeIndex io"] deleteFiles_strict [OF assms, of "io_removeIndex io"]
    unfolding d by (intro exI [of _ "fst ?d"]) auto
  show "r_packFiles (fst (delete_indexes io False ids r)) = r_packFiles r" "r_PrunePlan (fst (delete_indexes io False ids r)) = r_PrunePlan r"
    "r_storedPlan (fst (delete_indexes io False ids r)) = r_storedPlan r" by (simp_all add: d)
qed

lemma index_stage:
  fixes r
  assumes "io_ok io" "finite ids"
  defines "s \<equiv> if ids \<noteq> {} then delete_indexes io False ids r else (r, None)"
  shows "\<exists>gi. r_indexFiles (fst s) = filter (\<lambda>x. fst x \<notin> gi) (r_indexFiles r) \<and> gi \<subseteq> ids \<and> (snd s = None \<longrightarrow> gi = ids)
    \<and> r_packFiles (fst s) = r_packFiles r \<and> r_PrunePlan (fst s) = r_PrunePlan r \<and> r_storedPlan (fst s) = r_storedPlan r"
proof (cases "ids = {}")
  case False
  then have "s = delete_indexes io False ids r" by (simp add: s_def)
  then show ?thesis using delete_indexes_effect [OF assms(1,2), of r] by auto
qed (simp add: s_def)

text \<open>The part both ways of finalizing share: packs go once the remaining index files refer to none of them.\<close>

definition pack_stage :: "plan_io \<Rightarrow> (ID \<Rightarrow> go_error option) \<Rightarrow> PlanMarker \<Rightarrow> plan_repo \<Rightarrow> outcome" where
  "pack_stage io remove plan r = (case excludeStagedPackRoots io (set (pm_PackIDs plan)) of Inl e \<Rightarrow> (r, Some e)
     | Inr packIDs \<Rightarrow> andThen (if packIDs \<noteq> {} then delete_packs io True remove packIDs r else (r, None)) (\<lambda>r.
         andThen (finishPrunePlan io (pm_ID plan) r) (\<lambda>r. (clearIndex io r, None))))"

lemma excludeStaged_Inr:
  "excludeStagedPackRoots io c = Inr p \<Longrightarrow> p \<subseteq> c \<and> (\<forall>roots. io_stagedRoots io = Some (Inr roots) \<longrightarrow> p \<inter> roots = {})"
  by (auto simp: excludeStagedPackRoots_def split: option.splits if_splits sum.splits)

lemma pack_stage_pruned:
  assumes "io_ok io" "r_indexFiles r2 = filter (\<lambda>x. fst x \<notin> gi) (r_indexFiles r)" "gi \<subseteq> set (pm_IndexIDs plan)"
    "r_packFiles r2 = r_packFiles r" "r_PrunePlan r2 \<in> {r_PrunePlan r, None} \<and> r_storedPlan r2 \<in> {r_storedPlan r, None}"
    "\<forall>(i, f) \<in> set (r_indexFiles r2). file_packs f \<inter> set (pm_PackIDs plan) = {}"
  shows "pruned io plan r (fst (pack_stage io remove plan r2))"
proof -
  have none: "pruned io plan r r2" by (rule prunedI [of _ gi _ "{}"]) (use assms in auto)
  show ?thesis
  proof (cases "excludeStagedPackRoots io (set (pm_PackIDs plan))")
    case (Inr packs)
    note ex = excludeStaged_Inr [OF Inr]
    let ?d = "deleteFiles io True remove packs"
    have fin: "finite packs" using ex finite_subset by blast
    have gone: "fst ?d \<subseteq> packs" using deleteFiles_gone(1) [OF assms(1) fin] by blast
    have dp: "delete_packs io True remove packs r2 = (r2\<lparr>r_packFiles := r_packFiles r2 - fst ?d\<rparr>, snd ?d)"
      by (simp add: delete_packs_def Let_def case_prod_beta)
    have "pruned io plan r (r2\<lparr>r_packFiles := r_packFiles r2 - fst ?d\<rparr>)"
    proof (rule prunedI [of _ gi _ "fst ?d"])
      show "\<forall>(i, f) \<in> set (r_indexFiles (r2\<lparr>r_packFiles := r_packFiles r2 - fst ?d\<rparr>)). file_packs f \<inter> fst ?d = {}"
        using assms(6) gone ex by fastforce
      show "fst ?d \<inter> roots = {}" if "io_stagedRoots io = Some (Inr roots)" for roots using gone ex that by blast
    qed (use assms gone ex in auto)
    then have "pruned io plan r (fst (if packs \<noteq> {} then delete_packs io True remove packs r2 else (r2, None)))" (is "pruned io plan r (fst ?s)")
      using none dp by simp
    then have "pruned io plan r (fst (andThen ?s (\<lambda>r. andThen (finishPrunePlan io (pm_ID plan) r) (\<lambda>r. (clearIndex io r, None)))))"
    proof (rule andThen_rule)
      fix r3 assume "?s = (r3, None)"
      then have "pruned io plan r r3" using \<open>pruned io plan r (fst ?s)\<close> by simp
      then have f: "pruned io plan r (fst (finishPrunePlan io (pm_ID plan) r3))" by (rule pruned_cong) (rule finish_files)
      show "pruned io plan r (fst (andThen (finishPrunePlan io (pm_ID plan) r3) (\<lambda>r. (clearIndex io r, None))))"
      proof (rule andThen_rule)
        show "pruned io plan r (fst (finishPrunePlan io (pm_ID plan) r3))" by (rule f)
        fix r4 assume "finishPrunePlan io (pm_ID plan) r3 = (r4, None)"
        then have "pruned io plan r r4" using f by simp
        then show "pruned io plan r (fst (clearIndex io r4, None))" by (rule pruned_cong) (simp add: same_files_def clearIndex_def)
      qed
    qed
    then show ?thesis by (simp add: pack_stage_def Inr)
  qed (simp add: pack_stage_def none)
qed

lemma finite_mi_IDs: "finite (mi_IDs mi)"
  by (auto simp: mi_IDs_def split: sum.splits)

text \<open>The two ways to finalize, over the shared stages.\<close>

lemma FinalizePrunePlan_ready:
  assumes "r_PrunePlan r = Some plan" "pm_Version plan = prunePlanVersion" "pm_ID plan \<noteq> []" "pm_State plan = prunePlanReady"
  shows "FinalizePrunePlan io r = andThen (LoadIndex io (clearIndex io r)) (\<lambda>r.
       if \<not> set (pm_RequiredIndexes plan) \<subseteq> mi_IDs (r_idx r)
       then (r, Some (Error ''deferred prune plan cannot be finalized: replacement index is missing''))
       else case packsFromIndexes io r (mi_IDs (r_idx r) - set (pm_IndexIDs plan)) of Inl e \<Rightarrow> (r, Some e)
       | Inr indexedPacks \<Rightarrow>
         if set (pm_PackIDs plan) \<inter> indexedPacks \<noteq> {}
         then (r, Some (Error ''deferred prune plan cannot delete pack: it is referenced by a current non-obsolete index''))
         else andThen (if set (pm_IndexIDs plan) \<inter> mi_IDs (r_idx r) \<noteq> {}
             then delete_indexes io False (set (pm_IndexIDs plan) \<inter> mi_IDs (r_idx r)) r else (r, None))
           (pack_stage io (io_removePack io) plan))"
proof -
  have "prunePlanReady \<noteq> prunePlanPhaseA" by (simp add: prunePlanReady_def prunePlanPhaseA_def)
  then show ?thesis unfolding FinalizePrunePlan_def pack_stage_def [abs_def] Let_def using assms by simp
qed

lemma FinalizePrunePlan_pruned:
  assumes "store_ok r" "io_ok io" "r_PrunePlan r = Some plan"
  shows "pruned io plan r (fst (FinalizePrunePlan io r))"
proof (cases "pm_Version plan = prunePlanVersion \<and> pm_ID plan \<noteq> [] \<and> pm_State plan = prunePlanReady")
  case False
  then have "same_files r (fst (FinalizePrunePlan io r))" using assms(3) by (auto simp: FinalizePrunePlan_def clearPending_files)
  then show ?thesis by (rule pruned_same)
next
  case True
  then have rdy: "pm_Version plan = prunePlanVersion" "pm_ID plan \<noteq> []" "pm_State plan = prunePlanReady" by simp_all
  show ?thesis unfolding FinalizePrunePlan_ready [OF assms(3) rdy]
  proof (rule andThen_rule)
    have "same_files (clearIndex io r) (fst (LoadIndex io (clearIndex io r)))" by (rule LoadIndex_files)
    then have "same_files r (fst (LoadIndex io (clearIndex io r)))" by (simp add: same_files_def clearIndex_def)
    then show "pruned io plan r (fst (LoadIndex io (clearIndex io r)))" by (rule pruned_same)
    fix r1 assume l: "LoadIndex io (clearIndex io r) = (r1, None)"
    note ids = LoadIndex_IDs(1) [OF assms(1) l] and same = LoadIndex_IDs(2) [OF assms(1) l]
    let ?ids = "set (pm_IndexIDs plan) \<inter> mi_IDs (r_idx r1)"
    let ?del = "if ?ids \<noteq> {} then delete_indexes io False ?ids r1 else (r1, None)"
    have p1: "pruned io plan r r1" by (rule pruned_same [OF same])
    have ok1: "store_ok r1" using assms(1) same by (simp add: store_ok_def same_files_def)
    have "finite ?ids" by simp
    note same1 = same [unfolded same_files_def]
    from index_stage [OF assms(2) \<open>finite ?ids\<close>, of r1]
    obtain gi where gi: "r_indexFiles (fst ?del) = filter (\<lambda>x. fst x \<notin> gi) (r_indexFiles r)" "gi \<subseteq> ?ids" "snd ?del = None \<longrightarrow> gi = ?ids"
      "r_packFiles (fst ?del) = r_packFiles r1 \<and> r_PrunePlan (fst ?del) = r_PrunePlan r1 \<and> r_storedPlan (fst ?del) = r_storedPlan r1"
      unfolding same1 [THEN conjunct1] by (elim exE conjE) (rule that, assumption+, intro conjI)
    have m: "r_PrunePlan (fst ?del) \<in> {r_PrunePlan r, None} \<and> r_storedPlan (fst ?del) \<in> {r_storedPlan r, None}"
      "r_packFiles (fst ?del) = r_packFiles r" using gi(4) same1 by auto
    have stage: "pruned io plan r (fst (andThen ?del (pack_stage io (io_removePack io) plan)))"
      if packs: "packsFromIndexes io r1 (mi_IDs (r_idx r1) - set (pm_IndexIDs plan)) = Inr packs" "set (pm_PackIDs plan) \<inter> packs = {}" for packs
    proof (rule andThen_rule)
      show "pruned io plan r (fst ?del)" by (rule prunedI [of _ gi _ "{}"]) (use gi(1,2) m in auto)
      fix r2 assume r2: "?del = (r2, None)"
      have "packs = (\<Union>(i, f) \<in> {x \<in> set (r_indexFiles r). fst x \<in> mi_IDs (r_idx r1) - set (pm_IndexIDs plan)}. file_packs f)"
        using packsFromIndexes_packs [OF ok1 assms(2) _ packs(1)] same by (simp add: same_files_def finite_mi_IDs)
      moreover have "(i, f) \<in> set (r_indexFiles r) \<and> i \<in> mi_IDs (r_idx r1) - set (pm_IndexIDs plan)"
        if "(i, f) \<in> set (r_indexFiles r2)" for i f
      proof -
        have "gi = ?ids" using gi(3) r2 by simp
        moreover have "(i, f) \<in> set (r_indexFiles r)" "i \<notin> gi" using that gi(1) r2 by auto
        moreover from this(1) have "i \<in> mi_IDs (r_idx r1)" unfolding ids by force
        ultimately show ?thesis by blast
      qed
      ultimately have "\<forall>(i, f) \<in> set (r_indexFiles r2). file_packs f \<inter> set (pm_PackIDs plan) = {}"
        using packs(2) by fastforce
      then show "pruned io plan r (fst (pack_stage io (io_removePack io) plan r2))"
        using gi(1,2) m r2 by (intro pack_stage_pruned [OF assms(2)]) auto
    qed
    show "pruned io plan r (fst (if \<not> set (pm_RequiredIndexes plan) \<subseteq> mi_IDs (r_idx r1)
       then (r1, Some (Error ''deferred prune plan cannot be finalized: replacement index is missing''))
       else case packsFromIndexes io r1 (mi_IDs (r_idx r1) - set (pm_IndexIDs plan)) of Inl e \<Rightarrow> (r1, Some e)
       | Inr indexedPacks \<Rightarrow>
         if set (pm_PackIDs plan) \<inter> indexedPacks \<noteq> {}
         then (r1, Some (Error ''deferred prune plan cannot delete pack: it is referenced by a current non-obsolete index''))
         else andThen ?del (pack_stage io (io_removePack io) plan)))"
      using p1 stage by (cases "packsFromIndexes io r1 (mi_IDs (r_idx r1) - set (pm_IndexIDs plan))") simp_all
  qed
qed

lemma FinalizePrunePlanLoaded_ready:
  assumes "r_PrunePlan r = Some plan" "pm_Version plan = prunePlanVersion" "pm_ID plan \<noteq> []" "pm_State plan = prunePlanReady"
    "set (pm_RequiredIndexes plan) \<subseteq> mi_IDs (r_idx r)"
  shows "FinalizePrunePlanLoaded io r =
     andThen (if set (pm_IndexIDs plan) \<noteq> {} then delete_indexes io False (set (pm_IndexIDs plan)) r else (r, None)) (\<lambda>r2.
     case packsFromIndexes io r2 (mi_IDs (r_idx r) - set (pm_IndexIDs plan)) of Inl e \<Rightarrow> (r2, Some e)
     | Inr indexedPacks \<Rightarrow>
       if set (pm_PackIDs plan) \<inter> indexedPacks \<noteq> {}
       then (r2, Some (Error ''prune plan cannot delete pack: it is still referenced by a rewritten index''))
       else pack_stage io (if io_stagedRoots io = None then io_removePack io else staged_remove io) plan r2)"
  unfolding FinalizePrunePlanLoaded_def pack_stage_def [abs_def] Let_def using assms by simp

lemma FinalizePrunePlanLoaded_pruned:
  assumes "store_ok r" "io_ok io" "r_PrunePlan r = Some plan" "fst ` set (r_indexFiles r) \<subseteq> mi_IDs (r_idx r)"
  shows "pruned io plan r (fst (FinalizePrunePlanLoaded io r))"
proof (cases "pm_Version plan = prunePlanVersion \<and> pm_ID plan \<noteq> [] \<and> pm_State plan = prunePlanReady
    \<and> set (pm_RequiredIndexes plan) \<subseteq> mi_IDs (r_idx r)")
  case False
  then have "fst (FinalizePrunePlanLoaded io r) = r" using assms(3) by (auto simp: FinalizePrunePlanLoaded_def Let_def)
  then show ?thesis by (simp add: pruned_same)
next
  case True
  let ?del = "if set (pm_IndexIDs plan) \<noteq> {} then delete_indexes io False (set (pm_IndexIDs plan)) r else (r, None)"
  let ?rem = "if io_stagedRoots io = None then io_removePack io else staged_remove io"
  have "finite (set (pm_IndexIDs plan))" by simp
  from index_stage [OF assms(2) this, of r]
  obtain gi where gi: "r_indexFiles (fst ?del) = filter (\<lambda>x. fst x \<notin> gi) (r_indexFiles r)" "gi \<subseteq> set (pm_IndexIDs plan)"
    "snd ?del = None \<longrightarrow> gi = set (pm_IndexIDs plan)"
    "r_packFiles (fst ?del) = r_packFiles r \<and> r_PrunePlan (fst ?del) = r_PrunePlan r \<and> r_storedPlan (fst ?del) = r_storedPlan r"
    by (elim exE conjE) (rule that, assumption+, intro conjI)
  have d: "pruned io plan r (fst ?del)" by (rule prunedI [of _ gi _ "{}"]) (use gi(1,2,4) in auto)
  show ?thesis unfolding FinalizePrunePlanLoaded_ready [OF assms(3) True [THEN conjunct1] True [THEN conjunct2, THEN conjunct1]
      True [THEN conjunct2, THEN conjunct2, THEN conjunct1] True [THEN conjunct2, THEN conjunct2, THEN conjunct2]]
  proof (rule andThen_rule)
    show "pruned io plan r (fst ?del)" by (rule d)
    fix r2 assume r2: "?del = (r2, None)"
    have ok2: "store_ok r2" by (rule store_ok_filter [OF assms(1)]) (use gi(1) r2 in simp)
    have p2: "pruned io plan r r2" using d r2 by simp
    have stage: "pruned io plan r (fst (pack_stage io ?rem plan r2))"
      if packs: "packsFromIndexes io r2 (mi_IDs (r_idx r) - set (pm_IndexIDs plan)) = Inr packs" "set (pm_PackIDs plan) \<inter> packs = {}" for packs
    proof -
      have "packs = (\<Union>(i, f) \<in> {x \<in> set (r_indexFiles r2). fst x \<in> mi_IDs (r_idx r) - set (pm_IndexIDs plan)}. file_packs f)"
        by (rule packsFromIndexes_packs [OF ok2 assms(2) _ packs(1)]) (simp add: finite_mi_IDs)
      moreover have "fst x \<in> mi_IDs (r_idx r) - set (pm_IndexIDs plan)" if "x \<in> set (r_indexFiles r2)" for x
        using that gi(1,3) r2 assms(4) by auto
      ultimately have "\<forall>(i, f) \<in> set (r_indexFiles r2). file_packs f \<inter> set (pm_PackIDs plan) = {}" using packs(2) by fastforce
      then show ?thesis using gi(1,2,4) r2 by (intro pack_stage_pruned [OF assms(2)]) auto
    qed
    show "pruned io plan r (fst (case packsFromIndexes io r2 (mi_IDs (r_idx r) - set (pm_IndexIDs plan)) of Inl e \<Rightarrow> (r2, Some e)
     | Inr indexedPacks \<Rightarrow>
       if set (pm_PackIDs plan) \<inter> indexedPacks \<noteq> {}
       then (r2, Some (Error ''prune plan cannot delete pack: it is still referenced by a rewritten index''))
       else pack_stage io ?rem plan r2))"
      using p2 stage by (cases "packsFromIndexes io r2 (mi_IDs (r_idx r) - set (pm_IndexIDs plan))") simp_all
  qed
qed

section \<open>The plan as a state machine\<close>

text \<open>What may happen to a repository: the operations on plans with any environment, a backup that uploads
  packs and then an index file for them, and reopening, which reads the stored marker. \<^verbatim>\<open>FinalizePrunePlanLoaded\<close>
  is called right after the index was rewritten under the exclusive lock, when the index in memory
  knows every stored file.\<close>

inductive plan_step :: "plan_repo \<Rightarrow> plan_repo \<Rightarrow> bool" where
  begin_plan: "io_newID io \<noteq> [] \<Longrightarrow> plan_step r (fst (BeginPrunePlan io r))"
| complete_plan: "plan_step r (fst (CompletePrunePlan io i observed required indexIDs packIDs r))"
| finalize_plan: "io_ok io \<Longrightarrow> plan_step r (fst (FinalizePrunePlan io r))"
| finalize_loaded: "io_ok io \<Longrightarrow> fst ` set (r_indexFiles r) \<subseteq> mi_IDs (r_idx r) \<Longrightarrow> plan_step r (fst (FinalizePrunePlanLoaded io r))"
| upload_packs: "plan_step r (r\<lparr>r_packFiles := r_packFiles r \<union> packs\<rparr>)"
| upload_index: "set (map pj_ID f) \<subseteq> r_packFiles r \<Longrightarrow> store_ok (r\<lparr>r_indexFiles := r_indexFiles r @ [(i, Inr f)]\<rparr>)
    \<Longrightarrow> plan_step r (r\<lparr>r_indexFiles := r_indexFiles r @ [(i, Inr f)], r_idx := mi\<rparr>)"
| reopen: "plan_step r (r\<lparr>r_PrunePlan := r_storedPlan r, r_idx := mi\<rparr>)"

definition marker_ok :: "PlanMarker option \<Rightarrow> bool" where
  "marker_ok m = (case m of None \<Rightarrow> True | Some p \<Rightarrow> pm_Version p = prunePlanVersion \<and> pm_ID p \<noteq> []
     \<and> (pm_State p = prunePlanPhaseA \<and> pm_IndexIDs p = [] \<and> pm_PackIDs p = [] \<or> pm_State p = prunePlanReady))"

definition plan_inv :: "plan_repo \<Rightarrow> bool" where
  "plan_inv r \<longleftrightarrow> store_ok r \<and> intact r \<and> marker_ok (r_PrunePlan r) \<and> marker_ok (r_storedPlan r)"

lemma plan_inv_config:
  assumes "plan_inv r" "\<And>q. fn (r_PrunePlan r) = Inr q \<Longrightarrow> marker_ok q"
  shows "plan_inv (fst (UpdateConfigAtomically io fn r))"
  using assms UpdateConfigAtomically_plan [of io fn r] UpdateConfigAtomically_files [of io fn r]
  by (auto simp: plan_inv_def store_ok_def intact_def)

lemma plan_inv_pruned: "plan_inv r \<Longrightarrow> pruned io plan r r' \<Longrightarrow> plan_inv r'"
  using pruned_intact [of io plan r r'] store_ok_filter [of r r']
  by (auto simp: plan_inv_def pruned_def marker_ok_def)

lemma plan_step_inv:
  assumes "plan_step r r'" "plan_inv r"
  shows "plan_inv r'"
  using assms
proof (cases rule: plan_step.cases)
  case (begin_plan io)
  show ?thesis using assms(2) unfolding begin_plan BeginPrunePlan_def
    by (auto split: option.split intro!: plan_inv_config simp: begin_plan marker_ok_def)
next
  case (complete_plan io i observed required indexIDs packIDs)
  have "marker_ok (r_PrunePlan r)" using assms(2) by (simp add: plan_inv_def)
  then show ?thesis using assms(2) unfolding complete_plan CompletePrunePlan_def Let_def
    by (intro plan_inv_config) (auto simp: marker_ok_def split: option.splits if_splits)
next
  case (finalize_plan io)
  show ?thesis
  proof (cases "r_PrunePlan r")
    case (Some plan)
    have "store_ok r" using assms(2) by (simp add: plan_inv_def)
    from plan_inv_pruned [OF assms(2) FinalizePrunePlan_pruned [OF this finalize_plan(2) Some]] show ?thesis by (simp add: finalize_plan)
  qed (use finalize_plan assms(2) in \<open>simp add: FinalizePrunePlan_def\<close>)
next
  case (finalize_loaded io)
  show ?thesis
  proof (cases "r_PrunePlan r")
    case (Some plan)
    have "store_ok r" using assms(2) by (simp add: plan_inv_def)
    from plan_inv_pruned [OF assms(2) FinalizePrunePlanLoaded_pruned [OF this finalize_loaded(2) Some finalize_loaded(3)]]
    show ?thesis by (simp add: finalize_loaded)
  qed (use finalize_loaded assms(2) in \<open>simp add: FinalizePrunePlanLoaded_def\<close>)
next
  case (upload_packs packs)
  then show ?thesis using assms(2) by (auto simp: plan_inv_def store_ok_def intact_def)
next
  case (upload_index f i mi)
  then show ?thesis using assms(2) by (auto simp: plan_inv_def store_ok_def intact_def file_packs_def file_list_def)
next
  case (reopen mi)
  then show ?thesis using assms(2) by (auto simp: plan_inv_def store_ok_def intact_def)
qed

section \<open>Completion\<close>

text \<open>An environment without failures; failures to delete a pack are ignored by the code.\<close>

definition io_good :: "plan_io \<Rightarrow> bool" where
  "io_good io \<longleftrightarrow> io_ok io \<and> (\<forall>i. io_load io i = None) \<and> io_prepareCache io = None \<and> io_saveConfig io = None
     \<and> (\<forall>i. io_removeIndex io i = None) \<and> (\<forall>e. io_stagedRoots io \<noteq> Some (Inl e))"

definition config_writable :: "plan_repo \<Rightarrow> bool" where
  "config_writable r \<longleftrightarrow> r_atomicReplace r \<and> \<not> r_appendOnly r \<and> r_extensionError r = None"

text \<open>The replacement indexes are stored, and only obsolete index files refer to the packs.\<close>

definition finalizable :: "PlanMarker \<Rightarrow> plan_repo \<Rightarrow> bool" where
  "finalizable plan r \<longleftrightarrow> pm_Version plan = prunePlanVersion \<and> pm_ID plan \<noteq> [] \<and> pm_State plan = prunePlanReady
     \<and> set (pm_RequiredIndexes plan) \<subseteq> fst ` set (r_indexFiles r) - set (pm_IndexIDs plan)
     \<and> (\<forall>(i, f) \<in> set (r_indexFiles r). i \<notin> set (pm_IndexIDs plan) \<longrightarrow> file_packs f \<inter> set (pm_PackIDs plan) = {})"

lemma finalizable_pruned: "finalizable plan r \<Longrightarrow> pruned io plan r r' \<Longrightarrow> finalizable plan r'"
proof -
  assume a: "finalizable plan r" "pruned io plan r r'"
  then obtain gi where gi: "r_indexFiles r' = filter (\<lambda>x. fst x \<notin> gi) (r_indexFiles r)" "gi \<subseteq> set (pm_IndexIDs plan)"
    by (auto simp: pruned_def)
  have "fst ` set (r_indexFiles r) - set (pm_IndexIDs plan) \<subseteq> fst ` set (r_indexFiles r')" using gi by (auto simp: image_iff)
  moreover have "set (r_indexFiles r') \<subseteq> set (r_indexFiles r)" using gi(1) by auto
  ultimately show "finalizable plan r'" using a(1) unfolding finalizable_def by blast
qed

lemma packsFromIndexes_total:
  assumes "store_ok r" "io_good io" "ids \<subseteq> fst ` set (r_indexFiles r)"
  shows "\<exists>packs. packsFromIndexes io r ids = Inr packs"
proof -
  let ?step = "\<lambda>packs i. case io_loader io r i of
       Inl e \<Rightarrow> Inl (Wrap ''load index for prune plan revalidation'' e)
     | Inr buf \<Rightarrow> (case DecodeIndex (io_mh io) (io_now io) buf i of
         Inl e \<Rightarrow> Inl (Wrap ''decode index for prune plan revalidation'' e)
       | Inr idx \<Rightarrow> Inr (packs \<union> Packs idx))"
  have step: "\<exists>P'. ?step P i = Inr P'" if i: "i \<in> fst ` set (r_indexFiles r)" for P i
  proof -
    obtain f where f: "(i, f) \<in> set (r_indexFiles r)" using i by auto
    have "io_loader io r i = Inr (Inr (file_list f))"
      using store_ok_loader [OF assms(1) f, of io] store_ok_file(2) [OF assms(1) f] assms(2) by (simp add: io_good_def)
    then show ?thesis using DecodeIndex_decoded [OF store_ok_file(3) [OF assms(1) f], of "io_mh io" "io_now io" i] by auto
  qed
  have "\<exists>P'. foldM ?step P is = Inr P'" if "set is \<subseteq> fst ` set (r_indexFiles r)" for P "is"
    using that
  proof (induction "is" arbitrary: P)
    case (Cons i "is")
    obtain P' where "?step P i = Inr P'" using step [of i P] Cons.prems by auto
    then show ?case using Cons.IH [of P'] Cons.prems by simp
  qed simp
  moreover have "set (io_order io ids) = ids" using assms(2,3) finite_subset [OF assms(3)] by (simp add: io_good_def io_ok_def)
  ultimately show ?thesis using assms(3) by (simp add: packsFromIndexes_def)
qed

lemma LoadIndex_good:
  assumes "store_ok r" "io_good io" "2 \<le> r_version r"
  shows "\<exists>mi. LoadIndex io (clearIndex io r) = (r\<lparr>r_idx := mi\<rparr>, None) \<and> mi_IDs mi = fst ` set (r_indexFiles r)"
proof -
  have "\<forall>i \<in> fst ` set (r_indexFiles r). io_load io i = None" using assms(2) by (simp add: io_good_def)
  from Load_all [OF assms(1) this]
  obtain mi where mi: "mi_Load (io_mh io) (io_now io) (io_loader io r) None (NewMasterIndex (io_mh io) (io_now io)) (map fst (r_indexFiles r)) = Inr mi"
    "loaded_view (\<lambda>i. file_list (the (map_of (r_indexFiles r) i))) mi (fst ` set (r_indexFiles r))"
    by (elim exE conjE) (rule that)
  have c: "io_loader io (clearIndex io r) = io_loader io r"
    by (simp add: clearIndex_def io_loader_def fun_eq_iff split: option.split)
  have "LoadIndex io (clearIndex io r) = (r\<lparr>r_idx := mi\<rparr>, None)"
    unfolding LoadIndex_def c using mi(1) assms(2,3) by (simp add: clearIndex_def io_good_def Let_def not_less [symmetric])
  then show ?thesis using loaded_view_IDs [OF mi(2)] by blast
qed

lemma pack_stage_good:
  assumes "io_good io" "config_writable r" "r_PrunePlan r = Some plan"
  shows "\<exists>r'. pack_stage io remove plan r = (r', None) \<and> r_PrunePlan r' = None \<and> r_storedPlan r' = None \<and> r_indexFiles r' = r_indexFiles r"
proof -
  obtain packs where p: "excludeStagedPackRoots io (set (pm_PackIDs plan)) = Inr packs"
  proof (cases "io_stagedRoots io")
    case (Some staged)
    then obtain roots where "staged = Inr roots" using assms(1) by (cases staged) (auto simp: io_good_def)
    then show thesis using that Some by (cases "set (pm_PackIDs plan) = {}") (simp_all add: excludeStagedPackRoots_def)
  qed (use that in \<open>simp add: excludeStagedPackRoots_def\<close>)
  have fin: "finite packs" using excludeStaged_Inr [OF p] finite_subset by blast
  have ok: "io_ok io" using assms(1) by (simp add: io_good_def)
  let ?d = "deleteFiles io True remove packs"
  have "snd ?d = None" using deleteFiles_gone(3) [OF ok fin] by simp
  then have "delete_packs io True remove packs r = (r\<lparr>r_packFiles := r_packFiles r - fst ?d\<rparr>, None)"
    by (simp add: delete_packs_def Let_def case_prod_unfold)
  then obtain r3 where r3: "(if packs \<noteq> {} then delete_packs io True remove packs r else (r, None)) = (r3, None)"
    "config_writable r3" "r_PrunePlan r3 = Some plan" "r_indexFiles r3 = r_indexFiles r"
    using assms(2,3) by (cases "packs = {}") (auto simp: config_writable_def)
  have "finishPrunePlan io (pm_ID plan) r3 = (r3\<lparr>r_storedPlan := None, r_PrunePlan := None\<rparr>, None)"
    using r3(2,3) assms(1) by (simp add: finishPrunePlan_def UpdateConfigAtomically_def UpdateConfig_def config_writable_def io_good_def)
  then show ?thesis using r3 p by (simp add: pack_stage_def clearIndex_def)
qed

lemma Finalize_completes:
  assumes "store_ok r" "io_good io" "2 \<le> r_version r" "config_writable r" "r_PrunePlan r = Some plan" "finalizable plan r"
  shows "\<exists>r'. FinalizePrunePlan io r = (r', None) \<and> r_PrunePlan r' = None \<and> r_storedPlan r' = None
    \<and> fst ` set (r_indexFiles r') = fst ` set (r_indexFiles r) - set (pm_IndexIDs plan)"
proof -
  have ok: "io_ok io" using assms(2) by (simp add: io_good_def)
  note fin = assms(6) [unfolded finalizable_def]
  obtain mi where mi: "LoadIndex io (clearIndex io r) = (r\<lparr>r_idx := mi\<rparr>, None)" "mi_IDs mi = fst ` set (r_indexFiles r)"
    using LoadIndex_good [OF assms(1-3)] by blast
  let ?r1 = "r\<lparr>r_idx := mi\<rparr>" let ?ids = "set (pm_IndexIDs plan) \<inter> mi_IDs mi"
  have ok1: "store_ok ?r1" using assms(1) by (simp add: store_ok_def)
  have surv: "mi_IDs mi - set (pm_IndexIDs plan) \<subseteq> fst ` set (r_indexFiles ?r1)" by (auto simp: mi(2))
  obtain packs where packs: "packsFromIndexes io ?r1 (mi_IDs mi - set (pm_IndexIDs plan)) = Inr packs"
    using packsFromIndexes_total [OF ok1 assms(2) surv] by blast
  have "packs = (\<Union>(i, f) \<in> {x \<in> set (r_indexFiles ?r1). fst x \<in> mi_IDs mi - set (pm_IndexIDs plan)}. file_packs f)"
    by (rule packsFromIndexes_packs [OF ok1 ok _ packs]) (simp add: finite_mi_IDs)
  then have disj: "set (pm_PackIDs plan) \<inter> packs = {}" using fin by fastforce
  let ?d = "deleteFiles io False (io_removeIndex io) ?ids"
  have "snd ?d = None" using deleteFiles_gone(3) [OF ok, of ?ids] assms(2) by (simp add: io_good_def)
  then have gone: "snd ?d = None" "fst ?d = ?ids" using deleteFiles_strict [OF ok, of ?ids "io_removeIndex io"] by simp_all
  have "delete_indexes io False ?ids ?r1 = (?r1\<lparr>r_indexFiles := filter (\<lambda>x. fst x \<notin> ?ids) (r_indexFiles r)\<rparr>, None)"
    using gone by (simp add: delete_indexes_def Let_def case_prod_unfold)
  then obtain r2 where r2: "(if ?ids \<noteq> {} then delete_indexes io False ?ids ?r1 else (?r1, None)) = (r2, None)"
    "config_writable r2" "r_PrunePlan r2 = Some plan" "r_indexFiles r2 = filter (\<lambda>x. fst x \<notin> ?ids) (r_indexFiles r)"
    using assms(4,5) by (cases "?ids = {}") (auto simp: config_writable_def)
  obtain r' where r': "pack_stage io (io_removePack io) plan r2 = (r', None)" "r_PrunePlan r' = None" "r_storedPlan r' = None"
    "r_indexFiles r' = r_indexFiles r2" using pack_stage_good [OF assms(2) r2(2,3)] by blast
  have req: "set (pm_RequiredIndexes plan) \<subseteq> mi_IDs mi" using fin mi(2) by blast
  have idx: "r_idx ?r1 = mi" by simp
  have "pm_Version plan = prunePlanVersion" "pm_ID plan \<noteq> []" "pm_State plan = prunePlanReady" using fin by blast+
  note ready = FinalizePrunePlan_ready [OF assms(5) this, of io, unfolded mi(1) andThen_simps idx packs]
  have "FinalizePrunePlan io r = (r', None)" unfolding ready r2(1) using req disj r'(1) by simp
  moreover have "fst ` set (r_indexFiles r') = fst ` set (r_indexFiles r) - set (pm_IndexIDs plan)"
    unfolding r'(4) r2(4) by (force simp: mi(2))
  ultimately show ?thesis using r'(2,3) by blast
qed

section \<open>A sample repository\<close>

text \<open>Index file 1 refers to pack 3, its replacement 2 to pack 4. The plan deletes 1 and 3.\<close>

abbreviation nid :: "u8 \<Rightarrow> ID" where
  "nid k \<equiv> replicate 32 k"

definition sample_marker :: PlanMarker where
  "sample_marker = \<lparr>pm_Version = 1, pm_ID = ''plan'', pm_State = ''ready'', pm_CreatedAt = 0, pm_ObservedIndexes = [nid 1],
     pm_RequiredIndexes = [nid 2], pm_IndexIDs = [nid 1], pm_PackIDs = [nid 3]\<rparr>"

definition sample_plan_repo :: plan_repo where
  "sample_plan_repo = \<lparr>r_version = 2, r_atomicReplace = True, r_appendOnly = False, r_extensionError = None,
     r_PrunePlan = Some sample_marker, r_storedPlan = Some sample_marker, r_idx = NewMasterIndex (\<lambda>_ _. 0) 0,
     r_indexFiles = [(nid 1, Inr [\<lparr>pj_ID = nid 3, pj_Blobs = []\<rparr>]), (nid 2, Inr [\<lparr>pj_ID = nid 4, pj_Blobs = []\<rparr>])],
     r_packFiles = {nid 3, nid 4}\<rparr>"

text \<open>\<open>sample_io e\<close>: index files cannot be read if \<open>e\<close> is an error, everything else works.\<close>

definition sample_io :: "go_error option \<Rightarrow> plan_io" where
  "sample_io e = \<lparr>io_now = 1, io_newID = ''new'', io_mh = (\<lambda>_ _. 0), io_order = sorted_list_of_set, io_load = (\<lambda>_. e),
     io_prepareCache = None, io_saveConfig = None, io_saveReached = True, io_removeIndex = (\<lambda>_. None), io_removePack = (\<lambda>_. None),
     io_inFlight = {}, io_stagedRoots = None, io_stagedAt = (\<lambda>_. Inr {})\<rparr>"

lemma sample_io_ok: "io_ok (sample_io e)" "io_good (sample_io None)"
  by (simp_all add: io_good_def io_ok_def sample_io_def)

lemma sample_plan_repo_ok: "store_ok sample_plan_repo" "intact sample_plan_repo" "plan_inv sample_plan_repo"
  "config_writable sample_plan_repo" "finalizable sample_marker sample_plan_repo"
  "r_PrunePlan sample_plan_repo = Some sample_marker" "r_storedPlan sample_plan_repo = Some sample_marker" "2 \<le> r_version sample_plan_repo"
  by (simp_all add: plan_inv_def store_ok_def intact_def marker_ok_def sample_plan_repo_def sample_marker_def file_list_def file_packs_def
      file_ok_def file_blobs_def group_blobs_def maxUint32_def prunePlanVersion_def prunePlanReady_def config_writable_def finalizable_def)

lemma sample_failed_run:
  "\<exists>r1 e. FinalizePrunePlan (sample_io (Some (Error ''timeout''))) sample_plan_repo = (r1, Some e)
     \<and> r_storedPlan r1 = Some sample_marker \<and> config_writable r1 \<and> 2 \<le> r_version r1"
proof -
  let ?io = "sample_io (Some (Error ''timeout''))" let ?r = "clearIndex ?io sample_plan_repo"
  have "\<exists>e. LoadIndex ?io ?r = (?r, Some e)"
    by (simp add: LoadIndex_def clearIndex_def mi_Load_def NewMasterIndex_prepare sample_plan_repo_def load_step_def loadIndex_def
        io_loader_def sample_io_def)
  moreover have "pm_Version sample_marker = prunePlanVersion" "pm_ID sample_marker \<noteq> []" "pm_State sample_marker = prunePlanReady"
    by (simp_all add: sample_marker_def prunePlanVersion_def prunePlanReady_def)
  ultimately show ?thesis using FinalizePrunePlan_ready [OF sample_plan_repo_ok(6), of ?io]
    by (auto simp: clearIndex_def sample_plan_repo_ok config_writable_def) (simp_all add: sample_plan_repo_def)
qed

section \<open>What the plans guarantee\<close>

text \<open>C1: Finalizing a prune plan, whatever fails on the way, deletes only index files and packs named by the marker and
  no pack of a sealed staging journal; no remaining index file refers to a deleted pack; and a marker that is not
  ready deletes nothing.\<close>

theorem FinalizePrunePlan_planned:
  assumes "store_ok r" "io_ok io" "r_PrunePlan r = Some plan" "FinalizePrunePlan io r = (r', e)"
  shows "pruned io plan r r'
    \<and> (pm_State plan \<noteq> prunePlanReady \<longrightarrow> r_indexFiles r' = r_indexFiles r \<and> r_packFiles r' = r_packFiles r)"
proof -
  have "pruned io plan r r'" using FinalizePrunePlan_pruned [OF assms(1-3)] assms(4) by simp
  moreover have "r_indexFiles r' = r_indexFiles r \<and> r_packFiles r' = r_packFiles r" if "pm_State plan \<noteq> prunePlanReady"
    using that assms(3,4) clearPending_files [of r io "pm_ID plan"] by (auto simp: FinalizePrunePlan_def same_files_def split: if_splits)
  ultimately show ?thesis by blast
qed

theorem FinalizePrunePlan_planned_witness:
  "pruned (sample_io None) sample_marker sample_plan_repo (fst (FinalizePrunePlan (sample_io None) sample_plan_repo))"
  using FinalizePrunePlan_planned [OF sample_plan_repo_ok(1) sample_io_ok(1) sample_plan_repo_ok(6), of None
      "fst (FinalizePrunePlan (sample_io None) sample_plan_repo)" "snd (FinalizePrunePlan (sample_io None) sample_plan_repo)"] by simp



text \<open>C24: An interrupted finalization can be completed: if a run fails, reopening the repository and finalizing again
  without failures succeeds and clears the marker. Unless the failed run had already cleared the stored marker, all
  obsolete index files are gone afterwards and the others are still there.\<close>

theorem FinalizePrunePlan_retry:
  assumes "store_ok r" "r_PrunePlan r = Some plan" "r_storedPlan r = Some plan" "finalizable plan r"
    "io_ok io1" "FinalizePrunePlan io1 r = (r1, Some e)"
    "io_good io2" "config_writable r1" "2 \<le> r_version r1"
  shows "\<exists>r2. FinalizePrunePlan io2 (r1\<lparr>r_PrunePlan := r_storedPlan r1, r_idx := mi\<rparr>) = (r2, None) \<and> r_PrunePlan r2 = None
    \<and> (r_storedPlan r1 \<noteq> None \<longrightarrow> fst ` set (r_indexFiles r2) = fst ` set (r_indexFiles r) - set (pm_IndexIDs plan))"
proof -
  let ?r = "r1\<lparr>r_PrunePlan := r_storedPlan r1, r_idx := mi\<rparr>"
  have p: "pruned io1 plan r r1" using FinalizePrunePlan_pruned [OF assms(1,5,2)] assms(6) by simp
  then obtain gi where gi: "r_indexFiles r1 = filter (\<lambda>x. fst x \<notin> gi) (r_indexFiles r)" "gi \<subseteq> set (pm_IndexIDs plan)"
    by (auto simp: pruned_def)
  show ?thesis
  proof (cases "r_storedPlan r1")
    case None
    then show ?thesis by (simp add: FinalizePrunePlan_def)
  next
    case (Some q)
    then have "q = plan" using p assms(3) by (auto simp: pruned_def)
    then have m: "r_PrunePlan ?r = Some plan" using Some by simp
    have ok: "store_ok ?r" using store_ok_filter [OF assms(1) gi(1)] by (simp add: store_ok_def)
    have w: "config_writable ?r" "2 \<le> r_version ?r" using assms(8,9) by (simp_all add: config_writable_def)
    have f: "finalizable plan ?r" using finalizable_pruned [OF assms(4) p] by (simp add: finalizable_def)
    from Finalize_completes [OF ok assms(7) w(2,1) m f]
    obtain r2 where r2: "FinalizePrunePlan io2 ?r = (r2, None)" "r_PrunePlan r2 = None"
      "fst ` set (r_indexFiles r2) = fst ` set (r_indexFiles ?r) - set (pm_IndexIDs plan)" by blast
    have "fst ` set (r_indexFiles ?r) - set (pm_IndexIDs plan) = fst ` set (r_indexFiles r) - set (pm_IndexIDs plan)"
      using gi by (auto simp: image_iff)
    then show ?thesis using r2 by metis
  qed
qed

theorem FinalizePrunePlan_retry_witness:
  "\<exists>r1 e r2. FinalizePrunePlan (sample_io (Some (Error ''timeout''))) sample_plan_repo = (r1, Some e)
     \<and> FinalizePrunePlan (sample_io None) (r1\<lparr>r_PrunePlan := r_storedPlan r1, r_idx := r_idx r1\<rparr>) = (r2, None)
     \<and> fst ` set (r_indexFiles r2) = {nid 2}"
proof -
  obtain r1 e where r1: "FinalizePrunePlan (sample_io (Some (Error ''timeout''))) sample_plan_repo = (r1, Some e)"
    "r_storedPlan r1 = Some sample_marker" "config_writable r1" "2 \<le> r_version r1" using sample_failed_run by blast
  from FinalizePrunePlan_retry [OF sample_plan_repo_ok(1,6,7,5) sample_io_ok(1) r1(1) sample_io_ok(2) r1(3,4), of "r_idx r1"] r1(1,2)
  show ?thesis by (auto simp: sample_plan_repo_def sample_marker_def)
qed




end
