(* ===== verification/Prune.thy ===== *)
theory Prune
  imports Pack
begin

text \<open>
  Planning a prune, \<^verbatim>\<open>internal/repository/prune.go\<close>: which packs to delete, which to repack and which blobs
  to keep. The plan is made from the index (the entries \<^verbatim>\<open>ListBlobs\<close> yields), the listed pack files and
  the blobs that snapshots use.

  Go's maps are association lists. The set of used blobs, an \<^verbatim>\<open>AssociatedSet[uint8]\<close>, is a map from handles
  to counters. All counters have the width of the source and wrap. \<^verbatim>\<open>sort.Slice\<close> is insertion sort by the
  same comparison: for elements the comparison does not order, Go may choose another order, and no
  result below depends on it.
\<close>

section \<open>Model\<close>

definition ErrIndexIncomplete :: go_error where "ErrIndexIncomplete = Error ''index is not complete''"

definition ErrPacksMissing :: go_error where "ErrPacksMissing = Error ''packs from index missing in repo''"

definition ErrSizeNotMatching :: go_error where
  "ErrSizeNotMatching = Error ''pack size does not match calculated size from index''"

definition MinPackSize :: u64 where "MinPackSize = 4 * 1024 * 1024"

text \<open>\<open>MaxRepackPercent\<close> is the function from the total size to the percentage of it, when the option is
  positive (a floating-point computation in the source).\<close>

record PruneOptions =
  po_DryRun :: bool
  po_UnsafeRecovery :: bool
  po_MaxUnusedBytes :: "u64 \<Rightarrow> u64"
  po_MaxRepackBytes :: u64
  po_MaxRepackPercent :: "(u64 \<Rightarrow> u64) option"
  po_SmallPackBytes :: u64
  po_RepackCacheableOnly :: bool
  po_RepackUncompressed :: bool
  po_RepackAll :: bool
  po_FastRepack :: bool
  po_EarlyDeleteIndex :: bool
  po_KeepDelete :: bool

record PruneStats =
  blobs_Used :: u64
  blobs_Duplicate :: u64
  blobs_Unused :: u64
  blobs_Total :: u64
  blobs_Repack :: u64
  blobs_Repackrm :: u64
  blobs_Remove :: u64
  blobs_RemoveTotal :: u64
  blobs_Remain :: u64
  size_Used :: u64
  size_Duplicate :: u64
  size_Unused :: u64
  size_Unref :: u64
  size_Uncompressed :: u64
  size_Total :: u64
  size_Repack :: u64
  size_Repackrm :: u64
  size_Remove :: u64
  size_RemoveTotal :: u64
  size_Remain :: u64
  size_RemainUnused :: u64
  packs_Used :: u64
  packs_Unused :: u64
  packs_PartlyUsed :: u64
  packs_Unref :: u64
  packs_Total :: u64
  packs_Keep :: u64
  packs_Repack :: u64
  packs_Remove :: u64
  packs_RemoveTotal :: u64

definition zeroStats :: PruneStats where
  "zeroStats = \<lparr>blobs_Used = 0, blobs_Duplicate = 0, blobs_Unused = 0, blobs_Total = 0, blobs_Repack = 0, blobs_Repackrm = 0,
     blobs_Remove = 0, blobs_RemoveTotal = 0, blobs_Remain = 0, size_Used = 0, size_Duplicate = 0, size_Unused = 0, size_Unref = 0,
     size_Uncompressed = 0, size_Total = 0, size_Repack = 0, size_Repackrm = 0, size_Remove = 0, size_RemoveTotal = 0,
     size_Remain = 0, size_RemainUnused = 0, packs_Used = 0, packs_Unused = 0, packs_PartlyUsed = 0, packs_Unref = 0,
     packs_Total = 0, packs_Keep = 0, packs_Repack = 0, packs_Remove = 0, packs_RemoveTotal = 0\<rparr>"

record packInfo =
  pi_usedBlobs :: u64
  pi_unusedBlobs :: u64
  pi_duplicateBlobs :: u64
  pi_usedSize :: u64
  pi_unusedSize :: u64
  pi_tpe :: BlobType
  pi_uncompressed :: bool

definition zeroPackInfo :: packInfo where
  "zeroPackInfo = \<lparr>pi_usedBlobs = 0, pi_unusedBlobs = 0, pi_duplicateBlobs = 0, pi_usedSize = 0, pi_unusedSize = 0,
     pi_tpe = InvalidBlob, pi_uncompressed = False\<rparr>"

record packInfoWithID =
  pw_ID :: ID
  pw_packInfo :: packInfo
  pw_mustCompress :: bool

type_synonym used_blobs = "(BlobHandle \<times> u8) list"
type_synonym index_pack = "(ID \<times> packInfo) list"

abbreviation info_of :: "index_pack \<Rightarrow> ID \<Rightarrow> packInfo" where
  "info_of ip p \<equiv> (case map_of ip p of None \<Rightarrow> zeroPackInfo | Some i \<Rightarrow> i)"

subsection \<open>Counting and selecting blobs\<close>

definition count_blob :: "used_blobs \<Rightarrow> PackedBlob \<Rightarrow> used_blobs" where
  "count_blob used blob = (case map_of used (pb_Handle blob) of None \<Rightarrow> used
     | Some count \<Rightarrow> AList.update (pb_Handle blob) (if count < 255 then count + 1 else count) used)"

definition countUsedBlobOccurrences :: "PackedBlob list \<Rightarrow> used_blobs \<Rightarrow> used_blobs" where
  "countUsedBlobOccurrences blobs used = foldl count_blob used blobs"

definition validateUsedBlobs :: "used_blobs \<Rightarrow> go_error option" where
  "validateUsedBlobs used = (if \<forall>(h, count) \<in> set used. count \<noteq> 0 then None else Some ErrIndexIncomplete)"

definition accountIndexedBlob ::
  "used_blobs \<Rightarrow> index_pack \<times> PruneStats \<times> bool \<Rightarrow> PackedBlob \<Rightarrow> index_pack \<times> PruneStats \<times> bool" where
  "accountIndexedBlob used = (\<lambda>(packs, stats, hasDuplicates) blob.
     let packID = pb_Pack blob; handle = pb_Handle blob;
         info = info_of packs packID;
         info = (if pi_tpe info = NumBlobTypes then info\<lparr>pi_tpe := bh_Type handle\<rparr> else info);
         info = (if pi_tpe info \<noteq> bh_Type handle then info\<lparr>pi_tpe := InvalidBlob\<rparr> else info);
         sz = pb_CiphertextLength blob;
         duplicateCount = (case map_of used handle of None \<Rightarrow> 0 | Some c \<Rightarrow> c);
         (info, stats) =
           (if duplicateCount \<ge> 2
            then (info\<lparr>pi_unusedSize := pi_unusedSize info + sz, pi_unusedBlobs := pi_unusedBlobs info + 1,
                       pi_duplicateBlobs := pi_duplicateBlobs info + 1\<rparr>,
                  stats\<lparr>size_Duplicate := size_Duplicate stats + sz, blobs_Duplicate := blobs_Duplicate stats + 1\<rparr>)
            else if duplicateCount = 1
            then (info\<lparr>pi_usedSize := pi_usedSize info + sz, pi_usedBlobs := pi_usedBlobs info + 1\<rparr>,
                  stats\<lparr>size_Used := size_Used stats + sz, blobs_Used := blobs_Used stats + 1\<rparr>)
            else (info\<lparr>pi_unusedSize := pi_unusedSize info + sz, pi_unusedBlobs := pi_unusedBlobs info + 1\<rparr>,
                  stats\<lparr>size_Unused := size_Unused stats + sz, blobs_Unused := blobs_Unused stats + 1\<rparr>));
         info = info\<lparr>pi_uncompressed := pi_uncompressed info \<or> \<not> pb_IsCompressed blob\<rparr>
     in (AList.update packID info packs, stats, duplicateCount \<ge> 2 \<or> hasDuplicates))"

text \<open>The second pass over the index: one occurrence of each duplicate blob is marked as used.\<close>

definition select_duplicate ::
  "used_blobs \<times> index_pack \<times> PruneStats \<Rightarrow> PackedBlob \<Rightarrow> used_blobs \<times> index_pack \<times> PruneStats" where
  "select_duplicate = (\<lambda>(used, packs, stats) blob.
     let packID = pb_Pack blob; bh = pb_Handle blob in
     case map_of used bh of None \<Rightarrow> (used, packs, stats)
     | Some count \<Rightarrow> if count = 1 then (used, packs, stats) else
         let ip = info_of packs packID; sz = pb_CiphertextLength blob in
         if pi_usedBlobs ip > 0 \<or> pi_duplicateBlobs ip = pi_unusedBlobs ip \<or> count = 0
         then (AList.update bh 1 used,
               AList.update packID (ip\<lparr>pi_usedSize := pi_usedSize ip + sz, pi_usedBlobs := pi_usedBlobs ip + 1,
                 pi_unusedSize := pi_unusedSize ip - sz, pi_unusedBlobs := pi_unusedBlobs ip - 1\<rparr>) packs,
               stats\<lparr>size_Used := size_Used stats + sz, blobs_Used := blobs_Used stats + 1,
                 size_Duplicate := size_Duplicate stats - sz, blobs_Duplicate := blobs_Duplicate stats - 1\<rparr>)
         else (AList.update bh (if count - 1 = 1 then 0 else count - 1) used, AList.update packID ip packs, stats))"

definition packInfoFromIndex ::
  "PackedBlob list \<Rightarrow> used_blobs \<Rightarrow> PruneStats \<Rightarrow> (used_blobs \<times> index_pack \<times> PruneStats) result" where
  "packInfoFromIndex blobs used stats = (let used = countUsedBlobOccurrences blobs used in
     case validateUsedBlobs used of Some _ \<Rightarrow> Inl ErrIndexIncomplete | None \<Rightarrow>
       (let packs = map (\<lambda>(pid, hdrSize). (pid, zeroPackInfo\<lparr>pi_tpe := NumBlobTypes, pi_usedSize := of_int hdrSize\<rparr>)) (Size blobs True);
            (packs, stats, hasDuplicates) = foldl (accountIndexedBlob used) (packs, stats, False) blobs;
            (used, packs, stats) = (if hasDuplicates then foldl select_duplicate (used, packs, stats) blobs else (used, packs, stats))
        in if \<exists>(h, count) \<in> set used. count \<noteq> 1 then Inl (Panic ''internal error during blob selection'')
           else Inr (used, packs, stats)))"

subsection \<open>Deciding about packs\<close>

definition calculateTargetPacksize :: "PruneOptions \<Rightarrow> index_pack \<Rightarrow> u64" where
  "calculateTargetPacksize opts packs =
     (let target = (if packs = [] then 0 else
        let toSort = sort (map (\<lambda>(_, ip). pi_usedSize ip + pi_unusedSize ip) packs);
            index = length packs * 3 div 100
        in max MinPackSize (toSort ! index) * 4 div 5)
      in if po_SmallPackBytes opts > 0 then po_SmallPackBytes opts else target)"

record packActionState =
  pa_indexPack :: index_pack
  pa_stats :: PruneStats
  pa_removePacksFirst :: "ID set"
  pa_removePacks :: "ID set"
  pa_repackCandidates :: "packInfoWithID list"
  pa_repackSmallCandidates :: "packInfoWithID list"

definition count_pack_kind :: "packInfo \<Rightarrow> PruneStats \<Rightarrow> PruneStats" where
  "count_pack_kind p stats =
     (let stats = (if pi_usedBlobs p = 0 then stats\<lparr>packs_Unused := packs_Unused stats + 1\<rparr>
                   else if pi_unusedBlobs p = 0 then stats\<lparr>packs_Used := packs_Used stats + 1\<rparr>
                   else stats\<lparr>packs_PartlyUsed := packs_PartlyUsed stats + 1\<rparr>)
      in if pi_uncompressed p then stats\<lparr>size_Uncompressed := size_Uncompressed stats + (pi_unusedSize p + pi_usedSize p)\<rparr>
         else stats)"

definition processPack ::
  "PruneOptions \<Rightarrow> u64 \<Rightarrow> u64 \<Rightarrow> packActionState \<Rightarrow> ID \<times> u64 \<Rightarrow> packActionState result" where
  "processPack opts repoVersion targetPackSize state = (\<lambda>(i, packSize).
     let stats = pa_stats state in
     case map_of (pa_indexPack state) i of
       None \<Rightarrow> Inr (state\<lparr>pa_removePacksFirst := insert i (pa_removePacksFirst state),
                       pa_stats := stats\<lparr>size_Unref := size_Unref stats + packSize\<rparr>\<rparr>)
     | Some p \<Rightarrow>
        if pi_unusedSize p + pi_usedSize p \<noteq> packSize \<and> pi_usedBlobs p \<noteq> 0 then Inl ErrSizeNotMatching
        else
          let stats = count_pack_kind p stats;
              mustCompress = (repoVersion \<ge> 2 \<and> (pi_tpe p = TreeBlob \<or> po_RepackUncompressed opts) \<and> pi_uncompressed p);
              candidate = \<lparr>pw_ID = i, pw_packInfo = p, pw_mustCompress = mustCompress\<rparr>;
              keep = state\<lparr>pa_stats := stats\<lparr>packs_Keep := packs_Keep stats + 1\<rparr>\<rparr>;
              repack = state\<lparr>pa_stats := stats, pa_repackCandidates := pa_repackCandidates state @ [candidate]\<rparr>;
              state =
                (if pi_usedBlobs p = 0
                 then state\<lparr>pa_removePacks := insert i (pa_removePacks state),
                        pa_stats := stats\<lparr>blobs_Remove := blobs_Remove stats + pi_unusedBlobs p,
                                          size_Remove := size_Remove stats + pi_unusedSize p\<rparr>\<rparr>
                 else if po_RepackCacheableOnly opts \<and> pi_tpe p = DataBlob then keep
                 else if po_RepackAll opts \<and> pi_usedBlobs p \<noteq> 0 then repack
                 else if pi_unusedBlobs p = 0 \<and> pi_tpe p \<noteq> InvalidBlob \<and> \<not> mustCompress then
                   (if sint targetPackSize \<le> sint packSize then keep
                    else state\<lparr>pa_stats := stats,
                           pa_repackSmallCandidates := pa_repackSmallCandidates state @ [candidate]\<rparr>)
                 else repack)
          in Inr (state\<lparr>pa_indexPack := AList.delete i (pa_indexPack state)\<rparr>))"

definition listPacks ::
  "PruneOptions \<Rightarrow> u64 \<Rightarrow> u64 \<Rightarrow> packActionState \<Rightarrow> (ID \<times> u64) list \<Rightarrow> packActionState result" where
  "listPacks opts repoVersion targetPackSize state files = foldM (processPack opts repoVersion targetPackSize) state files"

definition resolveMissingPacks :: "packActionState \<Rightarrow> (packActionState \<times> ID set) result" where
  "resolveMissingPacks state =
     (let unneeded = filter (\<lambda>(_, p). pi_usedBlobs p = 0) (pa_indexPack state);
          needed = filter (\<lambda>(_, p). pi_usedBlobs p \<noteq> 0) (pa_indexPack state);
          stats = foldl (\<lambda>stats (_, p). stats\<lparr>blobs_Remove := blobs_Remove stats + pi_unusedBlobs p,
                                              size_Remove := size_Remove stats + pi_unusedSize p\<rparr>) (pa_stats state) unneeded
      in if needed \<noteq> [] then Inl ErrPacksMissing
         else Inr (state\<lparr>pa_indexPack := needed, pa_stats := stats\<rparr>, set (map fst unneeded)))"

definition includeSmallCandidates :: "packActionState \<Rightarrow> packActionState" where
  "includeSmallCandidates state =
     (if length (pa_repackSmallCandidates state) < 10
      then state\<lparr>pa_stats := (pa_stats state)\<lparr>packs_Keep := packs_Keep (pa_stats state) + of_nat (length (pa_repackSmallCandidates state))\<rparr>\<rparr>
      else state\<lparr>pa_repackCandidates := pa_repackCandidates state @ pa_repackSmallCandidates state\<rparr>)"

definition candidate_less :: "u64 \<Rightarrow> packInfo \<Rightarrow> packInfo \<Rightarrow> bool" where
  "candidate_less targetPackSize a b =
     (if pi_tpe a \<noteq> DataBlob \<and> pi_tpe b = DataBlob then True
      else if pi_tpe b \<noteq> DataBlob \<and> pi_tpe a = DataBlob then False
      else if pi_unusedSize a + pi_usedSize a < targetPackSize \<and> pi_unusedSize b + pi_usedSize b \<ge> targetPackSize then True
      else if pi_unusedSize b + pi_usedSize b < targetPackSize \<and> pi_unusedSize a + pi_usedSize a \<ge> targetPackSize then False
      else pi_unusedSize a * pi_usedSize b > pi_unusedSize b * pi_usedSize a)"

fun insert_by :: "('a \<Rightarrow> 'a \<Rightarrow> bool) \<Rightarrow> 'a \<Rightarrow> 'a list \<Rightarrow> 'a list" where
  "insert_by lt x [] = [x]"
| "insert_by lt x (y # ys) = (if lt y x then y # insert_by lt x ys else x # y # ys)"

definition sort_slice :: "('a \<Rightarrow> 'a \<Rightarrow> bool) \<Rightarrow> 'a list \<Rightarrow> 'a list" where
  "sort_slice lt xs = foldr (insert_by lt) xs []"

definition sortRepackCandidates :: "packInfoWithID list \<Rightarrow> u64 \<Rightarrow> packInfoWithID list" where
  "sortRepackCandidates candidates targetPackSize =
     sort_slice (\<lambda>a b. candidate_less targetPackSize (pw_packInfo a) (pw_packInfo b)) candidates"

definition repack_stats :: "packInfo \<Rightarrow> PruneStats \<Rightarrow> PruneStats" where
  "repack_stats p stats =
     (let stats = stats\<lparr>blobs_Repack := blobs_Repack stats + (pi_unusedBlobs p + pi_usedBlobs p),
        size_Repack := size_Repack stats + (pi_unusedSize p + pi_usedSize p),
        blobs_Repackrm := blobs_Repackrm stats + pi_unusedBlobs p, size_Repackrm := size_Repackrm stats + pi_unusedSize p\<rparr>
      in if pi_uncompressed p then stats\<lparr>size_Uncompressed := size_Uncompressed stats - (pi_unusedSize p + pi_usedSize p)\<rparr>
         else stats)"

definition select_pack :: "PruneOptions \<Rightarrow> u64 \<Rightarrow> u64 \<Rightarrow> ID set \<times> PruneStats \<Rightarrow> packInfoWithID \<Rightarrow> ID set \<times> PruneStats" where
  "select_pack opts targetPackSize maxUnusedSizeAfter = (\<lambda>(repackPacks, stats) c.
     let p = pw_packInfo c;
         remainingUnusedSize = size_Duplicate stats + size_Unused stats - size_Remove stats - size_Repackrm stats;
         reachedUnusedSizeAfter = (remainingUnusedSize < maxUnusedSizeAfter);
         reachedRepackSize = (size_Repack stats + pi_unusedSize p + pi_usedSize p \<ge> po_MaxRepackBytes opts);
         packIsLargeEnough = (pi_unusedSize p + pi_usedSize p \<ge> targetPackSize);
         keep = (repackPacks, stats\<lparr>packs_Keep := packs_Keep stats + 1\<rparr>);
         repack = (insert (pw_ID c) repackPacks, repack_stats p stats)
     in if reachedRepackSize then keep
        else if pi_tpe p \<noteq> DataBlob \<or> pw_mustCompress c then repack
        else if reachedUnusedSizeAfter \<and> packIsLargeEnough then keep
        else repack)"

definition selectRepackPacks :: "PruneOptions \<Rightarrow> u64 \<Rightarrow> packInfoWithID list \<Rightarrow> PruneStats \<Rightarrow> ID set \<times> PruneStats" where
  "selectRepackPacks opts targetPackSize candidates stats =
     foldl (select_pack opts targetPackSize (po_MaxUnusedBytes opts (size_Used stats))) ({}, stats) candidates"

subsection \<open>The plan\<close>

record PrunePlan =
  pp_removePacksFirst :: "ID set"
  pp_repackPacks :: "ID set"
  pp_keepBlobs :: "used_blobs option"
  pp_removePacks :: "ID set"
  pp_ignorePacks :: "ID set"
  pp_stats :: PruneStats
  pp_opts :: PruneOptions

definition decidePackAction ::
  "PruneOptions \<Rightarrow> u64 \<Rightarrow> (ID \<times> u64) list \<Rightarrow> index_pack \<Rightarrow> PruneStats \<Rightarrow> PrunePlan result" where
  "decidePackAction opts repoVersion files indexPack stats =
     (let targetPackSize = calculateTargetPacksize opts indexPack;
          state = \<lparr>pa_indexPack = indexPack, pa_stats = stats, pa_removePacksFirst = {}, pa_removePacks = {},
                   pa_repackCandidates = [], pa_repackSmallCandidates = []\<rparr>
      in rbind (listPacks opts repoVersion targetPackSize state files) (\<lambda>state.
         rbind (resolveMissingPacks state) (\<lambda>(state, ignorePacks).
           let state = includeSmallCandidates state;
               candidates = sortRepackCandidates (pa_repackCandidates state) targetPackSize;
               (repackPacks, stats) = selectRepackPacks opts targetPackSize candidates (pa_stats state);
               stats = stats\<lparr>packs_Unref := of_nat (card (pa_removePacksFirst state)),
                             packs_Repack := of_nat (card repackPacks), packs_Remove := of_nat (card (pa_removePacks state))\<rparr>;
               stats = (if repoVersion < 2 then stats\<lparr>size_Uncompressed := 0\<rparr> else stats)
           in Inr \<lparr>pp_removePacksFirst = pa_removePacksFirst state, pp_repackPacks = repackPacks, pp_keepBlobs = None,
                   pp_removePacks = pa_removePacks state, pp_ignorePacks = ignorePacks, pp_stats = stats, pp_opts = opts\<rparr>)))"

definition total_stats :: "PruneStats \<Rightarrow> PruneStats" where
  "total_stats s =
     (let s = s\<lparr>blobs_Total := blobs_Used s + blobs_Unused s + blobs_Duplicate s\<rparr>;
          s = s\<lparr>blobs_RemoveTotal := blobs_Remove s + blobs_Repackrm s\<rparr>;
          s = s\<lparr>blobs_Remain := blobs_Total s - blobs_RemoveTotal s\<rparr>;
          s = s\<lparr>size_Total := size_Used s + size_Duplicate s + size_Unused s + size_Unref s\<rparr>;
          s = s\<lparr>size_RemoveTotal := size_Remove s + size_Repackrm s + size_Unref s\<rparr>;
          s = s\<lparr>size_Remain := size_Total s - size_RemoveTotal s\<rparr>;
          s = s\<lparr>size_RemainUnused := size_Duplicate s + size_Unused s - size_Remove s - size_Repackrm s\<rparr>;
          s = s\<lparr>packs_Total := packs_Used s + packs_PartlyUsed s + packs_Unused s + packs_Unref s\<rparr>
      in s\<lparr>packs_RemoveTotal := packs_Unref s + packs_Remove s\<rparr>)"

text \<open>The repository as \<^verbatim>\<open>PlanPrune\<close> sees it: the entries of the index, the pack files with their sizes, and
  its settings. \<open>getUsedBlobs\<close> is the outcome of the callback: the handles it inserted, or its error.\<close>

record prune_repo =
  pr_slateDB :: bool
  pr_connections :: u64
  pr_version :: u64
  pr_packSize :: u64
  pr_blobs :: "PackedBlob list"
  pr_packs :: "(ID \<times> u64) list"

definition recovery_opts :: "PruneOptions \<Rightarrow> PruneOptions" where
  "recovery_opts opts = (if po_UnsafeRecovery opts then opts\<lparr>po_MaxRepackBytes := 0\<rparr> else opts)"

definition percent_opts :: "PruneOptions \<Rightarrow> PruneStats \<Rightarrow> PruneOptions" where
  "percent_opts opts stats = (case po_MaxRepackPercent opts of None \<Rightarrow> opts
     | Some percent \<Rightarrow> if size_Total stats > 0
         then let limit = percent (size_Total stats) in
           if limit < po_MaxRepackBytes opts then opts\<lparr>po_MaxRepackBytes := limit\<rparr> else opts
         else opts)"

text \<open>Blobs of packs that stay need not be copied.\<close>

definition drop_kept :: "PrunePlan \<Rightarrow> PackedBlob list \<Rightarrow> used_blobs \<Rightarrow> used_blobs option" where
  "drop_kept plan blobs keepBlobs =
     (if pp_repackPacks plan \<noteq> {}
      then Some (foldl (\<lambda>keep blob.
             if pb_Pack blob \<in> pp_removePacks plan \<or> pb_Pack blob \<in> pp_repackPacks plan then keep
             else AList.delete (pb_Handle blob) keep) keepBlobs blobs)
      else None)"

definition PlanPrune :: "PruneOptions \<Rightarrow> prune_repo \<Rightarrow> BlobHandle list result \<Rightarrow> PrunePlan result" where
  "PlanPrune opts repo getUsedBlobs =
     (if pr_slateDB repo then Inl (Error ''prune is disabled for SlateDB-authoritative repositories'')
      else let opts = recovery_opts opts in
      if pr_connections repo < 2 then Inl (Error ''prune requires a backend connection limit of at least two'')
      else if pr_version repo < 2 \<and> po_RepackUncompressed opts
      then Inl (Error ''compression requires at least repository format version 2'')
      else if po_SmallPackBytes opts > pr_packSize repo then Inl (Error ''repack-smaller-than exceeds repository packsize'')
      else rbind getUsedBlobs (\<lambda>handles.
        let usedBlobs = foldl (\<lambda>u h. AList.update h 0 u) [] handles in
        rbind (packInfoFromIndex (pr_blobs repo) usedBlobs zeroStats) (\<lambda>(keepBlobs, indexPack, stats).
          let opts = percent_opts opts stats in
          rbind (decidePackAction opts (pr_version repo) (pr_packs repo) indexPack stats) (\<lambda>plan.
            Inr (plan\<lparr>pp_keepBlobs := drop_kept plan (pr_blobs repo) keepBlobs,
                      pp_stats := total_stats (pp_stats plan), pp_opts := opts\<rparr>)))))"

end
