(* ===== verification/Prune_Correct.thy ===== *)
theory Prune_Correct
  imports Prune
begin

text \<open>
  What a prune plan guarantees: no blob in use is lost, the limits are respected, the error cases are
  the ones documented. The counters are shown to choose one occurrence of every blob in use.
\<close>

section \<open>Counting\<close>

text \<open>The number of entries for a handle.\<close>

definition occurrences :: "BlobHandle \<Rightarrow> PackedBlob list \<Rightarrow> nat" where
  "occurrences h blobs = length (filter (\<lambda>pb. pb_Handle pb = h) blobs)"

lemma occurrences_simps [simp]:
  "occurrences h [] = 0" "occurrences h (pb # blobs) = (if pb_Handle pb = h then 1 else 0) + occurrences h blobs"
  by (simp_all add: occurrences_def)

lemma occurrences_pos: "0 < occurrences h blobs \<longleftrightarrow> h \<in> pb_Handle ` set blobs"
  by (induction blobs) auto

lemma unat_suc: "unat w + 1 < 2 ^ LENGTH('a) \<Longrightarrow> unat (w + 1) = Suc (unat w)" for w :: "'a :: len word"
  by (simp add: unat_word_ariths(1))

lemma u8_suc: "(c :: u8) < 255 \<Longrightarrow> unat (c + 1) = Suc (unat c)"
  by (rule unat_suc) (simp add: word_less_nat_alt)

lemma count_blob_step:
  "map_of (count_blob used pb) h = map_option (\<lambda>c. if pb_Handle pb = h \<and> c < 255 then c + 1 else c) (map_of used h)"
  by (cases "map_of used h") (auto simp: count_blob_def update_conv' split: option.splits)

lemma count_blobs:
  "map_option unat (map_of (foldl count_blob used blobs) h) = map_option (\<lambda>c. min 255 (unat c + occurrences h blobs)) (map_of used h)"
proof (induction blobs arbitrary: used)
  case Nil
  have "min 255 (unat (c :: u8)) = unat c" for c using unat_lt2p [of c] by simp
  then show ?case by (simp add: option.map_comp o_def)
next
  case (Cons pb blobs)
  have "min 255 (unat (if pb_Handle pb = h \<and> c < 255 then c + 1 else c) + occurrences h blobs)
      = min 255 (unat c + occurrences h (pb # blobs))" for c :: u8
  proof (cases "c < 255")
    case True
    then show ?thesis by (simp add: u8_suc)
  next
    case False
    then have "unat c \<ge> 255" by (simp add: word_less_nat_alt)
    then show ?thesis using False by simp
  qed
  then show ?case unfolding foldl.simps Cons.IH count_blob_step by (simp add: option.map_comp o_def)
qed

lemma count_blob_keys: "map fst (count_blob used pb) = map fst used"
proof (cases "map_of used (pb_Handle pb)")
  case (Some c)
  then have "pb_Handle pb \<in> set (map fst used)" by (metis map_of_SomeD fst_conv image_eqI set_map)
  then show ?thesis using Some by (simp add: count_blob_def update_keys)
qed (simp add: count_blob_def)

lemma count_blobs_keys: "map fst (foldl count_blob used blobs) = map fst used"
  by (induction blobs arbitrary: used) (simp_all add: count_blob_keys)

lemma u8_not_le [simp]: "\<not> (2 :: u8) \<le> 1" "\<not> (2 :: u8) \<le> 0"
  by (simp_all add: word_le_nat_alt)

section \<open>Accounting\<close>

definition used_in :: "index_pack \<Rightarrow> ID \<Rightarrow> nat" where
  "used_in packs p = unat (pi_usedBlobs (info_of packs p))"

lemma used_in_update: "used_in (AList.update p i packs) q = (if q = p then unat (pi_usedBlobs i) else used_in packs q)"
  by (simp add: used_in_def update_conv')

lemma account_used_in:
  assumes "used_in packs (pb_Pack blob) < 2 ^ 64 - 1"
  shows "used_in (fst (accountIndexedBlob used (packs, stats, dup) blob)) q
    = used_in packs q + (if q = pb_Pack blob \<and> map_of used (pb_Handle blob) = Some 1 then 1 else 0)"
proof -
  have "unat (pi_usedBlobs (info_of packs (pb_Pack blob)) + 1) = Suc (unat (pi_usedBlobs (info_of packs (pb_Pack blob))))"
    using assms unfolding used_in_def by (intro unat_suc) simp
  then show ?thesis
    by (auto simp: accountIndexedBlob_def Let_def used_in_update split: option.splits) (auto simp: used_in_def)
qed

lemma account_dup:
  "snd (snd (accountIndexedBlob used (packs, stats, dup) blob)) \<longleftrightarrow> dup \<or> (\<exists>c. map_of used (pb_Handle blob) = Some c \<and> 2 \<le> c)"
  by (auto simp: accountIndexedBlob_def Let_def split: option.splits)

lemma account_keys:
  "fst ` set (fst (accountIndexedBlob used (packs, stats, dup) blob)) = insert (pb_Pack blob) (fst ` set packs)"
  "distinct (map fst packs) \<Longrightarrow> distinct (map fst (fst (accountIndexedBlob used (packs, stats, dup) blob)))"
  by (auto simp: accountIndexedBlob_def Let_def dom_update distinct_update split: option.splits)

text \<open>The number of entries of a pack whose blob is in use and occurs once.\<close>

definition single_in :: "used_blobs \<Rightarrow> PackedBlob list \<Rightarrow> ID \<Rightarrow> nat" where
  "single_in used blobs p = length (filter (\<lambda>pb. pb_Pack pb = p \<and> map_of used (pb_Handle pb) = Some 1) blobs)"

lemma account_all:
  assumes "\<forall>p. used_in packs p + length blobs < 2 ^ 64"
  shows "(case foldl (accountIndexedBlob used) (packs, stats, dup) blobs of (packs', stats', dup') \<Rightarrow>
    (\<forall>p. used_in packs' p = used_in packs p + single_in used blobs p)
    \<and> fst ` set packs' = fst ` set packs \<union> pb_Pack ` set blobs \<and> (distinct (map fst packs) \<longrightarrow> distinct (map fst packs'))
    \<and> (dup' \<longleftrightarrow> dup \<or> (\<exists>pb \<in> set blobs. \<exists>c. map_of used (pb_Handle pb) = Some c \<and> 2 \<le> c)))"
  using assms
proof (induction blobs arbitrary: packs stats dup)
  case Nil
  then show ?case by (simp add: single_in_def)
next
  case (Cons pb blobs)
  obtain packs1 stats1 dup1 where a: "accountIndexedBlob used (packs, stats, dup) pb = (packs1, stats1, dup1)"
    by (metis prod_cases3)
  have "used_in packs (pb_Pack pb) < 2 ^ 64 - 1" using Cons.prems [rule_format, of "pb_Pack pb"] by simp
  from account_used_in [OF this, of used stats dup] a have
    u: "used_in packs1 q = used_in packs q + (if q = pb_Pack pb \<and> map_of used (pb_Handle pb) = Some 1 then 1 else 0)" for q by simp
  have "\<forall>p. used_in packs1 p + length blobs < 2 ^ 64"
  proof
    fix p show "used_in packs1 p + length blobs < 2 ^ 64" using Cons.prems [rule_format, of p] u [of p] by auto
  qed
  note ih = Cons.IH [OF this, where stats = stats1 and dup = dup1]
  obtain P S D where f: "foldl (accountIndexedBlob used) (packs1, stats1, dup1) blobs = (P, S, D)"
    by (metis prod_cases3)
  have i: "\<forall>p. used_in P p = used_in packs1 p + single_in used blobs p" "fst ` set P = fst ` set packs1 \<union> pb_Pack ` set blobs"
    "distinct (map fst packs1) \<longrightarrow> distinct (map fst P)"
    "D \<longleftrightarrow> dup1 \<or> (\<exists>pb \<in> set blobs. \<exists>c. map_of used (pb_Handle pb) = Some c \<and> 2 \<le> c)"
    using ih unfolding f prod.case by blast+
  have k: "fst ` set packs1 = insert (pb_Pack pb) (fst ` set packs)" "distinct (map fst packs) \<longrightarrow> distinct (map fst packs1)"
    "dup1 \<longleftrightarrow> dup \<or> (\<exists>c. map_of used (pb_Handle pb) = Some c \<and> 2 \<le> c)"
    using account_keys [where used = used and packs = packs and stats = stats and dup = dup and blob = pb]
      account_dup [of used packs stats dup pb] unfolding a by simp_all
  have "used_in P p = used_in packs p + single_in used (pb # blobs) p" for p
    using i(1) u by (simp add: single_in_def)
  moreover have "fst ` set P = fst ` set packs \<union> pb_Pack ` set (pb # blobs)" using i(2) k(1) by simp
  moreover have "D \<longleftrightarrow> dup \<or> (\<exists>pb \<in> set (pb # blobs). \<exists>c. map_of used (pb_Handle pb) = Some c \<and> 2 \<le> c)"
    using i(4) k(3) by auto
  ultimately show ?case using i(3) k(2) by (simp add: a f)
qed

section \<open>Selecting\<close>

text \<open>\<open>chosen blobs packs h\<close>: some pack that holds \<open>h\<close> counts as used.\<close>

definition chosen :: "PackedBlob list \<Rightarrow> index_pack \<Rightarrow> BlobHandle \<Rightarrow> bool" where
  "chosen blobs packs h \<longleftrightarrow> (\<exists>pb \<in> set blobs. pb_Handle pb = h \<and> 0 < used_in packs (pb_Pack pb))"

text \<open>The counter of a blob with \<open>r\<close> occurrences to come: it is one when an occurrence has been chosen, and
  otherwise small enough that the last occurrence is chosen at the latest.\<close>

definition counter_ok :: "u8 \<Rightarrow> nat \<Rightarrow> bool \<Rightarrow> bool" where
  "counter_ok c r ch \<longleftrightarrow> c = 1 \<and> ch \<or> c = 0 \<and> 1 \<le> r \<or> 2 \<le> unat c \<and> unat c \<le> r"

lemma counter_step:
  assumes "counter_ok c (Suc r) ch" "c \<noteq> 1" "c \<noteq> 0"
  shows "counter_ok (if c - 1 = 1 then 0 else c - 1) r ch'"
proof -
  have c: "2 \<le> unat c" "unat c \<le> Suc r" using assms by (auto simp: counter_ok_def)
  then have "unat (c - 1) = unat c - 1" using assms(3) by (simp add: unat_minus_one)
  then show ?thesis using c by (auto simp: counter_ok_def word_unat_eq_iff)
qed

lemma chosen_mono: "(\<And>p. used_in packs p \<le> used_in packs' p) \<Longrightarrow> chosen blobs packs h \<Longrightarrow> chosen blobs packs' h"
  unfolding chosen_def by (meson less_le_trans)

definition sel_inv :: "PackedBlob list \<Rightarrow> PackedBlob list \<Rightarrow> used_blobs \<Rightarrow> index_pack \<Rightarrow> bool" where
  "sel_inv blobs rest used packs \<longleftrightarrow> (\<forall>p. used_in packs p + length rest < 2 ^ 64)
     \<and> (\<forall>h c. map_of used h = Some c \<longrightarrow> counter_ok c (occurrences h rest) (chosen blobs packs h))"

lemma counter_ok_other: "counter_ok c r ch \<Longrightarrow> (ch \<Longrightarrow> ch') \<Longrightarrow> counter_ok c r ch'"
  by (auto simp: counter_ok_def)

lemma update_keys_same: "k \<in> fst ` set al \<Longrightarrow> map fst (AList.update k v al) = map fst al"
  by (simp add: update_keys)

lemma select_step:
  assumes "sel_inv blobs (pb # rest) used packs" "pb \<in> set blobs" "pb_Pack pb \<in> fst ` set packs"
    "select_duplicate (used, packs, stats) pb = (used', packs', stats')"
  shows "sel_inv blobs rest used' packs'" "map fst used' = map fst used" "map fst packs' = map fst packs"
proof -
  have w: "\<forall>p. used_in packs p + length rest < 2 ^ 64 - 1" using assms(1) by (simp add: sel_inv_def)
  then have w': "\<forall>p. used_in packs p + length rest < 2 ^ 64" by (auto intro: less_trans)
  let ?h = "pb_Handle pb" and ?p = "pb_Pack pb"
  have inv: "counter_ok c (occurrences h (pb # rest)) (chosen blobs packs h)" if "map_of used h = Some c" for h c
    using assms(1) that unfolding sel_inv_def by blast
  have goal: "sel_inv blobs rest used' packs' \<and> map fst used' = map fst used \<and> map fst packs' = map fst packs"
  proof (cases "map_of used ?h")
    case None
    then have same: "used' = used" "packs' = packs" using assms(4) by (auto simp: select_duplicate_def)
    have "counter_ok c (occurrences h rest) (chosen blobs packs h)" if "map_of used h = Some c" for h c
      using inv [OF that] that None by (cases "h = ?h") auto
    then show ?thesis using w' same by (simp add: sel_inv_def)
  next
    case (Some c)
    have key: "?h \<in> fst ` set used" using Some by (metis map_of_SomeD fst_conv image_eqI)
    have ck: "counter_ok c (Suc (occurrences ?h rest)) (chosen blobs packs ?h)" using inv [OF Some] by simp
    have other: "counter_ok d (occurrences h rest) (chosen blobs packs h)" if "map_of used h = Some d" "h \<noteq> ?h" for h d
      using inv [OF that(1)] that(2) by auto
    let ?ip = "info_of packs ?p"
    consider (one) "c = 1" | (sel) "c \<noteq> 1" "pi_usedBlobs ?ip > 0 \<or> pi_duplicateBlobs ?ip = pi_unusedBlobs ?ip \<or> c = 0"
      | (dec) "c \<noteq> 1" "\<not> (pi_usedBlobs ?ip > 0 \<or> pi_duplicateBlobs ?ip = pi_unusedBlobs ?ip \<or> c = 0)" by blast
    then show ?thesis
    proof cases
      case one
      then have same: "used' = used" "packs' = packs" using assms(4) Some by (auto simp: select_duplicate_def)
      have "counter_ok d (occurrences h rest) (chosen blobs packs h)" if "map_of used h = Some d" for h d
        using that other [of h d] ck Some one by (cases "h = ?h") (auto simp: counter_ok_def)
      then show ?thesis using w' same by (simp add: sel_inv_def)
    next
      case sel
      have u: "used' = AList.update ?h 1 used" "map fst packs' = map fst packs"
        "used_in packs' q = used_in packs q + (if q = ?p then 1 else 0)" for q
      proof -
        have r: "unat (pi_usedBlobs ?ip + 1) = Suc (used_in packs ?p)"
          unfolding used_in_def using w [rule_format, of ?p] by (intro unat_suc) (simp add: used_in_def)
        obtain i' where i: "packs' = AList.update ?p i' packs" "pi_usedBlobs i' = pi_usedBlobs ?ip + 1"
          and "used' = AList.update ?h 1 used"
          using assms(4) Some sel by (auto simp: select_duplicate_def Let_def)
        then show "used' = AList.update ?h 1 used" "map fst packs' = map fst packs"
          by (simp_all only: update_keys_same [OF assms(3)])
        show "used_in packs' q = used_in packs q + (if q = ?p then 1 else 0)"
          using r unfolding i(1) used_in_update i(2) by simp
      qed
      have mono: "used_in packs p \<le> used_in packs' p" for p by (simp add: u(3))
      have ch: "chosen blobs packs' ?h" using assms(2) unfolding chosen_def u(3) by auto
      have "counter_ok d (occurrences h rest) (chosen blobs packs' h)" if "map_of used' h = Some d" for h d
        using that other [of h d] ch chosen_mono [OF mono]
        by (cases "h = ?h") (auto simp: u(1) update_conv' counter_ok_def intro: counter_ok_other)
      moreover have "used_in packs' p + length rest < 2 ^ 64" for p
        using w [rule_format, of p] by (cases "p = ?p") (simp_all add: u(3))
      ultimately show ?thesis using u(1,2) key by (simp add: sel_inv_def update_keys_same)
    next
      case dec
      let ?c = "if c - 1 = 1 then 0 else c - 1"
      have u: "used' = AList.update ?h ?c used" "packs' = AList.update ?p ?ip packs"
        using assms(4) Some dec by (auto simp: select_duplicate_def Let_def)
      have same: "used_in packs' q = used_in packs q" for q unfolding u(2) used_in_update by (simp add: used_in_def)
      then have ch: "chosen blobs packs' h = chosen blobs packs h" for h by (simp add: chosen_def)
      have "counter_ok d (occurrences h rest) (chosen blobs packs' h)" if "map_of used' h = Some d" for h d
        using that other [of h d] counter_step [OF ck dec(1)] dec(2)
        by (cases "h = ?h") (auto simp: u(1) update_conv' ch)
      then show ?thesis using w' same key assms(3) by (simp add: sel_inv_def u update_keys_same)
    qed
  qed
  then show "sel_inv blobs rest used' packs'" "map fst used' = map fst used" "map fst packs' = map fst packs" by blast+
qed

lemma select_all:
  assumes "sel_inv blobs rest used packs" "set rest \<subseteq> set blobs" "pb_Pack ` set rest \<subseteq> fst ` set packs"
  shows "\<exists>used' packs' stats'. foldl select_duplicate (used, packs, stats) rest = (used', packs', stats')
    \<and> sel_inv blobs [] used' packs' \<and> map fst used' = map fst used \<and> map fst packs' = map fst packs"
  using assms
proof (induction rest arbitrary: used packs stats)
  case (Cons pb rest)
  obtain u1 p1 s1 where s: "select_duplicate (used, packs, stats) pb = (u1, p1, s1)" by (metis prod_cases3)
  have st: "sel_inv blobs rest u1 p1" "map fst u1 = map fst used" "map fst p1 = map fst packs"
    using select_step [OF Cons.prems(1) _ _ s] Cons.prems(2,3) by auto
  from arg_cong [OF st(3), of set] have "pb_Pack ` set rest \<subseteq> fst ` set p1" using Cons.prems(3) by simp
  then obtain u2 p2 s2 where "foldl select_duplicate (u1, p1, s1) rest = (u2, p2, s2)" "sel_inv blobs [] u2 p2"
    "map fst u2 = map fst u1" "map fst p2 = map fst p1"
    using Cons.IH [OF st(1)] Cons.prems(2) by (metis insert_subset list.simps(15))
  then show ?case using s st(2,3) by auto
qed auto

lemma sel_inv_done: "sel_inv blobs [] used packs \<Longrightarrow> map_of used h = Some c \<Longrightarrow> c = 1 \<and> chosen blobs packs h"
  by (fastforce simp: sel_inv_def counter_ok_def)

lemma Size_keys: "fst ` set (Size blobs b) = pb_Pack ` set blobs" "distinct (map fst (Size blobs b))"
proof -
  have "fst ` set (foldl (size_step b) al blobs) = fst ` set al \<union> pb_Pack ` set blobs
      \<and> (distinct (map fst al) \<longrightarrow> distinct (map fst (foldl (size_step b) al blobs)))" for al
    by (induction blobs arbitrary: al) (auto simp: size_step_def Let_def dom_update distinct_update)
  from this [of "[]"] show "fst ` set (Size blobs b) = pb_Pack ` set blobs" "distinct (map fst (Size blobs b))"
    by (simp_all add: Size_def)
qed

definition header_infos :: "PackedBlob list \<Rightarrow> index_pack" where
  "header_infos blobs = map (\<lambda>(pid, hdrSize). (pid, zeroPackInfo\<lparr>pi_tpe := NumBlobTypes, pi_usedSize := of_int hdrSize\<rparr>)) (Size blobs True)"

lemma header_infos_keys: "fst ` set (header_infos blobs) = pb_Pack ` set blobs" "distinct (map fst (header_infos blobs))"
  "used_in (header_infos blobs) p = 0"
proof -
  have k: "map fst (header_infos blobs) = map fst (Size blobs True)" by (simp add: header_infos_def case_prod_unfold o_def)
  show "fst ` set (header_infos blobs) = pb_Pack ` set blobs"
    using arg_cong [OF k, of set] Size_keys(1) [of blobs True] by simp
  show "distinct (map fst (header_infos blobs))" unfolding k by (rule Size_keys(2))
  have "pi_usedBlobs i = 0" if "(q, i) \<in> set (header_infos blobs)" for q i
    using that by (auto simp: header_infos_def zeroPackInfo_def)
  then show "used_in (header_infos blobs) p = 0"
    by (auto simp: used_in_def zeroPackInfo_def dest: map_of_SomeD split: option.splits)
qed

definition fresh_used :: "used_blobs \<Rightarrow> bool" where
  "fresh_used used \<longleftrightarrow> distinct (map fst used) \<and> (\<forall>(h, c) \<in> set used. c = 0)"

lemma counted:
  assumes "fresh_used used" "map_of (countUsedBlobOccurrences blobs used) h = Some c"
  shows "unat c = min 255 (occurrences h blobs)"
proof -
  obtain d where d: "map_of used h = Some d"
    using assms(2) count_blobs [of used blobs h] by (cases "map_of used h") (auto simp: countUsedBlobOccurrences_def)
  then have "d = 0" using assms(1) by (auto simp: fresh_used_def dest: map_of_SomeD)
  then show ?thesis using count_blobs [of used blobs h] d assms(2) by (simp add: countUsedBlobOccurrences_def)
qed

lemma counted_keys: "map fst (countUsedBlobOccurrences blobs used) = map fst used"
  by (simp add: countUsedBlobOccurrences_def count_blobs_keys)

lemma validate_iff:
  assumes "fresh_used used"
  shows "validateUsedBlobs (countUsedBlobOccurrences blobs used) = None \<longleftrightarrow> fst ` set used \<subseteq> pb_Handle ` set blobs"
proof -
  let ?u = "countUsedBlobOccurrences blobs used"
  have d: "distinct (map fst ?u)" using assms by (simp add: fresh_used_def counted_keys)
  have k: "fst ` set ?u = fst ` set used" using arg_cong [OF counted_keys, of set blobs used] by simp
  have z: "c \<noteq> 0 \<longleftrightarrow> h \<in> pb_Handle ` set blobs" if "(h, c) \<in> set ?u" for h c
  proof -
    have "map_of ?u h = Some c" using d that by simp
    from counted [OF assms this] show ?thesis
      using occurrences_pos [of h blobs] by (auto simp: word_unat_eq_iff)
  qed
  have "(\<forall>(h, c) \<in> set ?u. c \<noteq> 0) \<longleftrightarrow> (\<forall>x \<in> set ?u. fst x \<in> pb_Handle ` set blobs)" using z by fastforce
  also have "\<dots> \<longleftrightarrow> fst ` set used \<subseteq> pb_Handle ` set blobs" unfolding k [symmetric] by blast
  finally show ?thesis by (auto simp: validateUsedBlobs_def)
qed

text \<open>\<open>selection\<close>: the outcome of the two passes: all counters are one, and every blob in use has an
  occurrence in a pack that counts as used.\<close>

definition selection :: "PackedBlob list \<Rightarrow> used_blobs \<Rightarrow> used_blobs \<Rightarrow> index_pack \<Rightarrow> bool" where
  "selection blobs used used' packs \<longleftrightarrow> map fst used' = map fst used \<and> (\<forall>(h, c) \<in> set used'. c = 1)
     \<and> (\<forall>h \<in> fst ` set used. chosen blobs packs h) \<and> fst ` set packs = pb_Pack ` set blobs \<and> distinct (map fst packs)"

lemma single_chosen:
  assumes "\<forall>p. used_in packs p = single_in used blobs p" "map_of used h = Some 1" "h \<in> pb_Handle ` set blobs"
  shows "chosen blobs packs h"
proof -
  obtain pb where pb: "pb \<in> set blobs" "pb_Handle pb = h" using assms(3) by auto
  then have "filter (\<lambda>x. pb_Pack x = pb_Pack pb \<and> map_of used (pb_Handle x) = Some 1) blobs \<noteq> []"
    using assms(2) by (auto simp: filter_empty_conv)
  then show ?thesis unfolding chosen_def using pb assms(1) by (auto simp: single_in_def)
qed

lemma packInfoFromIndex_selects:
  assumes "fresh_used used" "length blobs < 2 ^ 63" "fst ` set used \<subseteq> pb_Handle ` set blobs"
  shows "\<exists>used' packs stats'. packInfoFromIndex blobs used stats = Inr (used', packs, stats') \<and> selection blobs used used' packs"
proof -
  define cu where "cu = countUsedBlobOccurrences blobs used"
  have v: "validateUsedBlobs cu = None" using validate_iff [OF assms(1)] assms(3) by (simp add: cu_def)
  have ck: "map fst cu = map fst used" "distinct (map fst cu)" using assms(1) by (simp_all add: cu_def counted_keys fresh_used_def)
  have cin: "h \<in> fst ` set used" if "map_of cu h = Some c" for h c
    using map_of_SomeD [OF that] arg_cong [OF ck(1), of set] by force
  have cocc: "unat c = min 255 (occurrences h blobs) \<and> 1 \<le> occurrences h blobs" if "map_of cu h = Some c" for h c
    using counted [OF assms(1)] that cin [OF that] assms(3) occurrences_pos [of h blobs] by (auto simp: cu_def Suc_le_eq)
  obtain packs1 stats1 dup where a: "foldl (accountIndexedBlob cu) (header_infos blobs, stats, False) blobs = (packs1, stats1, dup)"
    by (metis prod_cases3)
  have "\<forall>p. used_in (header_infos blobs) p + length blobs < 2 ^ 64" using assms(2) by (simp add: header_infos_keys)
  from account_all [OF this, where used = cu and stats = stats and dup = False] have b: "\<forall>p. used_in packs1 p = single_in cu blobs p"
    "fst ` set packs1 = pb_Pack ` set blobs" "distinct (map fst packs1)"
    "dup \<longleftrightarrow> (\<exists>pb \<in> set blobs. \<exists>c. map_of cu (pb_Handle pb) = Some c \<and> 2 \<le> c)"
    unfolding a prod.case by (auto simp: header_infos_keys)
  have ub: "used_in packs1 p \<le> length blobs" for p using b(1) by (simp add: single_in_def)
  have si: "sel_inv blobs blobs cu packs1"
    unfolding sel_inv_def
  proof (intro conjI allI impI)
    show "used_in packs1 p + length blobs < 2 ^ 64" for p using ub [of p] assms(2) by simp
    show "counter_ok c (occurrences h blobs) (chosen blobs packs1 h)" if m: "map_of cu h = Some c" for h c
    proof (cases "c = 1")
      case True
      then show ?thesis using single_chosen [OF b(1)] m cin [OF m] assms(3) by (auto simp: counter_ok_def)
    next
      case False
      then have "2 \<le> unat c" using cocc [OF m] by (cases "unat c = 1") (auto simp: word_unat_eq_iff)
      then show ?thesis using cocc [OF m] by (simp add: counter_ok_def)
    qed
  qed
  obtain used' packs' stats' where f: "(if dup then foldl select_duplicate (cu, packs1, stats1) blobs else (cu, packs1, stats1))
      = (used', packs', stats')" by (metis prod_cases3)
  have fin: "sel_inv blobs [] used' packs' \<and> map fst used' = map fst cu \<and> map fst packs' = map fst packs1"
  proof (cases dup)
    case True
    then show ?thesis using select_all [OF si order_refl, of stats1] b(2) f by auto
  next
    case False
    have "counter_ok c 0 (chosen blobs packs1 h)" if m: "map_of cu h = Some c" for h c
    proof -
      have h: "h \<in> pb_Handle ` set blobs" using cin [OF m] assms(3) by blast
      then have "\<not> 2 \<le> c" using False b(4) m by auto
      then have "c = 1" using cocc [OF m] by (auto simp: word_le_nat_alt word_unat_eq_iff)
      then show ?thesis using single_chosen [OF b(1) _ h] m by (simp add: counter_ok_def)
    qed
    moreover have "used_in packs1 p < 2 ^ 64" for p using ub [of p] assms(2) by simp
    ultimately have "sel_inv blobs [] cu packs1" by (simp add: sel_inv_def)
    then show ?thesis using False f by simp
  qed
  note settled = fin [THEN conjunct1, THEN sel_inv_done]
  have d: "distinct (map fst used')" using fin ck(2) by simp
  then have one: "\<forall>(h, c) \<in> set used'. c = 1" using settled by auto
  have "chosen blobs packs' h" if "h \<in> fst ` set used" for h
  proof -
    have "h \<in> set (map fst used')" using that fin ck(1) by (metis set_map)
    then obtain c where "map_of used' h = Some c" by (metis map_of_eq_None_iff not_None_eq set_map)
    then show ?thesis using settled by blast
  qed
  moreover have "fst ` set packs' = fst ` set packs1" using fin by (metis set_map)
  ultimately have "selection blobs used used' packs'" using one fin ck(1) b(2,3) by (simp add: selection_def)
  moreover have "packInfoFromIndex blobs used stats = Inr (used', packs', stats')"
    using v a f one by (auto simp: packInfoFromIndex_def Let_def header_infos_def [symmetric] cu_def [symmetric])
  ultimately show ?thesis by blast
qed

section \<open>Deciding\<close>

definition act_inv :: "index_pack \<Rightarrow> ID set \<Rightarrow> packActionState \<Rightarrow> bool" where
  "act_inv init don st \<longleftrightarrow> pa_indexPack st = filter (\<lambda>x. fst x \<notin> don) init
     \<and> pa_removePacksFirst st = don - dom (map_of init)
     \<and> pa_removePacks st = {i \<in> don. \<exists>p. map_of init i = Some p \<and> pi_usedBlobs p = 0}
     \<and> (\<forall>c \<in> set (pa_repackCandidates st @ pa_repackSmallCandidates st).
          pw_ID c \<in> don \<and> map_of init (pw_ID c) = Some (pw_packInfo c) \<and> pi_usedBlobs (pw_packInfo c) \<noteq> 0)"

lemma map_of_filter_keys: "map_of (filter (\<lambda>x. fst x \<notin> don) al) i = (if i \<in> don then None else map_of al i)"
  by (induction al) auto

lemma delete_filter: "AList.delete i (filter (\<lambda>x. fst x \<notin> don) al) = filter (\<lambda>x. fst x \<notin> insert i don) al"
  by (auto simp: AList.delete_eq filter_filter intro: filter_cong)

lemma processPack_indexed:
  assumes "map_of (pa_indexPack st) i = Some p" "processPack opts v t st (i, sz) = Inr st'"
  shows "pa_indexPack st' = AList.delete i (pa_indexPack st)" "pa_removePacksFirst st' = pa_removePacksFirst st"
    "pa_removePacks st' = (if pi_usedBlobs p = 0 then insert i (pa_removePacks st) else pa_removePacks st)"
    "c \<in> set (pa_repackCandidates st' @ pa_repackSmallCandidates st') \<Longrightarrow>
       c \<in> set (pa_repackCandidates st @ pa_repackSmallCandidates st) \<or> pw_ID c = i \<and> pw_packInfo c = p \<and> pi_usedBlobs p \<noteq> 0"
  using assms by (auto simp: processPack_def Let_def split: if_splits)

lemma processPack_inv:
  assumes "act_inv init don st" "i \<notin> don" "processPack opts v t st (i, sz) = Inr st'"
  shows "act_inv init (insert i don) st'"
proof (cases "map_of init i")
  case None
  then have "filter (\<lambda>x. fst x \<notin> insert i don) init = filter (\<lambda>x. fst x \<notin> don) init"
    by (intro filter_cong refl) (auto simp: map_of_eq_None_iff)
  moreover have "map_of (pa_indexPack st) i = None" using assms(1) None by (simp add: act_inv_def map_of_filter_keys)
  ultimately show ?thesis
    using assms None by (auto simp: processPack_def act_inv_def Let_def)
next
  case (Some p)
  have l: "map_of (pa_indexPack st) i = Some p" using assms(1,2) Some by (simp add: act_inv_def map_of_filter_keys)
  have "AList.delete i (pa_indexPack st) = filter (\<lambda>x. fst x \<notin> insert i don) init"
    using assms(1) by (simp add: act_inv_def delete_filter)
  moreover note i = processPack_indexed [OF l assms(3)]
  ultimately have "pa_indexPack st' = filter (\<lambda>x. fst x \<notin> insert i don) init" by simp
  moreover have "pa_removePacksFirst st' = insert i don - dom (map_of init)"
    using i(2) assms(1) Some by (auto simp: act_inv_def)
  moreover have "pa_removePacks st' = {j \<in> insert i don. \<exists>p. map_of init j = Some p \<and> pi_usedBlobs p = 0}"
    using i(3) assms(1) Some by (auto simp: act_inv_def)
  moreover have "pw_ID c \<in> insert i don \<and> map_of init (pw_ID c) = Some (pw_packInfo c) \<and> pi_usedBlobs (pw_packInfo c) \<noteq> 0"
    if "c \<in> set (pa_repackCandidates st' @ pa_repackSmallCandidates st')" for c
    using i(4) [OF that] assms(1) Some unfolding act_inv_def by blast
  ultimately show ?thesis by (simp add: act_inv_def)
qed

lemma listPacks_inv:
  assumes "act_inv init don st" "distinct (map fst files)" "fst ` set files \<inter> don = {}" "listPacks opts v t st files = Inr st'"
  shows "act_inv init (don \<union> fst ` set files) st'"
  using assms unfolding listPacks_def
proof (induction files arbitrary: don st)
  case (Cons x files)
  obtain i sz where f: "x = (i, sz)" by (cases x)
  from Cons.prems(4) obtain st1 where st1: "processPack opts v t st (i, sz) = Inr st1"
    "foldM (processPack opts v t) st1 files = Inr st'" by (auto simp: f rbind_Inr_iff)
  have "act_inv init (insert i don) st1" by (rule processPack_inv [OF Cons.prems(1) _ st1(1)]) (use Cons.prems(3) f in auto)
  from Cons.IH [OF this _ _ st1(2)] Cons.prems(2,3) show ?case by (auto simp: f)
qed simp

lemma select_pack_mono: "fst (select_pack opts t m st c) \<subseteq> insert (pw_ID c) (fst st)"
  by (cases st) (auto simp: select_pack_def Let_def)

lemma select_packs_subset: "fst (foldl (select_pack opts t m) st cs) \<subseteq> fst st \<union> pw_ID ` set cs"
proof (induction cs arbitrary: st)
  case (Cons c cs)
  show ?case using Cons [of "select_pack opts t m st c"] select_pack_mono [of opts t m st c] by auto
qed simp

lemma set_insert_by: "set (insert_by lt x xs) = insert x (set xs)"
  by (induction xs) auto

lemma set_sort_slice: "set (sort_slice lt xs) = set xs"
  unfolding sort_slice_def by (induction xs) (simp_all add: set_insert_by)

text \<open>What becomes of every pack, by whether it is listed, indexed and counts as used.\<close>

definition plan_sound :: "index_pack \<Rightarrow> ID set \<Rightarrow> PrunePlan \<Rightarrow> bool" where
  "plan_sound packs listed plan \<longleftrightarrow> pp_removePacksFirst plan = listed - dom (map_of packs)
     \<and> pp_removePacks plan = {p \<in> listed \<inter> dom (map_of packs). used_in packs p = 0}
     \<and> pp_ignorePacks plan = dom (map_of packs) - listed
     \<and> (\<forall>p \<in> dom (map_of packs) - listed. used_in packs p = 0)
     \<and> pp_repackPacks plan \<subseteq> {p \<in> listed \<inter> dom (map_of packs). used_in packs p \<noteq> 0}"

lemma used_in_Some: "map_of packs p = Some i \<Longrightarrow> used_in packs p = unat (pi_usedBlobs i)"
  by (simp add: used_in_def)

lemma decidePackAction_sound:
  assumes "distinct (map fst packs)" "distinct (map fst files)" "decidePackAction opts v files packs stats = Inr plan"
  shows "plan_sound packs (fst ` set files) plan"
proof -
  let ?t = "calculateTargetPacksize opts packs"
  let ?st = "\<lparr>pa_indexPack = packs, pa_stats = stats, pa_removePacksFirst = {}, pa_removePacks = {},
                   pa_repackCandidates = [], pa_repackSmallCandidates = []\<rparr>"
  from assms(3) obtain st st1 ig where st: "listPacks opts v ?t ?st files = Inr st" "resolveMissingPacks st = Inr (st1, ig)"
    by (auto simp: decidePackAction_def Let_def rbind_Inr_iff)
  have "act_inv packs {} ?st" by (simp add: act_inv_def)
  from listPacks_inv [OF this assms(2) _ st(1)] have a: "act_inv packs (fst ` set files) st" by simp
  have u: "pi_usedBlobs p = 0 \<longleftrightarrow> used_in packs i = 0" if "map_of packs i = Some p" for i p
    using that by (simp add: used_in_Some unat_eq_zero)
  have ip: "pa_indexPack st = filter (\<lambda>x. fst x \<notin> fst ` set files) packs" using a by (simp add: act_inv_def)
  have need: "\<forall>(i, p) \<in> set (pa_indexPack st). pi_usedBlobs p = 0" and ig: "ig = fst ` set (pa_indexPack st)"
    using st(2) by (auto simp: resolveMissingPacks_def Let_def filter_empty_conv split: if_splits)
  have igs: "ig = dom (map_of packs) - fst ` set files" unfolding ig ip dom_map_of_conv_image_fst by auto
  have miss: "used_in packs i = 0" if m: "i \<in> dom (map_of packs) - fst ` set files" for i
  proof -
    obtain p where p: "map_of packs i = Some p" using m by blast
    then have "(i, p) \<in> set (pa_indexPack st)" using m by (auto simp: ip dest: map_of_SomeD)
    then show ?thesis using need u [OF p] by auto
  qed
  have rest: "pa_removePacksFirst st1 = pa_removePacksFirst st" "pa_removePacks st1 = pa_removePacks st"
    "pa_repackCandidates st1 = pa_repackCandidates st" "pa_repackSmallCandidates st1 = pa_repackSmallCandidates st"
    using st(2) by (auto simp: resolveMissingPacks_def Let_def split: if_splits)
  let ?inc = "includeSmallCandidates st1"
  let ?cs = "sortRepackCandidates (pa_repackCandidates ?inc) ?t"
  have inc: "pa_removePacksFirst ?inc = pa_removePacksFirst st" "pa_removePacks ?inc = pa_removePacks st"
    "set ?cs \<subseteq> set (pa_repackCandidates st @ pa_repackSmallCandidates st)"
    using rest by (auto simp: includeSmallCandidates_def sortRepackCandidates_def set_sort_slice)
  have "fst (selectRepackPacks opts ?t ?cs s) \<subseteq> pw_ID ` set ?cs" for s
    using select_packs_subset [where st = "({}, s)"] by (simp add: selectRepackPacks_def)
  moreover have "pw_ID ` set ?cs \<subseteq> {i \<in> fst ` set files \<inter> dom (map_of packs). used_in packs i \<noteq> 0}"
  proof
    fix i assume "i \<in> pw_ID ` set ?cs"
    then obtain c where c: "i = pw_ID c" "c \<in> set (pa_repackCandidates st @ pa_repackSmallCandidates st)" using inc(3) by blast
    then have "i \<in> fst ` set files" "map_of packs i = Some (pw_packInfo c)" "pi_usedBlobs (pw_packInfo c) \<noteq> 0"
      using a unfolding act_inv_def by blast+
    then show "i \<in> {i \<in> fst ` set files \<inter> dom (map_of packs). used_in packs i \<noteq> 0}" using u by (auto simp only: domIff)
  qed
  ultimately have rp: "fst (selectRepackPacks opts ?t ?cs s) \<subseteq> {i \<in> fst ` set files \<inter> dom (map_of packs). used_in packs i \<noteq> 0}" for s
    by (rule subset_trans)
  have pl: "pp_removePacksFirst plan = pa_removePacksFirst ?inc" "pp_removePacks plan = pa_removePacks ?inc"
    "pp_ignorePacks plan = ig" "pp_repackPacks plan = fst (selectRepackPacks opts ?t ?cs (pa_stats ?inc))"
    using assms(3) st by (auto simp: decidePackAction_def Let_def split: prod.splits)
  have "pa_removePacks st = {p \<in> fst ` set files \<inter> dom (map_of packs). used_in packs p = 0}"
    using a u by (auto simp: act_inv_def)
  then show ?thesis using pl inc(1,2) a igs miss rp by (simp add: plan_sound_def act_inv_def)
qed

section \<open>The plan\<close>

lemma fresh_handles: "fresh_used (foldl (\<lambda>u h. AList.update h 0 u) [] handles)"
  "fst ` set (foldl (\<lambda>u h. AList.update h (0 :: u8) u) [] handles) = set handles"
proof -
  have "fresh_used u \<Longrightarrow> fresh_used (foldl (\<lambda>u h. AList.update h 0 u) u hs)" for hs and u :: used_blobs
  proof (induction hs arbitrary: u)
    case (Cons h hs)
    have "distinct (map fst (AList.update h 0 u))" using Cons.prems by (simp add: fresh_used_def distinct_update)
    moreover have "c = 0" if "(k, c) \<in> set (AList.update h 0 u)" for k c
      using map_of_is_SomeI [OF calculation that] Cons.prems by (auto simp: update_conv' fresh_used_def split: if_splits dest: map_of_SomeD)
    ultimately show ?case using Cons.IH by (simp add: fresh_used_def) blast
  qed simp
  from this [of "[]" handles] show "fresh_used (foldl (\<lambda>u h. AList.update h 0 u) [] handles)" by (simp add: fresh_used_def)
  have "fst ` set (foldl (\<lambda>u h. AList.update h (0 :: u8) u) u hs) = fst ` set u \<union> set hs" for hs and u :: used_blobs
    by (induction hs arbitrary: u) (auto simp: dom_update)
  from this [of "[]" handles] show "fst ` set (foldl (\<lambda>u h. AList.update h (0 :: u8) u) [] handles) = set handles" by simp
qed

lemma keep_keys:
  "fst ` set (foldl (\<lambda>keep pb. if P pb then keep else AList.delete (pb_Handle pb) keep) keep blobs)
     = fst ` set keep - pb_Handle ` {pb \<in> set blobs. \<not> P pb}"
proof (induction blobs arbitrary: keep)
  case (Cons pb blobs)
  have "fst ` set (AList.delete k al) = fst ` set al - {k}" for k and al :: "(BlobHandle \<times> 'a) list"
    using arg_cong [OF delete_keys [of k al], of set] by simp
  then show ?case using Cons by (cases "P pb") auto
qed simp

text \<open>The pieces a successful plan is made of.\<close>

lemma PlanPrune_parts:
  assumes "PlanPrune opts repo (Inr handles) = Inr plan" "distinct (map fst (pr_packs repo))" "length (pr_blobs repo) < 2 ^ 63"
  shows "\<exists>packs. plan_sound packs (fst ` set (pr_packs repo)) plan
    \<and> dom (map_of packs) = pb_Pack ` set (pr_blobs repo) \<and> (\<forall>h \<in> set handles. chosen (pr_blobs repo) packs h)
    \<and> (pp_repackPacks plan \<noteq> {} \<longrightarrow> (\<exists>keep. pp_keepBlobs plan = Some keep \<and> fst ` set keep = set handles -
          pb_Handle ` {pb \<in> set (pr_blobs repo). \<not> (pb_Pack pb \<in> pp_removePacks plan \<or> pb_Pack pb \<in> pp_repackPacks plan)}))"
proof -
  let ?u = "foldl (\<lambda>u h. AList.update h (0 :: u8) u) [] handles"
  note fr = fresh_handles [of handles]
  from assms(1) obtain used packs stats opts' plan0 where
    p: "packInfoFromIndex (pr_blobs repo) ?u zeroStats = Inr (used, packs, stats)"
      "decidePackAction opts' (pr_version repo) (pr_packs repo) packs stats = Inr plan0"
      "plan = plan0\<lparr>pp_keepBlobs := drop_kept plan0 (pr_blobs repo) used, pp_stats := total_stats (pp_stats plan0), pp_opts := opts'\<rparr>"
    by (auto simp: PlanPrune_def Let_def rbind_Inr_iff split: if_splits)
  have "set handles \<subseteq> pb_Handle ` set (pr_blobs repo)"
    using p(1) validate_iff [OF fr(1), of "pr_blobs repo"] fr(2)
    by (auto simp: packInfoFromIndex_def Let_def split: option.splits)
  then have "selection (pr_blobs repo) ?u used packs"
    using packInfoFromIndex_selects [OF fr(1) assms(3), of zeroStats] p(1) fr(2) by auto
  then have sel: "map fst used = map fst ?u" "\<forall>h \<in> set handles. chosen (pr_blobs repo) packs h"
    "fst ` set packs = pb_Pack ` set (pr_blobs repo)" "distinct (map fst packs)"
    using fr(2) by (auto simp: selection_def)
  have u: "fst ` set used = set handles" using arg_cong [OF sel(1), of set] fr(2) by simp
  have "plan_sound packs (fst ` set (pr_packs repo)) plan0" by (rule decidePackAction_sound [OF sel(4) assms(2) p(2)])
  then have "plan_sound packs (fst ` set (pr_packs repo)) plan" by (simp add: p(3) plan_sound_def)
  then show ?thesis using u sel(2,3) by (intro exI [of _ packs]) (simp add: p(3) dom_map_of_conv_image_fst drop_kept_def keep_keys)
qed

lemma used_blob_kept:
  assumes "plan_sound packs listed plan" "chosen blobs packs h" "dom (map_of packs) = pb_Pack ` set blobs"
    "\<forall>pb \<in> set blobs. pb_Handle pb = h \<longrightarrow> pb_Pack pb \<notin> pp_ignorePacks plan"
    "pp_repackPacks plan \<noteq> {} \<longrightarrow> (\<exists>keep. pp_keepBlobs plan = Some keep \<and> fst ` set keep = hs -
          pb_Handle ` {pb \<in> set blobs. \<not> (pb_Pack pb \<in> pp_removePacks plan \<or> pb_Pack pb \<in> pp_repackPacks plan)})" "h \<in> hs"
  shows "(\<exists>pb \<in> set blobs. pb_Handle pb = h \<and> pb_Pack pb \<in> listed
      \<and> pb_Pack pb \<notin> pp_removePacksFirst plan \<union> pp_removePacks plan \<union> pp_repackPacks plan \<union> pp_ignorePacks plan)
    \<or> (\<exists>keep. pp_keepBlobs plan = Some keep \<and> h \<in> fst ` set keep
        \<and> (\<exists>pb \<in> set blobs. pb_Handle pb = h \<and> pb_Pack pb \<in> pp_repackPacks plan))"
proof -
  have stays: "\<exists>pb \<in> set blobs. pb_Handle pb = h \<and> pb_Pack pb \<in> listed
      \<and> pb_Pack pb \<notin> pp_removePacksFirst plan \<union> pp_removePacks plan \<union> pp_repackPacks plan \<union> pp_ignorePacks plan"
    if "pb \<in> set blobs" "pb_Handle pb = h" "pb_Pack pb \<notin> pp_removePacks plan" "pb_Pack pb \<notin> pp_repackPacks plan" for pb
  proof -
    have "pb_Pack pb \<in> dom (map_of packs)" using that(1) assms(3) by blast
    moreover have "pb_Pack pb \<notin> pp_ignorePacks plan" using assms(4) that(1,2) by blast
    ultimately show ?thesis using that assms(1) unfolding plan_sound_def by blast
  qed
  obtain pb where pb: "pb \<in> set blobs" "pb_Handle pb = h" "0 < used_in packs (pb_Pack pb)"
    using assms(2) by (auto simp: chosen_def)
  then have r: "pb_Pack pb \<notin> pp_removePacks plan" using assms(1) by (auto simp: plan_sound_def)
  show ?thesis
  proof (cases "pb_Pack pb \<in> pp_repackPacks plan")
    case False
    then show ?thesis using stays [OF pb(1,2) r] by blast
  next
    case True
    then obtain keep where k: "pp_keepBlobs plan = Some keep" "fst ` set keep = hs -
        pb_Handle ` {pb \<in> set blobs. \<not> (pb_Pack pb \<in> pp_removePacks plan \<or> pb_Pack pb \<in> pp_repackPacks plan)}"
      using assms(5) by blast
    show ?thesis
    proof (cases "h \<in> fst ` set keep")
      case True
      then show ?thesis using k(1) pb(1,2) \<open>pb_Pack pb \<in> pp_repackPacks plan\<close> by blast
    next
      case False
      then show ?thesis using k(2) assms(6) stays by blast
    qed
  qed
qed

lemma select_pack_limit:
  "fst st = {} \<or> size_Repack (snd st) < po_MaxRepackBytes opts \<Longrightarrow>
     (fst (select_pack opts t m st c) = {} \<or> size_Repack (snd (select_pack opts t m st c)) < po_MaxRepackBytes opts)"
proof (cases "size_Repack (snd st) + pi_unusedSize (pw_packInfo c) + pi_usedSize (pw_packInfo c) < po_MaxRepackBytes opts")
  case True
  then have "size_Repack (repack_stats (pw_packInfo c) (snd st)) < po_MaxRepackBytes opts"
    by (simp add: repack_stats_def Let_def add.assoc)
  moreover assume "fst st = {} \<or> size_Repack (snd st) < po_MaxRepackBytes opts"
  ultimately show ?thesis by (cases st) (auto simp: select_pack_def Let_def)
next
  case False
  assume "fst st = {} \<or> size_Repack (snd st) < po_MaxRepackBytes opts"
  then show ?thesis using False by (cases st) (auto simp: select_pack_def Let_def)
qed

lemma selectRepackPacks_limit:
  "fst (selectRepackPacks opts t cs stats) = {} \<or> size_Repack (snd (selectRepackPacks opts t cs stats)) < po_MaxRepackBytes opts"
proof -
  have "fst st = {} \<or> size_Repack (snd st) < po_MaxRepackBytes opts \<Longrightarrow>
      fst (foldl (select_pack opts t m) st cs) = {} \<or> size_Repack (snd (foldl (select_pack opts t m) st cs)) < po_MaxRepackBytes opts" for m st
  proof (induction cs arbitrary: st)
    case (Cons c cs)
    show ?case using Cons.IH [OF select_pack_limit [OF Cons.prems]] by simp
  qed simp
  from this [of "({}, stats)"] show ?thesis by (simp add: selectRepackPacks_def)
qed

lemma decidePackAction_limit:
  assumes "decidePackAction opts v files packs stats = Inr plan"
  shows "pp_repackPacks plan = {} \<or> size_Repack (pp_stats plan) < po_MaxRepackBytes opts"
proof -
  let ?t = "calculateTargetPacksize opts packs"
  from assms obtain st st1 ig where
    st: "listPacks opts v ?t \<lparr>pa_indexPack = packs, pa_stats = stats, pa_removePacksFirst = {}, pa_removePacks = {},
        pa_repackCandidates = [], pa_repackSmallCandidates = []\<rparr> files = Inr st" "resolveMissingPacks st = Inr (st1, ig)"
    by (auto simp: decidePackAction_def Let_def rbind_Inr_iff)
  let ?s = "selectRepackPacks opts ?t (sortRepackCandidates (pa_repackCandidates (includeSmallCandidates st1)) ?t)
    (pa_stats (includeSmallCandidates st1))"
  have "pp_repackPacks plan = fst ?s" "size_Repack (pp_stats plan) = size_Repack (snd ?s)"
    using assms st by (auto simp: decidePackAction_def Let_def split: prod.splits)
  then show ?thesis using selectRepackPacks_limit [of opts ?t] by simp
qed

lemma account_total: "size_Total (fst (snd (accountIndexedBlob used st pb))) = size_Total (fst (snd st))"
  by (cases st) (auto simp: accountIndexedBlob_def Let_def)

lemma select_total: "size_Total (snd (snd (select_duplicate st pb))) = size_Total (snd (snd st))"
  by (cases st) (auto simp: select_duplicate_def Let_def split: option.splits)

lemma packInfoFromIndex_total:
  assumes "packInfoFromIndex blobs used stats = Inr (used', packs, stats')"
  shows "size_Total stats' = size_Total stats"
proof -
  have a: "size_Total (fst (snd (foldl (accountIndexedBlob u) st bs))) = size_Total (fst (snd st))" for u st bs
    by (induction bs arbitrary: st) (simp_all add: account_total)
  have s: "size_Total (snd (snd (foldl select_duplicate st bs))) = size_Total (snd (snd st))" for st bs
    by (induction bs arbitrary: st) (simp_all add: select_total)
  let ?u = "countUsedBlobOccurrences blobs used"
  obtain P S D where f: "foldl (accountIndexedBlob ?u) (header_infos blobs, stats, False) blobs = (P, S, D)" by (metis prod_cases3)
  have "size_Total S = size_Total stats" using a [of ?u "(header_infos blobs, stats, False)" blobs] f by simp
  moreover have "stats' = S \<or> stats' = snd (snd (foldl select_duplicate (?u, P, S) blobs))"
    using assms f unfolding packInfoFromIndex_def header_infos_def [symmetric] Let_def
    by (auto split: option.splits if_splits prod.splits)
  ultimately show ?thesis using s [of "(?u, P, S)" blobs] by auto
qed

lemma decidePackAction_errors:
  assumes "distinct (map fst packs)" "distinct (map fst files)" "decidePackAction opts v files packs stats = Inl e"
  shows "e = ErrSizeNotMatching \<or> e = ErrPacksMissing \<and> \<not> fst ` set packs \<subseteq> fst ` set files"
proof -
  let ?t = "calculateTargetPacksize opts packs"
  let ?st = "\<lparr>pa_indexPack = packs, pa_stats = stats, pa_removePacksFirst = {}, pa_removePacks = {},
                   pa_repackCandidates = [], pa_repackSmallCandidates = []\<rparr>"
  have p: "processPack opts v t st f = Inl e' \<Longrightarrow> e' = ErrSizeNotMatching" for t st f e'
    by (cases f) (simp add: processPack_def Let_def split: option.splits if_splits)
  have l: "listPacks opts v t st fs = Inl e' \<Longrightarrow> e' = ErrSizeNotMatching" for t st fs e'
    unfolding listPacks_def
  proof (induction fs arbitrary: st)
    case (Cons f fs)
    then show ?case using p [of t st f] by (cases "processPack opts v t st f") auto
  qed simp
  show ?thesis
  proof (cases "listPacks opts v ?t ?st files")
    case (Inl e')
    then show ?thesis using assms(3) l [OF Inl] by (simp add: decidePackAction_def Let_def)
  next
    case (Inr st)
    have "act_inv packs {} ?st" by (simp add: act_inv_def)
    from listPacks_inv [OF this assms(2) _ Inr] have a: "pa_indexPack st = filter (\<lambda>x. fst x \<notin> fst ` set files) packs"
      by (simp add: act_inv_def)
    have "e = ErrPacksMissing \<and> pa_indexPack st \<noteq> []"
      using assms(3) Inr by (auto simp: decidePackAction_def Let_def resolveMissingPacks_def filter_empty_conv split: if_splits prod.splits)
    then show ?thesis using a by (auto simp: filter_empty_conv)
  qed
qed

lemma packInfoFromIndex_incomplete:
  assumes "fresh_used used" "\<not> fst ` set used \<subseteq> pb_Handle ` set blobs"
  shows "packInfoFromIndex blobs used stats = Inl ErrIndexIncomplete"
  using validate_iff [OF assms(1), of blobs] assms(2) by (auto simp: packInfoFromIndex_def Let_def split: option.splits)

text \<open>The percentage is read by no step of the decision.\<close>

lemma decidePackAction_percent:
  "decidePackAction (opts\<lparr>po_MaxRepackPercent := x\<rparr>) v files packs stats
     = map_sum id (\<lambda>plan. plan\<lparr>pp_opts := opts\<lparr>po_MaxRepackPercent := x\<rparr>\<rparr>) (decidePackAction opts v files packs stats)"
proof -
  let ?o = "opts\<lparr>po_MaxRepackPercent := x\<rparr>"
  have "calculateTargetPacksize ?o = calculateTargetPacksize opts \<and> processPack ?o = processPack opts \<and> select_pack ?o = select_pack opts"
    by (cases opts) (simp only: calculateTargetPacksize_def [abs_def] processPack_def [abs_def] select_pack_def [abs_def] PruneOptions.simps simp_thms)
  moreover from this have "listPacks ?o = listPacks opts" "selectRepackPacks ?o = selectRepackPacks opts"
    by (simp_all add: listPacks_def [abs_def] selectRepackPacks_def [abs_def])
  ultimately show ?thesis by (simp add: decidePackAction_def rbind_def Let_def split: sum.splits prod.splits)
qed

text \<open>The part of \<open>PlanPrune\<close> behind its guards.\<close>

definition plan_rest :: "prune_repo \<Rightarrow> PruneOptions \<Rightarrow> BlobHandle list \<Rightarrow> PrunePlan result" where
  "plan_rest repo opts handles =
     rbind (packInfoFromIndex (pr_blobs repo) (foldl (\<lambda>u h. AList.update h 0 u) [] handles) zeroStats) (\<lambda>(keepBlobs, indexPack, stats).
       rbind (decidePackAction (percent_opts opts stats) (pr_version repo) (pr_packs repo) indexPack stats) (\<lambda>plan.
         Inr (plan\<lparr>pp_keepBlobs := drop_kept plan (pr_blobs repo) keepBlobs,
                   pp_stats := total_stats (pp_stats plan), pp_opts := percent_opts opts stats\<rparr>)))"

lemma PlanPrune_rest:
  "PlanPrune opts repo r =
     (if pr_slateDB repo then Inl (Error ''prune is disabled for SlateDB-authoritative repositories'')
      else if pr_connections repo < 2 then Inl (Error ''prune requires a backend connection limit of at least two'')
      else if pr_version repo < 2 \<and> po_RepackUncompressed opts
      then Inl (Error ''compression requires at least repository format version 2'')
      else if po_SmallPackBytes opts > pr_packSize repo then Inl (Error ''repack-smaller-than exceeds repository packsize'')
      else rbind r (plan_rest repo (recovery_opts opts)))"
proof -
  have "po_RepackUncompressed (recovery_opts opts) = po_RepackUncompressed opts"
    "po_SmallPackBytes (recovery_opts opts) = po_SmallPackBytes opts" by (simp_all add: recovery_opts_def)
  then show ?thesis unfolding PlanPrune_def plan_rest_def [abs_def] Let_def by simp
qed

lemma plan_rest_percent:
  "plan_rest repo (opts\<lparr>po_MaxRepackPercent := x\<rparr>) handles
     = map_sum id (\<lambda>plan. plan\<lparr>pp_opts := (pp_opts plan)\<lparr>po_MaxRepackPercent := x\<rparr>\<rparr>) (plan_rest repo opts handles)"
proof (cases "packInfoFromIndex (pr_blobs repo) (foldl (\<lambda>u h. AList.update h (0 :: u8) u) [] handles) zeroStats")
  case (Inr t)
  obtain keep packs stats where t: "t = (keep, packs, stats)" by (metis prod_cases3)
  have z: "percent_opts o' stats = o'" for o'
    using packInfoFromIndex_total [OF Inr [unfolded t]] by (simp add: percent_opts_def zeroStats_def split: option.split)
  show ?thesis
    by (cases "decidePackAction opts (pr_version repo) (pr_packs repo) packs stats")
      (simp_all add: plan_rest_def Inr t z decidePackAction_percent drop_kept_def)
qed (simp add: plan_rest_def)

section \<open>A sample repository\<close>

text \<open>Five index entries: pack \<open>p\<close>, whose file is missing, has the blobs \<open>a\<close> and \<open>b\<close>; pack \<open>q\<close> has \<open>a\<close>, \<open>c\<close>
  and \<open>d\<close>. The blobs \<open>a\<close> and \<open>c\<close> are in use. The plan is computed step by step.\<close>

definition sample_blob :: "ID \<Rightarrow> ID \<Rightarrow> u64 \<Rightarrow> PackedBlob" where
  "sample_blob p h off = \<lparr>pb_Pack = p, pb_Blob = \<lparr>b_Handle = \<lparr>bh_ID = h, bh_Type = DataBlob\<rparr>,
     b_Length = 100, b_Offset = off, b_UncompressedLength = 0\<rparr>\<rparr>"

definition sample_opts :: PruneOptions where
  "sample_opts = \<lparr>po_DryRun = False, po_UnsafeRecovery = False, po_MaxUnusedBytes = (\<lambda>_. 0), po_MaxRepackBytes = 1000,
    po_MaxRepackPercent = Some (\<lambda>n. n div 10), po_SmallPackBytes = 0, po_RepackCacheableOnly = False, po_RepackUncompressed = False,
    po_RepackAll = False, po_FastRepack = False, po_EarlyDeleteIndex = False, po_KeepDelete = False\<rparr>"

abbreviation data_handle :: "ID \<Rightarrow> BlobHandle" where
  "data_handle i \<equiv> \<lparr>bh_ID = i, bh_Type = DataBlob\<rparr>"

lemma sample_blob_simps: "pb_Pack (sample_blob p h off) = p" "pb_Handle (sample_blob p h off) = data_handle h"
  "pb_CiphertextLength (sample_blob p h off) = 100" "pb_IsCompressed (sample_blob p h off) = False"
  by (simp_all add: sample_blob_def pb_Handle_def pb_CiphertextLength_def pb_IsCompressed_def IsCompressed_def)

definition sample_packs :: "ID \<Rightarrow> ID \<Rightarrow> index_pack" where
  "sample_packs p q = [(p, \<lparr>pi_usedBlobs = 0, pi_unusedBlobs = 2, pi_duplicateBlobs = 1, pi_usedSize = 110, pi_unusedSize = 200,
       pi_tpe = DataBlob, pi_uncompressed = True\<rparr>),
     (q, \<lparr>pi_usedBlobs = 2, pi_unusedBlobs = 1, pi_duplicateBlobs = 1, pi_usedSize = 347, pi_unusedSize = 100,
       pi_tpe = DataBlob, pi_uncompressed = True\<rparr>)]"

definition sample_stats :: PruneStats where
  "sample_stats = zeroStats\<lparr>blobs_Used := 2, blobs_Duplicate := 1, blobs_Unused := 2, size_Used := 200, size_Duplicate := 100,
     size_Unused := 200\<rparr>"

definition sample_index_blobs :: "ID \<Rightarrow> ID \<Rightarrow> ID \<Rightarrow> ID \<Rightarrow> ID \<Rightarrow> ID \<Rightarrow> PackedBlob list" where
  "sample_index_blobs p q a b c d =
     [sample_blob p a 0, sample_blob p b 100, sample_blob q a 0, sample_blob q c 100, sample_blob q d 200]"

lemma sample_packInfo:
  assumes "a \<noteq> b" "a \<noteq> c" "b \<noteq> c" "a \<noteq> d" "b \<noteq> d" "c \<noteq> d" "p \<noteq> q"
  shows "packInfoFromIndex (sample_index_blobs p q a b c d) [(data_handle a, 0), (data_handle c, 0)] zeroStats
     = Inr ([(data_handle a, 1), (data_handle c, 1)], sample_packs p q, sample_stats)"
  using assms assms [symmetric] unfolding sample_index_blobs_def
  apply (simp add: packInfoFromIndex_def Let_def countUsedBlobOccurrences_def count_blob_def sample_blob_simps validateUsedBlobs_def
      Size_def size_step_def CalculateEntrySize_def plainEntrySize_def headerLengthSize_def idSize_def headerSize_def
      Extension_def ivSize_def macSize_def)
  apply (simp add: accountIndexedBlob_def sample_blob_simps Let_def zeroPackInfo_def zeroStats_def)
  apply (simp add: select_duplicate_def sample_blob_simps Let_def sample_packs_def sample_stats_def zeroStats_def)
  done

lemma sample_target: "p \<noteq> q \<Longrightarrow> calculateTargetPacksize sample_opts (sample_packs p q) = 3355443"
  by (simp add: calculateTargetPacksize_def sample_packs_def sample_opts_def Let_def MinPackSize_def max_def)

lemma sample_decide:
  assumes "p \<noteq> q"
  shows "\<exists>st. decidePackAction sample_opts 1 [(q, 447)] (sample_packs p q) sample_stats =
    Inr \<lparr>pp_removePacksFirst = {}, pp_repackPacks = {q}, pp_keepBlobs = None, pp_removePacks = {}, pp_ignorePacks = {p},
      pp_stats = st, pp_opts = sample_opts\<rparr>"
  using assms assms [symmetric] unfolding decidePackAction_def Let_def sample_target [OF assms]
  apply (simp add: listPacks_def processPack_def sample_packs_def Let_def count_pack_kind_def)
  apply (simp add: sample_opts_def resolveMissingPacks_def)
  apply (simp add: includeSmallCandidates_def sortRepackCandidates_def sort_slice_def Let_def)
  apply (simp add: selectRepackPacks_def select_pack_def repack_stats_def Let_def sample_stats_def zeroStats_def)
  done

abbreviation sid :: "u8 \<Rightarrow> ID" where
  "sid k \<equiv> replicate 32 k"

definition sample_prune_repo :: prune_repo where
  "sample_prune_repo = \<lparr>pr_slateDB = False, pr_connections = 5, pr_version = 1, pr_packSize = 16777216,
     pr_blobs = sample_index_blobs (sid 1) (sid 2) (sid 3) (sid 4) (sid 5) (sid 6), pr_packs = [(sid 2, 447)]\<rparr>"

definition sample_used :: "BlobHandle list" where
  "sample_used = [data_handle (sid 3), data_handle (sid 5)]"

lemma sample_ids: "replicate 32 (j :: u8) = replicate 32 k \<longleftrightarrow> j = k"
  by simp

lemma sample_plan:
  "\<exists>plan. PlanPrune sample_opts sample_prune_repo (Inr sample_used) = Inr plan \<and> pp_removePacksFirst plan = {}
     \<and> pp_repackPacks plan = {sid 2} \<and> pp_removePacks plan = {} \<and> pp_ignorePacks plan = {sid 1}
     \<and> pp_keepBlobs plan = Some [(data_handle (sid 5), 1)]"
proof -
  have o: "recovery_opts sample_opts = sample_opts" "percent_opts sample_opts sample_stats = sample_opts"
    "po_RepackUncompressed sample_opts = False" "po_SmallPackBytes sample_opts = 0"
    by (simp_all add: recovery_opts_def percent_opts_def sample_opts_def sample_stats_def zeroStats_def)
  have u: "foldl (\<lambda>u h. AList.update h (0 :: u8) u) [] sample_used = [(data_handle (sid 3), 0), (data_handle (sid 5), 0)]"
    by (simp add: sample_used_def sample_ids)
  have b: "packInfoFromIndex (sample_index_blobs (sid 1) (sid 2) (sid 3) (sid 4) (sid 5) (sid 6))
      [(data_handle (sid 3), 0), (data_handle (sid 5), 0)] zeroStats
    = Inr ([(data_handle (sid 3), 1), (data_handle (sid 5), 1)], sample_packs (sid 1) (sid 2), sample_stats)"
    by (rule sample_packInfo) (simp_all add: sample_ids)
  obtain st where d: "decidePackAction sample_opts 1 [(sid 2, 447)] (sample_packs (sid 1) (sid 2)) sample_stats =
    Inr \<lparr>pp_removePacksFirst = {}, pp_repackPacks = {sid 2}, pp_keepBlobs = None, pp_removePacks = {}, pp_ignorePacks = {sid 1},
      pp_stats = st, pp_opts = sample_opts\<rparr>" using sample_decide [of "sid 1" "sid 2"] by (auto simp: sample_ids)
  show ?thesis unfolding PlanPrune_def sample_prune_repo_def
    by (simp add: o u b d drop_kept_def) (simp add: sample_index_blobs_def sample_blob_simps sample_ids)
qed

section \<open>What pruning guarantees\<close>

text \<open>C3: A plan never gives up a blob in use: every used blob that has no index entry in a missing pack either is in a
  listed pack the plan does not touch, or is kept for repacking and in a repacked pack.\<close>

theorem PlanPrune_keeps_used:
  assumes "PlanPrune opts repo (Inr handles) = Inr plan" "distinct (map fst (pr_packs repo))" "length (pr_blobs repo) < 2 ^ 63"
    "h \<in> set handles" "\<forall>pb \<in> set (pr_blobs repo). pb_Handle pb = h \<longrightarrow> pb_Pack pb \<in> fst ` set (pr_packs repo)"
  shows "(\<exists>pb \<in> set (pr_blobs repo). pb_Handle pb = h \<and> pb_Pack pb \<in> fst ` set (pr_packs repo)
      \<and> pb_Pack pb \<notin> pp_removePacksFirst plan \<union> pp_removePacks plan \<union> pp_repackPacks plan \<union> pp_ignorePacks plan)
    \<or> (\<exists>keep. pp_keepBlobs plan = Some keep \<and> h \<in> fst ` set keep
        \<and> (\<exists>pb \<in> set (pr_blobs repo). pb_Handle pb = h \<and> pb_Pack pb \<in> pp_repackPacks plan))"
proof -
  obtain packs where p: "plan_sound packs (fst ` set (pr_packs repo)) plan" "dom (map_of packs) = pb_Pack ` set (pr_blobs repo)"
    "chosen (pr_blobs repo) packs h"
    "pp_repackPacks plan \<noteq> {} \<longrightarrow> (\<exists>keep. pp_keepBlobs plan = Some keep \<and> fst ` set keep = set handles -
          pb_Handle ` {pb \<in> set (pr_blobs repo). \<not> (pb_Pack pb \<in> pp_removePacks plan \<or> pb_Pack pb \<in> pp_repackPacks plan)})"
    using PlanPrune_parts [OF assms(1,2,3)] assms(4) by blast
  have "pp_ignorePacks plan \<inter> fst ` set (pr_packs repo) = {}" using p(1) by (auto simp: plan_sound_def)
  then have "\<forall>pb \<in> set (pr_blobs repo). pb_Handle pb = h \<longrightarrow> pb_Pack pb \<notin> pp_ignorePacks plan" using assms(5) by blast
  from used_blob_kept [OF p(1,3,2) this p(4) assms(4)] show ?thesis .
qed

text \<open>Blob \<open>c\<close> of the sample is in use and has its only entry in the listed pack.\<close>

lemma sample_blob_c:
  "distinct (map fst (pr_packs sample_prune_repo))" "length (pr_blobs sample_prune_repo) < 2 ^ 63"
  "data_handle (sid 5) \<in> set sample_used"
  "\<forall>pb \<in> set (pr_blobs sample_prune_repo). pb_Handle pb = data_handle (sid 5) \<longrightarrow> pb_Pack pb \<in> fst ` set (pr_packs sample_prune_repo)"
  by (simp_all add: sample_prune_repo_def sample_index_blobs_def sample_blob_simps sample_used_def sample_ids)

theorem PlanPrune_keeps_used_witness:
  "\<exists>plan keep. PlanPrune sample_opts sample_prune_repo (Inr sample_used) = Inr plan
     \<and> pp_keepBlobs plan = Some keep \<and> data_handle (sid 5) \<in> fst ` set keep"
proof -
  obtain plan where p: "PlanPrune sample_opts sample_prune_repo (Inr sample_used) = Inr plan" "pp_repackPacks plan = {sid 2}"
    using sample_plan by blast
  have "\<forall>pb \<in> set (pr_blobs sample_prune_repo). pb_Handle pb = data_handle (sid 5) \<longrightarrow> pb_Pack pb = sid 2"
    by (simp add: sample_prune_repo_def sample_index_blobs_def sample_blob_simps sample_ids)
  then show ?thesis using PlanPrune_keeps_used [OF p(1) sample_blob_c] p by blast
qed





text \<open>C28: A plan that repacks anything repacks fewer bytes than \<open>MaxRepackBytes\<close> as counted by the statistics, and with
  \<open>UnsafeRecovery\<close> it repacks nothing.\<close>

theorem PlanPrune_repack_limit:
  assumes "PlanPrune opts repo r = Inr plan"
  shows "pp_repackPacks plan = {} \<or> size_Repack (pp_stats plan) < po_MaxRepackBytes opts \<and> \<not> po_UnsafeRecovery opts"
proof -
  from assms obtain packs stats plan0 where p: "decidePackAction (percent_opts (recovery_opts opts) stats) (pr_version repo)
      (pr_packs repo) packs stats = Inr plan0" "pp_repackPacks plan = pp_repackPacks plan0"
      "pp_stats plan = total_stats (pp_stats plan0)"
    by (auto simp: PlanPrune_def Let_def rbind_Inr_iff split: if_splits)
  have le: "po_MaxRepackBytes (percent_opts (recovery_opts opts) stats) \<le> (if po_UnsafeRecovery opts then 0 else po_MaxRepackBytes opts)"
    by (auto simp: percent_opts_def recovery_opts_def Let_def split: option.splits)
  have t: "size_Repack (total_stats s) = size_Repack s" for s by (simp add: total_stats_def Let_def)
  show ?thesis using decidePackAction_limit [OF p(1)] le p(2,3) t by (auto split: if_splits)
qed

theorem PlanPrune_repack_limit_witness:
  "\<exists>plan. PlanPrune sample_opts sample_prune_repo (Inr sample_used) = Inr plan \<and> size_Repack (pp_stats plan) < 1000"
proof -
  obtain plan where p: "PlanPrune sample_opts sample_prune_repo (Inr sample_used) = Inr plan" "pp_repackPacks plan = {sid 2}"
    using sample_plan by blast
  show ?thesis using PlanPrune_repack_limit [OF p(1)] p by (simp add: sample_opts_def)
qed

text \<open>C29: \<open>MaxRepackPercent\<close> has no effect: the percentage is resolved against the total size, which is still zero at
  that point, so plans with and without it differ only in the recorded option.\<close>

theorem PlanPrune_percent_ignored:
  "PlanPrune (opts\<lparr>po_MaxRepackPercent := x\<rparr>) repo r
     = map_sum id (\<lambda>plan. plan\<lparr>pp_opts := (pp_opts plan)\<lparr>po_MaxRepackPercent := x\<rparr>\<rparr>) (PlanPrune opts repo r)"
proof -
  have "recovery_opts (opts\<lparr>po_MaxRepackPercent := x\<rparr>) = (recovery_opts opts)\<lparr>po_MaxRepackPercent := x\<rparr>"
    by (simp add: recovery_opts_def)
  then show ?thesis unfolding PlanPrune_rest by (cases r) (simp_all add: plan_rest_percent)
qed

text \<open>C31: A used blob with a second index entry in a missing pack can be lost: the entry in the ignored pack takes the blob
  off the list to copy, while the only pack file holding it is repacked and removed.\<close>

theorem PlanPrune_ignored_pack_loses:
  "\<exists>opts repo handles plan keep h. PlanPrune opts repo (Inr handles) = Inr plan \<and> h \<in> set handles
     \<and> pb_Pack ` {pb \<in> set (pr_blobs repo). pb_Handle pb = h} \<subseteq> pp_repackPacks plan \<union> pp_ignorePacks plan
     \<and> pp_keepBlobs plan = Some keep \<and> h \<notin> fst ` set keep"
proof -
  obtain plan where p: "PlanPrune sample_opts sample_prune_repo (Inr sample_used) = Inr plan" "pp_repackPacks plan = {sid 2}"
    "pp_ignorePacks plan = {sid 1}" "pp_keepBlobs plan = Some [(data_handle (sid 5), 1)]" using sample_plan by blast
  have "data_handle (sid 3) \<in> set sample_used" "data_handle (sid 3) \<notin> fst ` set [(data_handle (sid 5), 1 :: u8)]"
    by (simp_all add: sample_used_def sample_ids)
  moreover have "pb_Pack ` {pb \<in> set (pr_blobs sample_prune_repo). pb_Handle pb = data_handle (sid 3)}
      \<subseteq> pp_repackPacks plan \<union> pp_ignorePacks plan"
    unfolding p(2,3) by (auto simp: sample_prune_repo_def sample_index_blobs_def sample_blob_simps sample_ids)
  ultimately show ?thesis using p(1,4) by blast
qed

end
