(* ===== verification/Associated_Set.thy ===== *)
theory Associated_Set
  imports Master_Index
begin

text \<open>
  Sets of blobs with a value per blob, \<^verbatim>\<open>internal/repository/index/associated_data.go\<close>: the values are in
  arrays indexed by the position the master index gives a blob; blobs it does not know, or has learnt of
  since the set was made, are in an overflow map. The master index is shared and may grow: it is an argument of every
  operation. Go's type parameter \<open>T\<close> is a type variable, its zero value the argument \<open>zero\<close>.

  The locale \<open>value_map\<close> is the contract of a finite map with failing operations; \<^verbatim>\<open>Intersect\<close> and \<^verbatim>\<open>Sub\<close>, which
  the source builds from the basic operations, are proved from it.
\<close>

section \<open>Model\<close>

record 'a associatedSetSub =
  sub_value :: "'a list"
  sub_isSet :: "bool list"

record 'a AssociatedSet =
  as_byType :: "'a associatedSetSub list"
  as_overflow :: "(BlobHandle \<times> 'a) list"

definition NewAssociatedSet :: "'a \<Rightarrow> MasterIndex \<Rightarrow> 'a AssociatedSet result" where
  "NewAssociatedSet zero mi =
     rbind (mapM (\<lambda>t. rbind (stableLen mi t) (\<lambda>n. let count = n + 1 in
         Inr \<lparr>sub_value = replicate (unat count) zero, sub_isSet = replicate (unat count) False\<rparr>)) [DataBlob, TreeBlob])
       (\<lambda>subs. Inr \<lparr>as_byType = \<lparr>sub_value = [], sub_isSet = []\<rparr> # subs, as_overflow = []\<rparr>)"

definition as_Get :: "'a \<Rightarrow> MasterIndex \<Rightarrow> 'a AssociatedSet \<Rightarrow> BlobHandle \<Rightarrow> ('a \<times> bool) result" where
  "as_Get zero mi a bh = (case map_of (as_overflow a) bh of Some val \<Rightarrow> Inr (val, True)
   | None \<Rightarrow> rbind (blobIndex mi bh) (\<lambda>idx.
       rbind (slice_get (as_byType a) (blob_type_num (bh_Type bh))) (\<lambda>bt.
         if idx \<ge> int (length (sub_value bt)) \<or> idx = -1 then Inr (zero, False)
         else rbind (slice_get (sub_isSet bt) (nat idx)) (\<lambda>has.
           if has then rbind (slice_get (sub_value bt) (nat idx)) (\<lambda>val. Inr (val, has)) else Inr (zero, False)))))"

definition as_Has :: "'a \<Rightarrow> MasterIndex \<Rightarrow> 'a AssociatedSet \<Rightarrow> BlobHandle \<Rightarrow> bool result" where
  "as_Has zero mi a bh = rbind (as_Get zero mi a bh) (\<lambda>(_, ok). Inr ok)"

definition as_Set :: "MasterIndex \<Rightarrow> 'a AssociatedSet \<Rightarrow> BlobHandle \<Rightarrow> 'a \<Rightarrow> 'a AssociatedSet result" where
  "as_Set mi a bh val = (let over = Inr (a\<lparr>as_overflow := AList.update bh val (as_overflow a)\<rparr>) in
     if map_of (as_overflow a) bh \<noteq> None then over
     else rbind (blobIndex mi bh) (\<lambda>idx. let t = blob_type_num (bh_Type bh) in
       rbind (slice_get (as_byType a) t) (\<lambda>bt.
         if idx \<ge> int (length (sub_value bt)) \<or> idx = -1 then over
         else if nat idx < length (sub_isSet bt)
         then Inr (a\<lparr>as_byType := (as_byType a)[t := \<lparr>sub_value = (sub_value bt)[nat idx := val],
                                                 sub_isSet = (sub_isSet bt)[nat idx := True]\<rparr>]\<rparr>)
         else Inl (Panic ''index out of range''))))"

definition as_Insert :: "'a \<Rightarrow> MasterIndex \<Rightarrow> 'a AssociatedSet \<Rightarrow> BlobHandle \<Rightarrow> 'a AssociatedSet result" where
  "as_Insert zero mi a bh = as_Set mi a bh zero"

definition as_Delete :: "MasterIndex \<Rightarrow> 'a AssociatedSet \<Rightarrow> BlobHandle \<Rightarrow> 'a AssociatedSet result" where
  "as_Delete mi a bh =
     (if map_of (as_overflow a) bh \<noteq> None then Inr (a\<lparr>as_overflow := AList.delete bh (as_overflow a)\<rparr>)
      else rbind (blobIndex mi bh) (\<lambda>idx. let t = blob_type_num (bh_Type bh) in
        rbind (slice_get (as_byType a) t) (\<lambda>bt.
          if idx < int (length (sub_value bt)) \<and> idx \<noteq> -1
          then if nat idx < length (sub_isSet bt)
               then Inr (a\<lparr>as_byType := (as_byType a)[t := bt\<lparr>sub_isSet := (sub_isSet bt)[nat idx := False]\<rparr>]\<rparr>)
               else Inl (Panic ''index out of range'')
          else Inr a)))"

text \<open>\<^verbatim>\<open>All\<close> yields the overflow map, then every entry of the master index that is in the set.\<close>

definition as_All :: "'a \<Rightarrow> MasterIndex \<Rightarrow> 'a AssociatedSet \<Rightarrow> (BlobHandle \<times> 'a) list result" where
  "as_All zero mi a = rbind (mi_Values mi) (\<lambda>pbs.
     rbind (mapM (\<lambda>pb. let bh = pb_Handle pb in
         if map_of (as_overflow a) bh \<noteq> None then Inr []
         else rbind (as_Get zero mi a bh) (\<lambda>(val, known). Inr (if known then [(bh, val)] else []))) pbs)
       (\<lambda>vs. Inr (as_overflow a @ concat vs)))"

definition as_Keys :: "'a \<Rightarrow> MasterIndex \<Rightarrow> 'a AssociatedSet \<Rightarrow> BlobHandle list result" where
  "as_Keys zero mi a = rbind (as_All zero mi a) (\<lambda>kvs. Inr (map fst kvs))"

definition as_Len :: "'a \<Rightarrow> MasterIndex \<Rightarrow> 'a AssociatedSet \<Rightarrow> nat result" where
  "as_Len zero mi a = rbind (as_All zero mi a) (\<lambda>kvs. Inr (length kvs))"

text \<open>\<open>has\<close> is the method \<^verbatim>\<open>Has\<close> of the other set.\<close>

definition as_Intersect ::
  "'a \<Rightarrow> MasterIndex \<Rightarrow> 'a AssociatedSet \<Rightarrow> (BlobHandle \<Rightarrow> bool) \<Rightarrow> 'a AssociatedSet result" where
  "as_Intersect zero mi a has = rbind (NewAssociatedSet zero mi) (\<lambda>r. rbind (as_Keys zero mi a)
     (foldM (\<lambda>r bh. if has bh then rbind (as_Get zero mi a bh) (\<lambda>(val, _). as_Set mi r bh val) else Inr r) r))"

definition as_Sub ::
  "'a \<Rightarrow> MasterIndex \<Rightarrow> 'a AssociatedSet \<Rightarrow> (BlobHandle \<Rightarrow> bool) \<Rightarrow> 'a AssociatedSet result" where
  "as_Sub zero mi a has = rbind (NewAssociatedSet zero mi) (\<lambda>r. rbind (as_Keys zero mi a)
     (foldM (\<lambda>r bh. if \<not> has bh then rbind (as_Get zero mi a bh) (\<lambda>(val, _). as_Set mi r bh val) else Inr r) r))"

section \<open>Maps with failing operations\<close>

locale value_map =
  fixes inv :: "'s \<Rightarrow> bool" and key :: "'k \<Rightarrow> bool" and view :: "'s \<Rightarrow> 'k \<rightharpoonup> 'v"
    and get :: "'s \<Rightarrow> 'k \<Rightarrow> ('v \<times> bool) result" and put :: "'s \<Rightarrow> 'k \<Rightarrow> 'v \<Rightarrow> 's result"
  assumes get_view: "inv s \<Longrightarrow> key k \<Longrightarrow> view s k = Some v \<Longrightarrow> get s k = Inr (v, True)"
    and put_view: "inv s \<Longrightarrow> key k \<Longrightarrow> \<exists>s'. put s k v = Inr s' \<and> inv s' \<and> view s' = (view s)(k \<mapsto> v)"
begin

text \<open>Copying the selected keys of one map into another.\<close>

lemma copy_selected:
  assumes "inv a" "inv r" "\<forall>k \<in> set ks. key k \<and> view a k \<noteq> None"
  shows "\<exists>r'. foldM (\<lambda>r k. if sel k then rbind (get a k) (\<lambda>(v, _). put r k v) else Inr r) r ks = Inr r' \<and> inv r'
    \<and> view r' = (\<lambda>k. if k \<in> set ks \<and> sel k then view a k else view r k)"
  using assms(2,3)
proof (induction ks arbitrary: r)
  case (Cons k ks)
  obtain v where v: "view a k = Some v" "key k" using Cons.prems(2) by auto
  obtain r1 where r1: "put r k v = Inr r1" "inv r1" "view r1 = (view r)(k \<mapsto> v)" using put_view [OF Cons.prems(1) v(2)] by blast
  have g: "get a k = Inr (v, True)" by (rule get_view [OF assms(1) v(2,1)])
  show ?case
  proof (cases "sel k")
    case True
    from Cons.IH [OF r1(2)] Cons.prems(2) obtain r' where
      "foldM (\<lambda>r k. if sel k then rbind (get a k) (\<lambda>(v, _). put r k v) else Inr r) r1 ks = Inr r'" "inv r'"
      "view r' = (\<lambda>k. if k \<in> set ks \<and> sel k then view a k else view r1 k)" by auto
    then show ?thesis using True g r1 v(1) by (intro exI [of _ r']) (auto simp: fun_eq_iff)
  next
    case False
    then show ?thesis using Cons.IH [OF Cons.prems(1)] Cons.prems(2) by (auto simp: fun_eq_iff)
  qed
qed simp

end

section \<open>Positions\<close>

text \<open>The blobs the first, stable index knows, per type.\<close>

definition stable_ids :: "MasterIndex \<Rightarrow> BlobType \<Rightarrow> ID list" where
  "stable_ids mi t = type_ids (hd (mi_idx mi)) t"

definition stable_ok :: "MasterIndex \<Rightarrow> bool" where
  "stable_ok mi \<longleftrightarrow> mi_ok mi \<and> mi_idx mi \<noteq> [] \<and> (\<forall>t. t \<noteq> NumBlobTypes \<longrightarrow> length (stable_ids mi t) < 2 ^ 62)"

abbreviation valid_handle :: "BlobHandle \<Rightarrow> bool" where
  "valid_handle bh \<equiv> bh_Type bh \<noteq> NumBlobTypes"

definition pos_of :: "MasterIndex \<Rightarrow> BlobHandle \<Rightarrow> int" where
  "pos_of mi bh = id_pos (bh_ID bh) (stable_ids mi (bh_Type bh))"

lemma blobIndex_pos_of: "stable_ok mi \<Longrightarrow> valid_handle bh \<Longrightarrow> blobIndex mi bh = Inr (pos_of mi bh)"
  by (cases "mi_idx mi") (simp_all add: stable_ok_def mi_ok_def blobIndex_def BlobIndex_pos pos_of_def stable_ids_def)

lemma stableLen_ids:
  assumes "stable_ok mi" "t \<noteq> NumBlobTypes"
  shows "\<exists>n. stableLen mi t = Inr n \<and> unat (n + 1) = Suc (length (stable_ids mi t))"
proof -
  obtain idx0 idxs where i: "mi_idx mi = idx0 # idxs" using assms(1) by (cases "mi_idx mi") (auto simp: stable_ok_def)
  then have l: "length (type_blobs idx0 t) < 2 ^ 62" "index_inv idx0" using assms by (auto simp: stable_ok_def stable_ids_def mi_ok_def)
  let ?n = "m_numentries (type_map idx0 t)"
  have "unat ?n = length (type_blobs idx0 t)"
    using length_map_contents [OF index_invD(2) [OF l(2) assms(2)]] by (simp add: type_blobs_def)
  then have "unat (?n + 1) = Suc (length (type_blobs idx0 t))" using l(1) by (intro trans [OF unat_word_inc]) auto
  then show ?thesis using i
    by (simp add: stableLen_def stable_ids_def index_Len_def index_invD(1) [OF l(2) assms(2)] indexMap_len_def)
qed

lemma pos_mem: "pos_of mi bh \<noteq> -1 \<longleftrightarrow> bh_ID bh \<in> set (stable_ids mi (bh_Type bh))"
  by (auto simp: pos_of_def id_pos_def)

lemma pos_bounds: "pos_of mi bh \<noteq> -1 \<Longrightarrow> 1 \<le> pos_of mi bh \<and> pos_of mi bh \<le> int (length (stable_ids mi (bh_Type bh)))"
  using id_pos_bounds unfolding pos_mem by (simp add: pos_of_def)

lemma pos_inj: "pos_of mi bh \<noteq> -1 \<Longrightarrow> pos_of mi bh' = pos_of mi bh \<Longrightarrow> bh_Type bh' = bh_Type bh \<Longrightarrow> bh' = bh"
proof -
  assume a: "pos_of mi bh \<noteq> -1" "pos_of mi bh' = pos_of mi bh" "bh_Type bh' = bh_Type bh"
  then have "bh_ID bh \<in> set (stable_ids mi (bh_Type bh))" "bh_ID bh' \<in> set (stable_ids mi (bh_Type bh'))"
    unfolding pos_mem [symmetric] by simp_all
  then have "bh_ID bh' = bh_ID bh" using a(2,3) by (auto simp: pos_of_def intro: id_pos_inj)
  then show ?thesis using a(3) by simp
qed

lemma id_pos_new: "x \<notin> set xs \<Longrightarrow> prefix xs ys \<Longrightarrow> id_pos x ys = -1 \<or> int (length xs) < id_pos x ys"
proof -
  assume x: "x \<notin> set xs" "prefix xs ys"
  then obtain zs where ys: "ys = xs @ zs" by (auto simp: prefix_def)
  have "takeWhile (\<lambda>y. y \<noteq> x) (xs @ zs) = xs @ takeWhile (\<lambda>y. y \<noteq> x) zs" using x(1) by (intro takeWhile_append2) auto
  then show ?thesis by (simp add: id_pos_def ys)
qed

section \<open>The map a set stands for\<close>

abbreviation sub_of :: "'a AssociatedSet \<Rightarrow> BlobType \<Rightarrow> 'a associatedSetSub" where
  "sub_of a t \<equiv> as_byType a ! blob_type_num t"

text \<open>\<open>dense mi a bh\<close>: the blob has a place in the arrays.\<close>

definition dense :: "MasterIndex \<Rightarrow> 'a AssociatedSet \<Rightarrow> BlobHandle \<Rightarrow> bool" where
  "dense mi a bh \<longleftrightarrow> valid_handle bh \<and> pos_of mi bh \<noteq> -1 \<and> pos_of mi bh < int (length (sub_value (sub_of a (bh_Type bh))))"

definition as_view :: "MasterIndex \<Rightarrow> 'a AssociatedSet \<Rightarrow> BlobHandle \<rightharpoonup> 'a" where
  "as_view mi a bh = (case map_of (as_overflow a) bh of Some v \<Rightarrow> Some v
     | None \<Rightarrow> if dense mi a bh \<and> sub_isSet (sub_of a (bh_Type bh)) ! nat (pos_of mi bh)
         then Some (sub_value (sub_of a (bh_Type bh)) ! nat (pos_of mi bh)) else None)"

definition as_inv :: "MasterIndex \<Rightarrow> 'a AssociatedSet \<Rightarrow> bool" where
  "as_inv mi a \<longleftrightarrow> stable_ok mi \<and> length (as_byType a) = 3
     \<and> (\<forall>t. t \<noteq> NumBlobTypes \<longrightarrow> length (sub_isSet (sub_of a t)) = length (sub_value (sub_of a t))
          \<and> length (sub_value (sub_of a t)) \<le> Suc (length (stable_ids mi t)))
     \<and> distinct (map fst (as_overflow a)) \<and> (\<forall>bh \<in> fst ` set (as_overflow a). valid_handle bh \<and> \<not> dense mi a bh)"

lemma as_inv_sub:
  assumes "as_inv mi a" "valid_handle bh"
  shows "slice_get (as_byType a) (blob_type_num (bh_Type bh)) = Inr (sub_of a (bh_Type bh))"
    "blobIndex mi bh = Inr (pos_of mi bh)" "length (sub_isSet (sub_of a (bh_Type bh))) = length (sub_value (sub_of a (bh_Type bh)))"
    "blob_type_num (bh_Type bh) < length (as_byType a)"
  using assms blob_type_num_lt [of "bh_Type bh"] blobIndex_pos_of [of mi bh] by (auto simp: as_inv_def)

lemma dense_nat: "dense mi a bh \<Longrightarrow> 0 \<le> pos_of mi bh \<and> nat (pos_of mi bh) < length (sub_value (sub_of a (bh_Type bh)))"
  using pos_bounds [of mi bh] by (auto simp: dense_def)

lemma dense_cases:
  "valid_handle bh \<Longrightarrow> (pos_of mi bh \<ge> int (length (sub_value (sub_of a (bh_Type bh)))) \<or> pos_of mi bh = -1) \<longleftrightarrow> \<not> dense mi a bh"
  by (auto simp: dense_def)

lemma NewAssociatedSet_empty:
  assumes "stable_ok mi"
  shows "\<exists>a. NewAssociatedSet zero mi = Inr a \<and> as_inv mi a \<and> as_view mi a = Map.empty"
proof -
  obtain n1 n2 where n: "stableLen mi DataBlob = Inr n1" "unat (n1 + 1) = Suc (length (stable_ids mi DataBlob))"
    "stableLen mi TreeBlob = Inr n2" "unat (n2 + 1) = Suc (length (stable_ids mi TreeBlob))"
    using stableLen_ids [OF assms, of DataBlob] stableLen_ids [OF assms, of TreeBlob] by auto
  let ?sub = "\<lambda>k. \<lparr>sub_value = replicate k zero, sub_isSet = replicate k False\<rparr>"
  let ?a = "\<lparr>as_byType = [\<lparr>sub_value = [], sub_isSet = []\<rparr>, ?sub (Suc (length (stable_ids mi DataBlob))),
      ?sub (Suc (length (stable_ids mi TreeBlob)))], as_overflow = []\<rparr>"
  have new: "NewAssociatedSet zero mi = Inr ?a" by (simp add: NewAssociatedSet_def n Let_def)
  have t: "t = InvalidBlob \<or> t = DataBlob \<or> t = TreeBlob" if "t \<noteq> NumBlobTypes" for t using that by (cases t) auto
  have inv: "as_inv mi ?a" unfolding as_inv_def using assms by (auto dest!: t simp: blob_type_num_def)
  have "as_view mi ?a bh = None" for bh
  proof (cases "dense mi ?a bh")
    case True
    have "bh_Type bh \<noteq> NumBlobTypes" using True by (simp add: dense_def)
    then show ?thesis using dense_nat [OF True]
      by (cases "bh_Type bh") (simp_all add: as_view_def blob_type_num_def nth_replicate del: replicate_Suc)
  qed (simp add: as_view_def)
  then show ?thesis using new inv by blast
qed

lemma as_Get_view:
  assumes "as_inv mi a" "valid_handle bh"
  shows "as_Get zero mi a bh = Inr (case as_view mi a bh of None \<Rightarrow> (zero, False) | Some v \<Rightarrow> (v, True))"
proof (cases "map_of (as_overflow a) bh")
  case None
  note s = as_inv_sub [OF assms]
  show ?thesis
  proof (cases "dense mi a bh")
    case True
    then show ?thesis using None s dense_nat [OF True] dense_cases [OF assms(2), of a mi] by (simp add: as_Get_def as_view_def)
  next
    case False
    then show ?thesis using None s dense_cases [OF assms(2), of a mi] by (simp add: as_Get_def as_view_def)
  qed
qed (simp add: as_Get_def as_view_def)

text \<open>Overflow entries: adding one for a blob without a place, or removing one.\<close>

lemma as_overflow_update:
  assumes "as_inv mi a" "valid_handle bh" "\<not> dense mi a bh"
  shows "as_inv mi (a\<lparr>as_overflow := AList.update bh v (as_overflow a)\<rparr>)"
    "as_view mi (a\<lparr>as_overflow := AList.update bh v (as_overflow a)\<rparr>) = (as_view mi a)(bh \<mapsto> v)"
proof -
  have d: "dense mi (a\<lparr>as_overflow := x\<rparr>) = dense mi a" for x by (simp add: dense_def fun_eq_iff)
  show "as_inv mi (a\<lparr>as_overflow := AList.update bh v (as_overflow a)\<rparr>)"
    using assms by (auto simp: as_inv_def d dom_update distinct_update)
  show "as_view mi (a\<lparr>as_overflow := AList.update bh v (as_overflow a)\<rparr>) = (as_view mi a)(bh \<mapsto> v)"
    by (auto simp: as_view_def d update_conv' fun_eq_iff split: option.split)
qed

text \<open>Array entries: any change at the place of one blob.\<close>

lemma as_dense_update:
  assumes "as_inv mi a" "dense mi a bh" "map_of (as_overflow a) bh = None" "length vs = length (sub_value (sub_of a (bh_Type bh)))"
    "\<forall>j. j \<noteq> nat (pos_of mi bh) \<longrightarrow> vs ! j = sub_value (sub_of a (bh_Type bh)) ! j"
    and a': "a' = a\<lparr>as_byType := (as_byType a)[blob_type_num (bh_Type bh) := \<lparr>sub_value = vs,
        sub_isSet = (sub_isSet (sub_of a (bh_Type bh)))[nat (pos_of mi bh) := b]\<rparr>]\<rparr>"
  shows "as_inv mi a'" "as_view mi a' = (as_view mi a)(bh := if b then Some (vs ! nat (pos_of mi bh)) else None)"
proof -
  have v: "valid_handle bh" using assms(2) by (simp add: dense_def)
  note s = as_inv_sub [OF assms(1) v]
  have sub: "sub_of a' t = (if t = bh_Type bh then \<lparr>sub_value = vs,
      sub_isSet = (sub_isSet (sub_of a (bh_Type bh)))[nat (pos_of mi bh) := b]\<rparr> else sub_of a t)" if "t \<noteq> NumBlobTypes" for t
    using that v s(4) blob_type_num_inj [of t "bh_Type bh"] by (auto simp: a' nth_list_update)
  have d: "dense mi a' bh' = dense mi a bh'" for bh' using sub [of "bh_Type bh'"] assms(4) by (auto simp: dense_def split: if_splits)
  have o: "length (as_byType a') = length (as_byType a)" "as_overflow a' = as_overflow a" by (simp_all add: a')
  show "as_inv mi a'" using assms(1,4) by (auto simp: as_inv_def sub d o)
  show "as_view mi a' = (as_view mi a)(bh := if b then Some (vs ! nat (pos_of mi bh)) else None)"
  proof
    fix bh'
    show "as_view mi a' bh' = ((as_view mi a)(bh := if b then Some (vs ! nat (pos_of mi bh)) else None)) bh'"
    proof (cases "dense mi a bh' \<and> bh_Type bh' = bh_Type bh")
      case True
      have n: "nat (pos_of mi bh) < length (sub_isSet (sub_of a (bh_Type bh)))" using dense_nat [OF assms(2)] s(3) by simp
      have "bh' = bh \<or> nat (pos_of mi bh) \<noteq> nat (pos_of mi bh')"
        using pos_inj [of mi bh bh'] True dense_nat [of mi a bh'] dense_nat [OF assms(2)] assms(2)
        by (auto simp: dense_def eq_nat_nat_iff)
      then consider "bh' = bh" | "bh' \<noteq> bh" "nat (pos_of mi bh) \<noteq> nat (pos_of mi bh')" by blast
      then show ?thesis
      proof cases
        case 1
        then show ?thesis using assms(2,3) n sub [of "bh_Type bh"] v by (simp add: as_view_def d o)
      next
        case 2
        then show ?thesis using True assms(4,5) sub [of "bh_Type bh"] v by (simp add: as_view_def d o split: option.split)
      qed
    next
      case False
      then have "bh' \<noteq> bh" using assms(2) by auto
      then show ?thesis using False sub [of "bh_Type bh'"] by (auto simp: as_view_def d o dense_def assms(4) split: option.split)
    qed
  qed
qed

lemma as_Set_view:
  assumes "as_inv mi a" "valid_handle bh"
  shows "\<exists>a'. as_Set mi a bh v = Inr a' \<and> as_inv mi a' \<and> as_view mi a' = (as_view mi a)(bh \<mapsto> v)"
proof (cases "dense mi a bh")
  case True
  note s = as_inv_sub [OF assms]
  have o: "map_of (as_overflow a) bh = None" using assms(1) True by (auto simp: as_inv_def map_of_eq_None_iff)
  let ?vs = "(sub_value (sub_of a (bh_Type bh)))[nat (pos_of mi bh) := v]"
  have "as_Set mi a bh v = Inr (a\<lparr>as_byType := (as_byType a)[blob_type_num (bh_Type bh) := \<lparr>sub_value = ?vs,
      sub_isSet = (sub_isSet (sub_of a (bh_Type bh)))[nat (pos_of mi bh) := True]\<rparr>]\<rparr>)"
    using True o s dense_nat [OF True] dense_cases [OF assms(2), of a mi] by (simp add: as_Set_def Let_def)
  moreover have "?vs ! nat (pos_of mi bh) = v" using dense_nat [OF True] by simp
  ultimately show ?thesis using as_dense_update [OF assms(1) True o, of ?vs, OF _ _ refl] by auto
next
  case False
  note s = as_inv_sub [OF assms]
  have "as_Set mi a bh v = Inr (a\<lparr>as_overflow := AList.update bh v (as_overflow a)\<rparr>)"
    using False s dense_cases [OF assms(2), of a mi] by (auto simp: as_Set_def Let_def)
  then show ?thesis using as_overflow_update [OF assms False] by auto
qed

lemma as_Delete_view:
  assumes "as_inv mi a" "valid_handle bh"
  shows "\<exists>a'. as_Delete mi a bh = Inr a' \<and> as_inv mi a' \<and> as_view mi a' = (as_view mi a)(bh := None)"
proof (cases "map_of (as_overflow a) bh")
  case None
  note s = as_inv_sub [OF assms]
  let ?bt = "sub_of a (bh_Type bh)"
  show ?thesis
  proof (cases "dense mi a bh")
    case True
    have e: "bt\<lparr>sub_isSet := x\<rparr> = \<lparr>sub_value = sub_value bt, sub_isSet = x\<rparr>" for x and bt :: "'a associatedSetSub" by simp
    have "as_Delete mi a bh = Inr (a\<lparr>as_byType := (as_byType a)[blob_type_num (bh_Type bh) := \<lparr>sub_value = sub_value ?bt,
        sub_isSet = (sub_isSet ?bt)[nat (pos_of mi bh) := False]\<rparr>]\<rparr>)"
      using True None s dense_nat [OF True] dense_cases [OF assms(2), of a mi] by (simp add: as_Delete_def Let_def e)
    then show ?thesis using as_dense_update [OF assms(1) True None, of "sub_value ?bt", OF _ _ refl] by auto
  next
    case False
    have "as_Delete mi a bh = Inr a" using False None s dense_cases [OF assms(2), of a mi] by (auto simp: as_Delete_def Let_def)
    moreover have "as_view mi a = (as_view mi a)(bh := None)" using None False by (auto simp: as_view_def fun_eq_iff)
    ultimately show ?thesis using assms(1) by auto
  qed
next
  case (Some v)
  have nd: "\<not> dense mi a bh" using assms(1) Some map_of_SomeD [OF Some] by (force simp: as_inv_def)
  let ?a = "a\<lparr>as_overflow := AList.delete bh (as_overflow a)\<rparr>"
  have d: "dense mi ?a = dense mi a" by (simp add: dense_def fun_eq_iff)
  have "set (map fst (AList.delete bh (as_overflow a))) \<subseteq> set (map fst (as_overflow a))" unfolding delete_keys by auto
  then have k: "fst ` set (AList.delete bh (as_overflow a)) \<subseteq> fst ` set (as_overflow a)" by simp
  have "\<forall>bh \<in> fst ` set (AList.delete bh (as_overflow a)). valid_handle bh \<and> \<not> dense mi a bh"
    using assms(1) k unfolding as_inv_def by blast
  then have "as_inv mi ?a" using assms(1) by (auto simp: as_inv_def d distinct_delete)
  moreover have "as_view mi ?a = (as_view mi a)(bh := None)" using nd by (auto simp: as_view_def d delete_conv' fun_eq_iff split: option.split)
  ultimately show ?thesis using Some by (simp add: as_Delete_def)
qed

interpretation as_map: value_map "as_inv mi" valid_handle "as_view mi" "as_Get zero mi" "as_Set mi" for mi zero
  by unfold_locales (simp_all add: as_Get_view as_Set_view)

section \<open>Iteration and set operations\<close>

lemma mi_blobs_valid: "pb \<in> set (mi_blobs mi) \<Longrightarrow> valid_handle (pb_Handle pb)"
  by (auto simp: mi_blobs_def set_index_blobs pb_Handle_def dest: type_blobs_type)

text \<open>A blob with a place is an entry of the master index.\<close>

lemma dense_in_blobs:
  assumes "as_inv mi a" "dense mi a bh"
  shows "bh \<in> pb_Handle ` set (mi_blobs mi)"
proof -
  obtain idx0 idxs where i: "mi_idx mi = idx0 # idxs" using assms(1) by (cases "mi_idx mi") (auto simp: as_inv_def stable_ok_def)
  from assms(2) have v: "valid_handle bh" "bh_ID bh \<in> set (stable_ids mi (bh_Type bh))" by (auto simp: dense_def pos_mem)
  then obtain pb where pb: "pb \<in> set (type_blobs idx0 (bh_Type bh))" "bh_ID bh = pb_ID pb" using i by (auto simp: stable_ids_def)
  have "pb_Handle pb = bh" using pb(2) type_blobs_type [OF pb(1)] by (simp add: pb_Handle_def)
  moreover have "pb \<in> set (mi_blobs mi)" using pb(1) v(1) i by (auto simp: mi_blobs_def set_index_blobs)
  ultimately show ?thesis by blast
qed

lemma as_view_cases:
  assumes "as_inv mi a"
  shows "as_view mi a k = Some v \<longleftrightarrow> (k, v) \<in> set (as_overflow a)
    \<or> map_of (as_overflow a) k = None \<and> as_view mi a k = Some v \<and> k \<in> pb_Handle ` set (mi_blobs mi)"
proof (cases "map_of (as_overflow a) k")
  case None
  then have "(k, v) \<notin> set (as_overflow a)" by (force simp: map_of_eq_None_iff)
  moreover have "k \<in> pb_Handle ` set (mi_blobs mi)" if "as_view mi a k = Some v"
    using that None dense_in_blobs [OF assms, of k] by (auto simp: as_view_def split: if_splits)
  ultimately show ?thesis using None by blast
next
  case (Some w)
  have "distinct (map fst (as_overflow a))" using assms by (simp add: as_inv_def)
  then have "(k, v) \<in> set (as_overflow a) \<longleftrightarrow> w = v" using map_of_eq_Some_iff [of "as_overflow a" k v] Some by simp
  then show ?thesis using Some by (simp add: as_view_def)
qed

lemma as_All_view:
  assumes "as_inv mi a"
  shows "\<exists>kvs. as_All zero mi a = Inr kvs \<and> set kvs = {(k, v). as_view mi a k = Some v}"
proof -
  let ?g = "\<lambda>pb. if map_of (as_overflow a) (pb_Handle pb) \<noteq> None then []
      else case as_view mi a (pb_Handle pb) of None \<Rightarrow> [] | Some v \<Rightarrow> [(pb_Handle pb, v)]"
  have mi: "mi_ok mi" using assms by (simp add: as_inv_def stable_ok_def)
  have "as_All zero mi a = Inr (as_overflow a @ concat (map ?g (mi_blobs mi)))"
    unfolding as_All_def mi_Values_blobs [OF mi] rbind_simps
    by (subst mapM_Inr [of _ _ ?g])
      (auto simp: Let_def as_Get_view [OF assms mi_blobs_valid] split: option.split)
  moreover have "set (as_overflow a @ concat (map ?g (mi_blobs mi))) = {(k, v). as_view mi a k = Some v}"
  proof (intro set_eqI, clarify)
    fix k v
    have "(k, v) \<in> set (concat (map ?g (mi_blobs mi)))
        \<longleftrightarrow> map_of (as_overflow a) k = None \<and> as_view mi a k = Some v \<and> k \<in> pb_Handle ` set (mi_blobs mi)"
      by (force split: option.splits if_splits)
    then show "(k, v) \<in> set (as_overflow a @ concat (map ?g (mi_blobs mi))) \<longleftrightarrow> (k, v) \<in> {(k, v). as_view mi a k = Some v}"
      using as_view_cases [OF assms, of k v] by auto
  qed
  ultimately show ?thesis by blast
qed

lemma as_view_valid: "as_inv mi a \<Longrightarrow> as_view mi a k = Some v \<Longrightarrow> valid_handle k"
  using as_view_cases [of mi a k v] mi_blobs_valid by (force simp: as_inv_def)

lemma as_Keys_view:
  assumes "as_inv mi a"
  shows "\<exists>ks. as_Keys zero mi a = Inr ks \<and> set ks = dom (as_view mi a)"
proof -
  obtain kvs where k: "as_All zero mi a = Inr kvs" "set kvs = {(k, v). as_view mi a k = Some v}" using as_All_view [OF assms] by blast
  then have "set (map fst kvs) = dom (as_view mi a)" by (force simp: dom_def)
  then show ?thesis using k(1) by (simp add: as_Keys_def)
qed

text \<open>\<^verbatim>\<open>Intersect\<close> and \<^verbatim>\<open>Sub\<close> are the same copy with opposite selections.\<close>

lemma as_select_view:
  assumes "as_inv mi a"
  shows "\<exists>r. rbind (NewAssociatedSet zero mi) (\<lambda>r. rbind (as_Keys zero mi a)
      (foldM (\<lambda>r bh. if sel bh then rbind (as_Get zero mi a bh) (\<lambda>(val, _). as_Set mi r bh val) else Inr r) r)) = Inr r
    \<and> as_inv mi r \<and> as_view mi r = as_view mi a |` {k. sel k}"
proof -
  have st: "stable_ok mi" using assms by (simp add: as_inv_def)
  obtain r where r: "NewAssociatedSet zero mi = Inr r" "as_inv mi r" "as_view mi r = Map.empty"
    using NewAssociatedSet_empty [OF st, of zero] by (elim exE conjE) (rule that)
  obtain ks where ks: "as_Keys zero mi a = Inr ks" "set ks = dom (as_view mi a)" using as_Keys_view [OF assms] by blast
  have "\<forall>k \<in> set ks. valid_handle k \<and> as_view mi a k \<noteq> None" using ks(2) as_view_valid [OF assms] by blast
  from as_map.copy_selected [OF assms r(2) this, of sel zero] obtain r' where r':
    "foldM (\<lambda>r bh. if sel bh then rbind (as_Get zero mi a bh) (\<lambda>(val, _). as_Set mi r bh val) else Inr r) r ks = Inr r'"
    "as_inv mi r'" "as_view mi r' = (\<lambda>k. if k \<in> set ks \<and> sel k then as_view mi a k else as_view mi r k)" by (elim exE conjE) (rule that)
  from r'(3) have "as_view mi r' = as_view mi a |` {k. sel k}"
    using ks(2) r(3) by (auto simp: fun_eq_iff restrict_map_def)
  then show ?thesis using r(1) ks(1) r'(1,2) by simp
qed

section \<open>Growth of the master index\<close>

definition grows :: "MasterIndex \<Rightarrow> MasterIndex \<Rightarrow> bool" where
  "grows mi mi' \<longleftrightarrow> stable_ok mi' \<and> (\<forall>t. t \<noteq> NumBlobTypes \<longrightarrow> prefix (stable_ids mi t) (stable_ids mi' t))"

text \<open>Blobs that had a place keep it; no other blob gets one.\<close>

lemma grows_pos:
  assumes "as_inv mi a" "grows mi mi'"
  shows "dense mi' a bh = dense mi a bh" "dense mi a bh \<Longrightarrow> pos_of mi' bh = pos_of mi bh"
proof -
  have p: "prefix (stable_ids mi (bh_Type bh)) (stable_ids mi' (bh_Type bh))" if "valid_handle bh"
    using assms(2) that by (simp add: grows_def)
  have known: "pos_of mi' bh = pos_of mi bh" if "valid_handle bh" "pos_of mi bh \<noteq> -1"
    using id_pos_prefix [OF _ p] that unfolding pos_mem by (simp add: pos_of_def)
  then show "dense mi a bh \<Longrightarrow> pos_of mi' bh = pos_of mi bh" by (simp add: dense_def)
  have "\<not> dense mi' a bh" if n: "valid_handle bh" "pos_of mi bh = -1"
  proof -
    have "bh_ID bh \<notin> set (stable_ids mi (bh_Type bh))" using n(2) pos_mem [of mi bh] by simp
    from id_pos_new [OF this p [OF n(1)]] have "pos_of mi' bh = -1 \<or> int (length (stable_ids mi (bh_Type bh))) < pos_of mi' bh"
      by (simp add: pos_of_def)
    moreover have "length (sub_value (sub_of a (bh_Type bh))) \<le> Suc (length (stable_ids mi (bh_Type bh)))"
      using assms(1) n(1) by (simp add: as_inv_def)
    ultimately show ?thesis by (auto simp: dense_def)
  qed
  then show "dense mi' a bh = dense mi a bh" using known by (cases "pos_of mi bh = -1") (auto simp: dense_def)
qed

lemma grows_view:
  assumes "as_inv mi a" "grows mi mi'"
  shows "as_inv mi' a" "as_view mi' a = as_view mi a"
proof -
  have l: "length (stable_ids mi t) \<le> length (stable_ids mi' t)" if "t \<noteq> NumBlobTypes" for t
    using assms(2) that by (simp add: grows_def prefix_length_le)
  have "length (sub_value (sub_of a t)) \<le> Suc (length (stable_ids mi' t))" if "t \<noteq> NumBlobTypes" for t
    using assms(1) l [OF that] that by (fastforce simp: as_inv_def)
  then show "as_inv mi' a" using assms grows_pos(1) [OF assms] by (simp add: as_inv_def grows_def)
  show "as_view mi' a = as_view mi a" using grows_pos [OF assms] by (auto simp: as_view_def fun_eq_iff split: option.split)
qed

lemma MergeFinalIndexes_grows:
  assumes "mi_ok mi" "mi_idx mi \<noteq> []" "merge_room (mi_idx mi)"
  shows "\<exists>mi'. MergeFinalIndexes mi = Inr mi' \<and> grows mi mi'"
proof -
  obtain idx0 idxs where i: "mi_idx mi = idx0 # idxs" using assms(2) by (cases "mi_idx mi") auto
  obtain idx0' where m: "MergeFinalIndexes mi = Inr (mi\<lparr>mi_idx := idx0' # filter (\<lambda>idx. \<not> mergeable idx) idxs\<rparr>)"
    "merged_into idx0 (filter mergeable idxs) idx0'" using MergeFinalIndexes_merged [OF i assms(1,3)] by blast
  have "length (type_blobs idx0' t) < 2 ^ 62" if t: "t \<noteq> NumBlobTypes" for t
  proof -
    have "length (type_blobs idx0' t) \<le> sum_list (map (\<lambda>idx. length (type_blobs idx t)) (mi_idx mi))"
      using m(2) t i sum_list_filter_le_nat [of "\<lambda>idx. length (type_blobs idx t)" mergeable idxs]
      by (fastforce simp: merged_into_def)
    also have "\<dots> < 2 ^ 62" using assms(3) t by (auto simp: merge_room_def intro: order_le_less_trans)
    finally show ?thesis .
  qed
  then show ?thesis using m merged_into_ids [OF m(2)] assms(1) i
    by (auto simp: grows_def stable_ok_def stable_ids_def mi_ok_def merged_into_def)
qed

section \<open>Main results\<close>

lemma sample_master_stable: "stable_ok sample_master" "merge_room (mi_idx sample_master)"
  by (simp_all add: stable_ok_def stable_ids_def merge_room_def sample_master_ok Finalize_def sample_index_ok)

text \<open>C32: A set of blobs behaves as the finite map from blobs to values it stands for, whichever of its blobs
  the master index knows: a new set is empty, \<^verbatim>\<open>Get\<close>, \<^verbatim>\<open>Set\<close> and \<^verbatim>\<open>Delete\<close> read and
  change exactly the one blob, no operation panics, iteration yields exactly the members, and \<^verbatim>\<open>Intersect\<close> and \<^verbatim>\<open>Sub\<close>
  keep the members in and outside the other set with their values.\<close>

theorem AssociatedSet_refines_map:
  assumes "as_inv mi a" and "valid_handle bh"
  shows "(\<exists>r. NewAssociatedSet zero mi = Inr r \<and> as_inv mi r \<and> as_view mi r = Map.empty)
    \<and> as_Get zero mi a bh = Inr (case as_view mi a bh of None \<Rightarrow> (zero, False) | Some v \<Rightarrow> (v, True))
    \<and> (\<exists>a'. as_Set mi a bh v = Inr a' \<and> as_inv mi a' \<and> as_view mi a' = (as_view mi a)(bh \<mapsto> v))
    \<and> (\<exists>a'. as_Delete mi a bh = Inr a' \<and> as_inv mi a' \<and> as_view mi a' = (as_view mi a)(bh := None))
    \<and> (\<exists>kvs. as_All zero mi a = Inr kvs \<and> set kvs = {(k, v). as_view mi a k = Some v})
    \<and> (\<exists>r. as_Intersect zero mi a has = Inr r \<and> as_inv mi r \<and> as_view mi r = as_view mi a |` {k. has k})
    \<and> (\<exists>r. as_Sub zero mi a has = Inr r \<and> as_inv mi r \<and> as_view mi r = as_view mi a |` {k. \<not> has k})"
proof -
  have st: "stable_ok mi" using assms(1) by (simp add: as_inv_def)
  show ?thesis unfolding as_Intersect_def as_Sub_def
    by (intro conjI NewAssociatedSet_empty [OF st] as_Get_view [OF assms] as_Set_view [OF assms] as_Delete_view [OF assms]
        as_All_view [OF assms(1)] as_select_view [OF assms(1)])
qed

theorem AssociatedSet_refines_map_witness:
  "\<exists>a. NewAssociatedSet (0 :: u8) sample_master = Inr a
    \<and> (\<exists>a'. as_Set sample_master a (b_Handle sample_blob) 7 = Inr a'
          \<and> as_view sample_master a' = (as_view sample_master a)(b_Handle sample_blob \<mapsto> 7))"
proof -
  obtain a where a: "NewAssociatedSet (0 :: u8) sample_master = Inr a" "as_inv sample_master a"
    using NewAssociatedSet_empty [OF sample_master_stable(1), of "0 :: u8"] by (elim exE conjE) (rule that)
  have "valid_handle (b_Handle sample_blob)" by (simp add: sample_blob_def)
  from AssociatedSet_refines_map [OF a(2) this, of 0 7] a(1) show ?thesis by blast
qed



end
