(* ===== verification/Schema_Keys.thy ===== *)
theory Schema_Keys
  imports Vaultic_Prelude "HOL-Library.List_Lexorder"
begin

text \<open>
  Keys of the records in the metadata database, \<^verbatim>\<open>internal/index/schema\<close>: the constructors of \<^verbatim>\<open>keys.go\<close> and
  \<^verbatim>\<open>keys_parse.go\<close>, one per kind of record, and \<^verbatim>\<open>ParseKey\<close> with the codecs of \<^verbatim>\<open>key_codecs.go\<close>.

  A nil slice is the empty list. Types declared as \<^verbatim>\<open>byte\<close> that a key stores are bytes with named constants, since a
  key may hold any byte; an \<^verbatim>\<open>int64\<close> is a word read by \<open>sint\<close>. \<^verbatim>\<open>ParseKey\<close> calls itself on the key inside a
  derived analytics key, so it runs on fuel, of which the length of the key is enough. SHA-256 is an argument.
\<close>

unbundle bit_operations_syntax

section \<open>Bytes\<close>

definition str :: "string \<Rightarrow> bytes" where
  "str s = map of_char s"

definition put_u16 :: "u16 \<Rightarrow> bytes" where
  "put_u16 v = be_bytes 2 (unat v)"

definition put_u32 :: "u32 \<Rightarrow> bytes" where
  "put_u32 v = be_bytes 4 (unat v)"

definition put_u64 :: "u64 \<Rightarrow> bytes" where
  "put_u64 v = be_bytes 8 (unat v)"

definition u16_be :: "bytes \<Rightarrow> u16" where
  "u16_be bs = of_nat (be_val bs)"

definition u32_be :: "bytes \<Rightarrow> u32" where
  "u32_be bs = of_nat (be_val bs)"

definition u64_be :: "bytes \<Rightarrow> u64" where
  "u64_be bs = of_nat (be_val bs)"

text \<open>\<open>bslice i j bs\<close> is \<^verbatim>\<open>bs[i:j]\<close>; the code slices only below a length it has checked.\<close>

definition bslice :: "nat \<Rightarrow> nat \<Rightarrow> bytes \<Rightarrow> bytes" where
  "bslice i j bs = take (j - i) (drop i bs)"

text \<open>The functions of \<^verbatim>\<open>strings\<close> the code uses. \<open>space_runes\<close> are the UTF-8 forms of the code points for which
  \<^verbatim>\<open>unicode.IsSpace\<close> holds; \<open>strip_runes\<close> removes them from the front.\<close>

definition space_runes :: "bytes list" where
  "space_runes = [[9], [10], [11], [12], [13], [32], [0xC2, 0x85], [0xC2, 0xA0], [0xE1, 0x9A, 0x80],
     [0xE2, 0x80, 0x80], [0xE2, 0x80, 0x81], [0xE2, 0x80, 0x82], [0xE2, 0x80, 0x83], [0xE2, 0x80, 0x84], [0xE2, 0x80, 0x85],
     [0xE2, 0x80, 0x86], [0xE2, 0x80, 0x87], [0xE2, 0x80, 0x88], [0xE2, 0x80, 0x89], [0xE2, 0x80, 0x8A],
     [0xE2, 0x80, 0xA8], [0xE2, 0x80, 0xA9], [0xE2, 0x80, 0xAF], [0xE2, 0x81, 0x9F], [0xE3, 0x80, 0x80]]"

function strip_runes :: "bytes list \<Rightarrow> bytes \<Rightarrow> bytes" where
  "strip_runes rs bs = (case find (\<lambda>r. r \<noteq> [] \<and> take (length r) bs = r) rs of None \<Rightarrow> bs
     | Some r \<Rightarrow> strip_runes rs (drop (length r) bs))"
  by auto
termination
proof (relation "measure (\<lambda>(_, bs). length bs)")
  fix rs :: "bytes list" and bs r
  assume "find (\<lambda>r. r \<noteq> [] \<and> take (length r) bs = r) rs = Some r"
  then have "r \<noteq> []" "take (length r) bs = r" by (auto simp: find_Some_iff)
  moreover from this have "bs \<noteq> []" by auto
  ultimately show "((rs, drop (length r) bs), rs, bs) \<in> measure (\<lambda>(_, bs). length bs)" by simp
qed simp

declare strip_runes.simps [simp del]

definition TrimSpace :: "bytes \<Rightarrow> bytes" where
  "TrimSpace s = rev (strip_runes (map rev space_runes) (rev (strip_runes space_runes s)))"

definition TrimPrefix :: "bytes \<Rightarrow> bytes \<Rightarrow> bytes" where
  "TrimPrefix s p = (if take (length p) s = p then drop (length p) s else s)"

definition Trim_slashes :: "bytes \<Rightarrow> bytes" where
  "Trim_slashes s = rev (dropWhile (\<lambda>b. b = 47) (rev (dropWhile (\<lambda>b. b = 47) s)))"

definition Contains :: "bytes \<Rightarrow> bytes \<Rightarrow> bool" where
  "Contains s p = list_ex (\<lambda>i. take (length p) (drop i s) = p) [0..<Suc (length s)]"

section \<open>Types\<close>

type_synonym i64 = "64 word"

definition MaxPathIndexPathBytes :: nat where
  "MaxPathIndexPathBytes = 4096"

definition ErrMalformed :: go_error where
  "ErrMalformed = Error ''malformed slatedb schema record''"

datatype KeyKind =
    KeyBlob | KeyPack | KeyPackAggregate | KeyCurrentInode | KeyInodeRevision | KeyCurrentDirectory
  | KeyDirectoryRevision | KeySnapshot | KeyContentManifest | KeyReverseManifest | KeyReverseInode
  | KeyReferenceCount | KeyGarbageCollection | KeyCrawlDebt | KeyImportCheckpoint | KeySnapshotImportCheckpoint
  | KeyNextRevision | KeyHardlinkRefs | KeyExportCheckpoint | KeyExportIndexCheckpoint | KeyNextExportSequence
  | KeyTierAggregate | KeyPackHistory | KeyPackHistoryBucket | KeyNextEventSequence | KeyHistoryRawFloor
  | KeyHistoryEnabledAt | KeyPackPlacement | KeyBackendPack | KeyPlacementDeleteQueue | KeySnapshotCommit
  | KeyPathVersion | KeyPlacementRequest | KeyRepackLineage | KeyPromotionEligibility | KeyAnalyticsFact
  | KeyAnalyticsCache | KeyAnalyticsMetadata | KeyAnalyticsBuildCheckpoint | KeyAnalyticsDictionary
  | KeyAnalyticsFactSegment | KeyAnalyticsSegmentMetadata | KeyAnalyticsDimensionIndex | KeyAnalyticsResidency
  | KeyAnalyticsDelta | KeyAnalyticsWatermark | KeyAnalyticsManifest | KeyAnalyticsQueryResult
  | KeyAnalyticsQueryHeat | KeyAnalyticsQueryView | KeyAnalyticsQueryJob | KeyGrowthTime | KeyGrowthPath
  | KeyUserSummary | KeyGroupSummary | KeyUserChurn | KeyUserInode | KeyUserBlob | KeyAuthoritativeCrawlProof
  | KeyAuthoritativeSourceBinding | KeyAnalyticsDerivedMarker | KeyUserBlobContribution | KeyUserStats
  | KeyGroupStats | KeyUIDExclusionPolicy | KeyDeletionCertificate | KeyVerificationState | KeyVerificationEvent
  | KeyLegacyImportReceipt

definition AnalyticsDictionarySVM :: u8 where [simp]: "AnalyticsDictionarySVM = 1"
definition AnalyticsDictionaryPathGroup :: u8 where [simp]: "AnalyticsDictionaryPathGroup = 3"
definition AnalyticsDimensionUID :: u8 where [simp]: "AnalyticsDimensionUID = 1"
definition AnalyticsDimensionResidency :: u8 where [simp]: "AnalyticsDimensionResidency = 13"
definition AnalyticsGranularityWeek :: u8 where [simp]: "AnalyticsGranularityWeek = 1"
definition AnalyticsGranularityYear :: u8 where [simp]: "AnalyticsGranularityYear = 3"
definition GranularityHourly :: u8 where [simp]: "GranularityHourly = 1"
definition GranularityMonthly :: u8 where [simp]: "GranularityMonthly = 3"
definition AggregateData :: u8 where [simp]: "AggregateData = 1"
definition AggregateTree :: u8 where [simp]: "AggregateTree = 2"
definition AggregateMixed :: u8 where [simp]: "AggregateMixed = 3"
definition AggregateUnknown :: u8 where [simp]: "AggregateUnknown = 4"
definition AggregateAll :: u8 where [simp]: "AggregateAll = 5"
definition GCBlob :: u8 where [simp]: "GCBlob = 1"
definition GCPack :: u8 where [simp]: "GCPack = 2"
definition PackData :: u8 where [simp]: "PackData = 1"
definition PackUnknown :: u8 where [simp]: "PackUnknown = 4"
definition TierUnknown :: u8 where [simp]: "TierUnknown = 1"
definition TierHot :: u8 where [simp]: "TierHot = 2"
definition TierCold :: u8 where [simp]: "TierCold = 3"
definition TierMirrored :: u8 where [simp]: "TierMirrored = 4"
definition TierSingle :: u8 where [simp]: "TierSingle = 5"
definition AnalyticsLive :: u8 where [simp]: "AnalyticsLive = 1"
definition AnalyticsExpired :: u8 where [simp]: "AnalyticsExpired = 5"

record ParsedKey =
  pk_Kind :: "KeyKind"
  pk_ID :: ID
  pk_SecondID :: ID
  pk_FSID :: u32
  pk_Inode :: u64
  pk_Revision :: u64
  pk_Segment :: u32
  pk_Aggregate :: u8
  pk_Tier :: u8
  pk_GCTarget :: u8
  pk_EventTime :: u64
  pk_Granularity :: u8
  pk_Backend :: u64
  pk_PackType :: u8
  pk_DeleteAfter :: i64
  pk_Path :: bytes
  pk_Generation :: u64
  pk_ViewGeneration :: u64
  pk_Commit :: u64
  pk_Ordinal :: u32
  pk_Dictionary :: u8
  pk_Dimension :: u8
  pk_Value :: u64
  pk_Epoch :: u64
  pk_UID :: u32
  pk_GID :: u32
  pk_Timestamp :: i64
  pk_Residency :: u8

text \<open>\<open>parsed k\<close> is \<^verbatim>\<open>ParsedKey{Kind: k}\<close>: every other field has its zero value.\<close>

definition parsed :: "KeyKind \<Rightarrow> ParsedKey" where
  "parsed k = \<lparr>pk_Kind = k, pk_ID = replicate 32 0, pk_SecondID = replicate 32 0, pk_FSID = 0, pk_Inode =
     0, pk_Revision = 0, pk_Segment = 0, pk_Aggregate = 0, pk_Tier = 0, pk_GCTarget = 0, pk_EventTime = 0,
     pk_Granularity = 0, pk_Backend = 0, pk_PackType = 0, pk_DeleteAfter = 0, pk_Path = [], pk_Generation = 0,
     pk_ViewGeneration = 0, pk_Commit = 0, pk_Ordinal = 0, pk_Dictionary = 0, pk_Dimension = 0, pk_Value = 0,
     pk_Epoch = 0, pk_UID = 0, pk_GID = 0, pk_Timestamp = 0, pk_Residency = 0\<rparr>"

section \<open>Constructors\<close>

definition idKey :: "string \<Rightarrow> ID \<Rightarrow> bytes" where
  "idKey prefix i = str prefix @ i"

definition inodeKey :: "string \<Rightarrow> u32 \<Rightarrow> u64 \<Rightarrow> bytes" where
  "inodeKey prefix fsid inode = str prefix @ put_u32 fsid @ put_u64 inode"

definition revisionKey :: "string \<Rightarrow> u32 \<Rightarrow> u64 \<Rightarrow> u64 \<Rightarrow> bytes" where
  "revisionKey prefix fsid inode revision = str prefix @ put_u32 fsid @ put_u64 inode @ put_u64 revision"

definition analyticsUint64Key :: "string \<Rightarrow> u64 \<Rightarrow> bytes" where
  "analyticsUint64Key prefix v = (if v = 0 then [] else str prefix @ put_u64 v)"

definition analyticsUint32Key :: "string \<Rightarrow> u32 \<Rightarrow> bytes" where
  "analyticsUint32Key prefix v = str prefix @ put_u32 v"

definition normalizeAnalyticsPath :: "bytes \<Rightarrow> bytes" where
  "normalizeAnalyticsPath path = (let path = TrimSpace path in
     if path = [] \<or> 0 \<in> set path then []
     else let path = str ''/'' @ Trim_slashes path in
       if path = str ''/'' \<or> Contains path (str ''//'') then [] else path)"

definition validAnalyticsDictionaryKind :: "u8 \<Rightarrow> bool" where
  "validAnalyticsDictionaryKind kind \<longleftrightarrow> AnalyticsDictionarySVM \<le> kind \<and> kind \<le> AnalyticsDictionaryPathGroup"

definition validAnalyticsDimension :: "u8 \<Rightarrow> bool" where
  "validAnalyticsDimension dimension \<longleftrightarrow> AnalyticsDimensionUID \<le> dimension \<and> dimension \<le> AnalyticsDimensionResidency"

definition validAnalyticsGranularity :: "u8 \<Rightarrow> bool" where
  "validAnalyticsGranularity granularity \<longleftrightarrow> AnalyticsGranularityWeek \<le> granularity \<and> granularity \<le> AnalyticsGranularityYear"

definition validHistoryGranularity :: "u8 \<Rightarrow> bool" where
  "validHistoryGranularity granularity \<longleftrightarrow> GranularityHourly \<le> granularity \<and> granularity \<le> GranularityMonthly"

definition validPackType :: "u8 \<Rightarrow> bool" where
  "validPackType v \<longleftrightarrow> PackData \<le> v \<and> v \<le> PackUnknown"

definition validPackTier :: "u8 \<Rightarrow> bool" where
  "validPackTier v \<longleftrightarrow> TierUnknown \<le> v \<and> v \<le> TierSingle"

definition BlobKey :: "ID \<Rightarrow> bytes" where
  "BlobKey i = idKey ''b:'' i"

definition PackKey :: "ID \<Rightarrow> bytes" where
  "PackKey i = idKey ''p:'' i"

definition SnapshotKey :: "ID \<Rightarrow> bytes" where
  "SnapshotKey i = idKey ''s:'' i"

definition ReferenceCountKey :: "ID \<Rightarrow> bytes" where
  "ReferenceCountKey i = idKey ''rc:'' i"

definition SnapshotCommitKey :: "u64 \<Rightarrow> ID \<Rightarrow> bytes" where
  "SnapshotCommitKey commitSequence snapshot = str ''sc:'' @ put_u64 commitSequence @ str '':'' @ snapshot"

definition SnapshotCommitPrefix :: "bytes" where
  "SnapshotCommitPrefix = str ''sc:''"

definition PathVersionKey :: "u32 \<Rightarrow> bytes \<Rightarrow> u64 \<Rightarrow> bytes" where
  "PathVersionKey fsid path revision = (let path = TrimPrefix path (str ''/'') in
     if path = [] \<or> length path > MaxPathIndexPathBytes \<or> 0 \<in> set path then []
     else str ''pv:'' @ put_u32 fsid @ path @ [0] @ put_u64 revision)"

definition PathVersionPrefix :: "u32 \<Rightarrow> bytes \<Rightarrow> bytes" where
  "PathVersionPrefix fsid path = (let path = TrimPrefix path (str ''/'') in
     if path = [] \<or> length path > MaxPathIndexPathBytes \<or> 0 \<in> set path then []
     else str ''pv:'' @ put_u32 fsid @ path @ [0])"

definition PathVersionSubtreePrefix :: "u32 \<Rightarrow> bytes \<Rightarrow> bytes" where
  "PathVersionSubtreePrefix fsid path = (let path = TrimPrefix path (str ''/'') in
     if path = [] \<or> length path \<ge> MaxPathIndexPathBytes \<or> 0 \<in> set path then []
     else str ''pv:'' @ put_u32 fsid @ path @ str ''/'')"

definition hex_digit :: "nat \<Rightarrow> u8" where
  "hex_digit n = (if n < 10 then 48 + of_nat n else 87 + of_nat n)"

definition hex_EncodeToString :: "bytes \<Rightarrow> bytes" where
  "hex_EncodeToString bs = concat (map (\<lambda>b. [hex_digit (unat b div 16), hex_digit (unat b mod 16)]) bs)"

definition PathOverflowKey :: "(bytes \<Rightarrow> bytes) \<Rightarrow> u32 \<Rightarrow> bytes \<Rightarrow> u64 \<Rightarrow> bytes" where
  "PathOverflowKey sha256 fsid path revision = 
     PathVersionKey fsid (str ''overflow/'' @ hex_EncodeToString (take 16 (sha256 path))) revision"

definition CurrentInodeKey :: "u32 \<Rightarrow> u64 \<Rightarrow> bytes" where
  "CurrentInodeKey fsid inode = inodeKey ''i:'' fsid inode"

definition CurrentDirectoryKey :: "u32 \<Rightarrow> u64 \<Rightarrow> bytes" where
  "CurrentDirectoryKey fsid inode = inodeKey ''d:'' fsid inode"

definition InodeRevisionKey :: "u32 \<Rightarrow> u64 \<Rightarrow> u64 \<Rightarrow> bytes" where
  "InodeRevisionKey fsid inode revision = revisionKey ''iv:'' fsid inode revision"

definition InodeRevisionPrefix :: "u32 \<Rightarrow> u64 \<Rightarrow> bytes" where
  "InodeRevisionPrefix fsid inode = str ''iv:'' @ put_u32 fsid @ put_u64 inode"

definition DirectoryRevisionKey :: "u32 \<Rightarrow> u64 \<Rightarrow> u64 \<Rightarrow> bytes" where
  "DirectoryRevisionKey fsid inode revision = revisionKey ''dv:'' fsid inode revision"

definition HardlinkRefsKey :: "u32 \<Rightarrow> u64 \<Rightarrow> u64 \<Rightarrow> bytes" where
  "HardlinkRefsKey fsid inode revision = revisionKey ''hr:'' fsid inode revision"

definition ContentManifestKey :: "ID \<Rightarrow> u32 \<Rightarrow> bytes" where
  "ContentManifestKey i segment = str ''cm:'' @ i @ put_u32 segment"

definition ReverseManifestKey :: "ID \<Rightarrow> ID \<Rightarrow> bytes" where
  "ReverseManifestKey blob manifest = str ''rm:'' @ blob @ manifest"

definition ReverseInodeKey :: "ID \<Rightarrow> u32 \<Rightarrow> u64 \<Rightarrow> bytes" where
  "ReverseInodeKey blob fsid inode = str ''ri:'' @ blob @ put_u32 fsid @ put_u64 inode"

definition GarbageCollectionKey :: "u8 \<Rightarrow> ID \<Rightarrow> bytes" where
  "GarbageCollectionKey target i = (if target = GCBlob then idKey ''gc:b:'' i
     else if target = GCPack then idKey ''gc:p:'' i else [])"

definition CrawlDebtKey :: "ID \<Rightarrow> ID \<Rightarrow> bytes" where
  "CrawlDebtKey snapshot work = str ''q:'' @ snapshot @ work"

definition ImportCheckpointKey :: "ID \<Rightarrow> bytes" where
  "ImportCheckpointKey index = idKey ''meta:import-index:'' index"

definition SnapshotImportCheckpointKey :: "ID \<Rightarrow> bytes" where
  "SnapshotImportCheckpointKey snapshot = idKey ''meta:import-snapshot:'' snapshot"

definition LegacyImportReceiptKey :: "ID \<Rightarrow> u64 \<Rightarrow> bytes" where
  "LegacyImportReceiptKey session batch = str ''meta:import-receipt:'' @ session @ put_u64 batch"

definition LegacyImportReceiptPrefix :: "ID \<Rightarrow> bytes" where
  "LegacyImportReceiptPrefix session = str ''meta:import-receipt:'' @ session"

definition ExportCheckpointKey :: "ID \<Rightarrow> bytes" where
  "ExportCheckpointKey snapshot = idKey ''meta:export-snapshot:'' snapshot"

definition ExportIndexCheckpointKey :: "ID \<Rightarrow> bytes" where
  "ExportIndexCheckpointKey index = idKey ''meta:export-index:'' index"

definition aggregateNames :: "(u8 \<times> string) list" where
  "aggregateNames = [(AggregateData, ''data''), (AggregateTree, ''tree''), (AggregateMixed, ''mixed''),
     (AggregateUnknown, ''unknown''), (AggregateAll, ''all'')]"

definition PackAggregateKey :: "u8 \<Rightarrow> bytes" where
  "PackAggregateKey kind = str ''a:pack:'' @ (case map_of aggregateNames kind of None \<Rightarrow> [] | Some name \<Rightarrow> str name)"

definition tierAggregateNames :: "(u8 \<times> string) list" where
  "tierAggregateNames = [(TierUnknown, ''unknown''), (TierHot, ''hot''), (TierCold, ''cold''),
     (TierMirrored, ''mirrored''), (TierSingle, ''single'')]"

definition TierAggregateKey :: "u8 \<Rightarrow> bytes" where
  "TierAggregateKey tier = (case map_of tierAggregateNames tier of None \<Rightarrow> [] | Some name \<Rightarrow> str ''a:tier:'' @ str name)"

definition TierAggregateKinds :: "u8 list" where
  "TierAggregateKinds = [TierUnknown, TierHot, TierCold, TierMirrored, TierSingle]"

definition PackHistoryKey :: "u64 \<Rightarrow> u64 \<Rightarrow> ID \<Rightarrow> bytes" where
  "PackHistoryKey unixSeconds sequence pack = str ''ph:'' @ put_u64 unixSeconds @ put_u64 sequence @ pack"

definition PackHistoryTimePrefix :: "u64 \<Rightarrow> bytes" where
  "PackHistoryTimePrefix unixSeconds = str ''ph:'' @ put_u64 unixSeconds"

definition PackHistoryBucketKey :: "u8 \<Rightarrow> u64 \<Rightarrow> u64 \<Rightarrow> u8 \<Rightarrow> bytes" where
  "PackHistoryBucketKey granularity bucketStart backend packType = (if \<not> validHistoryGranularity granularity then []
     else str ''pb:'' @ [granularity] @ put_u64 bucketStart @ put_u64 backend @ [packType])"

definition PackHistoryBucketPrefix :: "u8 \<Rightarrow> bytes" where
  "PackHistoryBucketPrefix granularity = str ''pb:'' @ [granularity]"

definition PackPlacementKey :: "ID \<Rightarrow> u64 \<Rightarrow> bytes" where
  "PackPlacementKey pack backend = str ''pl:'' @ pack @ str '':'' @ put_u64 backend"

definition PackPlacementPrefix :: "ID \<Rightarrow> bytes" where
  "PackPlacementPrefix pack = str ''pl:'' @ pack @ str '':''"

definition VerificationStateKey :: "ID \<Rightarrow> u64 \<Rightarrow> bytes" where
  "VerificationStateKey pack backend = str ''vr:'' @ pack @ put_u64 backend"

definition VerificationStatePrefix :: "bytes" where
  "VerificationStatePrefix = str ''vr:''"

definition VerificationEventKey :: "u64 \<Rightarrow> u64 \<Rightarrow> ID \<Rightarrow> u64 \<Rightarrow> bytes" where
  "VerificationEventKey unixSeconds sequence pack backend = str ''ve:'' @ put_u64 unixSeconds @ put_u64 sequence @ pack @ put_u64 backend"

definition VerificationEventPrefix :: "bytes" where
  "VerificationEventPrefix = str ''ve:''"

definition UIDExclusionPolicyKey :: "u32 \<Rightarrow> bytes" where
  "UIDExclusionPolicyKey uid = str ''u:policy:blocklist:'' @ put_u32 uid"

definition UIDExclusionPolicyPrefix :: "bytes" where
  "UIDExclusionPolicyPrefix = str ''u:policy:blocklist:''"

definition DeletionCertificateKey :: "u32 \<Rightarrow> u64 \<Rightarrow> ID \<Rightarrow> bytes" where
  "DeletionCertificateKey uid unixSeconds runID = str ''dc:'' @ put_u32 uid @ put_u64 unixSeconds @ runID"

definition DeletionCertificatePrefix :: "u32 \<Rightarrow> bytes" where
  "DeletionCertificatePrefix uid = str ''dc:'' @ put_u32 uid"

definition BackendPackKey :: "u64 \<Rightarrow> ID \<Rightarrow> bytes" where
  "BackendPackKey backend pack = str ''bp:'' @ put_u64 backend @ str '':'' @ pack"

definition BackendPackPrefix :: "u64 \<Rightarrow> bytes" where
  "BackendPackPrefix backend = str ''bp:'' @ put_u64 backend @ str '':''"

definition PlacementDeleteQueueKey :: "i64 \<Rightarrow> ID \<Rightarrow> u64 \<Rightarrow> bytes" where
  "PlacementDeleteQueueKey deleteAfter pack backend = str ''dq:'' @ put_u64 deleteAfter @ str '':'' @ pack @ str '':'' @ put_u64 backend"

definition PlacementDeleteQueuePrefix :: "i64 \<Rightarrow> bytes" where
  "PlacementDeleteQueuePrefix before = str ''dq:'' @ put_u64 before"

definition PlacementRequestKey :: "u64 \<Rightarrow> ID \<Rightarrow> bytes" where
  "PlacementRequestKey deadlineUnixSeconds pack = str ''rq:'' @ put_u64 deadlineUnixSeconds @ str '':'' @ pack"

definition PlacementRequestPrefix :: "bytes" where
  "PlacementRequestPrefix = str ''rq:''"

definition RepackLineageKey :: "ID \<Rightarrow> ID \<Rightarrow> bytes" where
  "RepackLineageKey source successor = str ''rl:'' @ source @ str '':'' @ successor"

definition RepackLineagePrefix :: "ID \<Rightarrow> bytes" where
  "RepackLineagePrefix source = str ''rl:'' @ source @ str '':''"

definition PromotionEligibilityKey :: "ID \<Rightarrow> bytes" where
  "PromotionEligibilityKey pack = idKey ''pe:'' pack"

definition PromotionEligibilityPrefix :: "bytes" where
  "PromotionEligibilityPrefix = str ''pe:''"

definition AnalyticsFactKey :: "u32 \<Rightarrow> u64 \<Rightarrow> bytes" where
  "AnalyticsFactKey fsid inode = inodeKey ''an:'' fsid inode"

definition AnalyticsFactPrefix :: "bytes" where
  "AnalyticsFactPrefix = str ''an:''"

definition AnalyticsCacheKey :: "ID \<Rightarrow> bytes" where
  "AnalyticsCacheKey hash = idKey ''aq:'' hash"

definition AnalyticsCachePrefix :: "bytes" where
  "AnalyticsCachePrefix = str ''aq:''"

definition AnalyticsMetadataKey :: "bytes" where
  "AnalyticsMetadataKey = str ''meta:analytics''"

definition AnalyticsBuildCheckpointKey :: "bytes" where
  "AnalyticsBuildCheckpointKey = str ''meta:analytics-build''"

definition AnalyticsDictionaryKey :: "u8 \<Rightarrow> u32 \<Rightarrow> bytes" where
  "AnalyticsDictionaryKey kind i = (if \<not> validAnalyticsDictionaryKind kind \<or> i = 0 then []
     else str ''ad:'' @ [kind] @ put_u32 i)"

definition AnalyticsDictionaryPrefix :: "u8 \<Rightarrow> bytes" where
  "AnalyticsDictionaryPrefix kind = (if \<not> validAnalyticsDictionaryKind kind then [] else str ''ad:'' @ [kind])"

definition AnalyticsFactSegmentKey :: "u64 \<Rightarrow> bytes" where
  "AnalyticsFactSegmentKey segment = analyticsUint64Key ''af:'' segment"

definition AnalyticsFactSegmentPrefix :: "bytes" where
  "AnalyticsFactSegmentPrefix = str ''af:''"

definition AnalyticsSegmentMetadataKey :: "u64 \<Rightarrow> bytes" where
  "AnalyticsSegmentMetadataKey segment = analyticsUint64Key ''am:'' segment"

definition AnalyticsSegmentMetadataPrefix :: "bytes" where
  "AnalyticsSegmentMetadataPrefix = str ''am:''"

definition AnalyticsManifestKey :: "u64 \<Rightarrow> bytes" where
  "AnalyticsManifestKey classificationEpoch = analyticsUint64Key ''ap:'' classificationEpoch"

definition AnalyticsManifestPrefix :: "bytes" where
  "AnalyticsManifestPrefix = str ''ap:''"

definition AnalyticsDimensionIndexKey :: "u8 \<Rightarrow> u64 \<Rightarrow> u64 \<Rightarrow> bytes" where
  "AnalyticsDimensionIndexKey dimension v segment = (if \<not> validAnalyticsDimension dimension \<or> segment = 0 then []
     else str ''ai:'' @ [dimension] @ put_u64 v @ put_u64 segment)"

definition AnalyticsDimensionIndexPrefix :: "u8 \<Rightarrow> u64 \<Rightarrow> bytes" where
  "AnalyticsDimensionIndexPrefix dimension v = (if \<not> validAnalyticsDimension dimension then []
     else str ''ai:'' @ [dimension] @ put_u64 v)"

definition AnalyticsResidencyKey :: "u32 \<Rightarrow> u64 \<Rightarrow> u64 \<Rightarrow> bytes" where
  "AnalyticsResidencyKey fsid inode generation = (if generation = 0 then [] else revisionKey ''ar:'' fsid inode generation)"

definition AnalyticsResidencyPrefix :: "u32 \<Rightarrow> u64 \<Rightarrow> bytes" where
  "AnalyticsResidencyPrefix fsid inode = inodeKey ''ar:'' fsid inode"

definition AnalyticsDerivedPrefix :: "u64 \<Rightarrow> bytes \<Rightarrow> bytes" where
  "AnalyticsDerivedPrefix generation prefix = (if generation = 0 then []
     else str ''av1:'' @ put_u64 generation @ str '':'' @ prefix)"

definition AnalyticsDerivedGenerationPrefix :: "u64 \<Rightarrow> bytes" where
  "AnalyticsDerivedGenerationPrefix generation = AnalyticsDerivedPrefix generation []"

definition AnalyticsDerivedGenerationMarkerKey :: "u64 \<Rightarrow> bytes" where
  "AnalyticsDerivedGenerationMarkerKey generation = (if generation = 0 then []
     else AnalyticsDerivedPrefix generation (str ''complete''))"

definition AnalyticsDeltaKey :: "u64 \<Rightarrow> u32 \<Rightarrow> bytes" where
  "AnalyticsDeltaKey commit ordinal = (if commit = 0 then [] else str ''ae:'' @ put_u64 commit @ put_u32 ordinal)"

definition AnalyticsDeltaPrefix :: "bytes" where
  "AnalyticsDeltaPrefix = str ''ae:''"

definition AuthoritativeCrawlProofKey :: "ID \<Rightarrow> u64 \<Rightarrow> bytes" where
  "AuthoritativeCrawlProofKey scope endCommit = (if scope = replicate 32 0 \<or> endCommit = 0 then []
     else str ''acp:'' @ scope @ put_u64 endCommit)"

definition AuthoritativeCrawlProofPrefix :: "ID \<Rightarrow> bytes" where
  "AuthoritativeCrawlProofPrefix scope = (if scope = replicate 32 0 then [] else str ''acp:'' @ scope)"

definition AuthoritativeSourceBindingKey :: "ID \<Rightarrow> u32 \<Rightarrow> u64 \<Rightarrow> u64 \<Rightarrow> bytes" where
  "AuthoritativeSourceBindingKey scope fsid inode generation = 
     (if scope = replicate 32 0 \<or> fsid = 0 \<or> inode = 0 \<or> generation = 0 then []
      else str ''asb:'' @ scope @ put_u32 fsid @ put_u64 inode @ put_u64 generation)"

definition AuthoritativeSourceBindingPrefix :: "ID \<Rightarrow> bytes" where
  "AuthoritativeSourceBindingPrefix scope = (if scope = replicate 32 0 then [] else str ''asb:'' @ scope)"

definition AnalyticsWatermarkKey :: "u64 \<Rightarrow> bytes" where
  "AnalyticsWatermarkKey classificationEpoch = analyticsUint64Key ''aw:applied:'' classificationEpoch"

definition AnalyticsWatermarkPrefix :: "bytes" where
  "AnalyticsWatermarkPrefix = str ''aw:applied:''"

definition AnalyticsQueryResultKey :: "ID \<Rightarrow> u64 \<Rightarrow> u64 \<Rightarrow> u64 \<Rightarrow> bytes" where
  "AnalyticsQueryResultKey hash repositoryGeneration classificationEpoch appliedCommit = 
     (if repositoryGeneration = 0 \<or> classificationEpoch = 0 then []
      else str ''aq:result:'' @ hash @ put_u64 repositoryGeneration @ put_u64 classificationEpoch @ put_u64 appliedCommit)"

definition AnalyticsQueryHeatKey :: "ID \<Rightarrow> bytes" where
  "AnalyticsQueryHeatKey hash = idKey ''aq:heat:'' hash"

definition AnalyticsQueryViewKey :: "ID \<Rightarrow> u64 \<Rightarrow> bytes" where
  "AnalyticsQueryViewKey view bucket = str ''aq:view:'' @ view @ put_u64 bucket"

definition AnalyticsQueryJobKey :: "ID \<Rightarrow> bytes" where
  "AnalyticsQueryJobKey query = idKey ''aq:job:'' query"

definition AnalyticsQueryJobPrefix :: "bytes" where
  "AnalyticsQueryJobPrefix = str ''aq:job:''"

text \<open>Signed times are stored with the sign bit flipped, so that they sort as numbers.\<close>

definition flip_sign :: "64 word \<Rightarrow> 64 word" where
  "flip_sign t = t XOR push_bit 63 1"

definition GrowthTimeKey :: "u8 \<Rightarrow> i64 \<Rightarrow> u8 \<Rightarrow> bytes" where
  "GrowthTimeKey granularity timestamp tier = 
     (if \<not> validAnalyticsGranularity granularity \<or> \<not> validPackTier tier then []
      else str ''g:time:'' @ [granularity] @ put_u64 (flip_sign timestamp) @ [tier])"

definition GrowthTimePrefix :: "u8 \<Rightarrow> bytes" where
  "GrowthTimePrefix granularity = (if \<not> validAnalyticsGranularity granularity then [] else str ''g:time:'' @ [granularity])"

definition GrowthPathKey :: "bytes \<Rightarrow> u8 \<Rightarrow> i64 \<Rightarrow> bytes" where
  "GrowthPathKey path granularity timestamp = (let path = normalizeAnalyticsPath path in
     if path = [] \<or> length path > MaxPathIndexPathBytes \<or> \<not> validAnalyticsGranularity granularity then []
     else str ''g:path:'' @ put_u16 (of_nat (length path)) @ path @ [granularity] @ put_u64 (flip_sign timestamp))"

definition GrowthPathPrefix :: "bytes \<Rightarrow> bytes" where
  "GrowthPathPrefix path = (let path = normalizeAnalyticsPath path in
     if path = [] \<or> length path > MaxPathIndexPathBytes then []
     else str ''g:path:'' @ put_u16 (of_nat (length path)) @ path)"

definition UserSummaryKey :: "u32 \<Rightarrow> bytes" where
  "UserSummaryKey uid = analyticsUint32Key ''u:summary:'' uid"

definition GroupSummaryKey :: "u32 \<Rightarrow> bytes" where
  "GroupSummaryKey gid = analyticsUint32Key ''g:summary:'' gid"

definition analyticsStatsKey :: "string \<Rightarrow> u32 \<Rightarrow> u8 \<Rightarrow> bytes" where
  "analyticsStatsKey prefix i residency = (if residency < AnalyticsLive \<or> residency > AnalyticsExpired then []
     else str prefix @ put_u32 i @ [residency])"

definition UserStatsKey :: "u32 \<Rightarrow> u8 \<Rightarrow> bytes" where
  "UserStatsKey uid residency = analyticsStatsKey ''u:statsv1:'' uid residency"

definition UserStatsPrefix :: "bytes" where
  "UserStatsPrefix = str ''u:statsv1:''"

definition GroupStatsKey :: "u32 \<Rightarrow> u8 \<Rightarrow> bytes" where
  "GroupStatsKey gid residency = analyticsStatsKey ''g:statsv1:'' gid residency"

definition GroupStatsPrefix :: "bytes" where
  "GroupStatsPrefix = str ''g:statsv1:''"

definition UserChurnKey :: "u32 \<Rightarrow> u8 \<Rightarrow> i64 \<Rightarrow> bytes" where
  "UserChurnKey uid granularity timestamp = (if \<not> validAnalyticsGranularity granularity then []
     else str ''u:churn:'' @ put_u32 uid @ [granularity] @ put_u64 (flip_sign timestamp))"

definition UserInodeKey :: "u32 \<Rightarrow> u32 \<Rightarrow> u64 \<Rightarrow> bytes" where
  "UserInodeKey uid fsid inode = str ''u:inodes:'' @ put_u32 uid @ put_u32 fsid @ put_u64 inode"

definition UserInodePrefix :: "u32 \<Rightarrow> bytes" where
  "UserInodePrefix uid = analyticsUint32Key ''u:inodes:'' uid"

definition UserBlobKey :: "u32 \<Rightarrow> ID \<Rightarrow> bytes" where
  "UserBlobKey uid blob = str ''u:blobs:'' @ put_u32 uid @ blob"

definition UserBlobPrefix :: "u32 \<Rightarrow> bytes" where
  "UserBlobPrefix uid = analyticsUint32Key ''u:blobs:'' uid"

definition UserBlobContributionKey :: "u32 \<Rightarrow> ID \<Rightarrow> u32 \<Rightarrow> u64 \<Rightarrow> u64 \<Rightarrow> u32 \<Rightarrow> bytes" where
  "UserBlobContributionKey uid blob fsid inode generation ordinal = (if generation = 0 then []
     else str ''u:blobv1:'' @ put_u32 uid @ blob @ put_u32 fsid @ put_u64 inode @ put_u64 generation @ put_u32 ordinal)"

definition UserBlobContributionPrefix :: "u32 \<Rightarrow> bytes" where
  "UserBlobContributionPrefix uid = analyticsUint32Key ''u:blobv1:'' uid"

definition NextEventSequenceKey :: "bytes" where
  "NextEventSequenceKey = str ''meta:next-event-seq''"

definition HistoryRawFloorKey :: "bytes" where
  "HistoryRawFloorKey = str ''meta:history-raw-floor''"

definition HistoryEnabledAtKey :: "bytes" where
  "HistoryEnabledAtKey = str ''meta:history-enabled-at''"

definition NextRevisionKey :: "bytes" where
  "NextRevisionKey = str ''meta:next-revision-seq''"

definition NextExportSequenceKey :: "bytes" where
  "NextExportSequenceKey = str ''meta:next-export-seq''"

text \<open>A derived key wraps another key; \<open>parse\<close> is \<^verbatim>\<open>ParseKey\<close>.\<close>

definition isAnalyticsDerivedKind :: "KeyKind \<Rightarrow> bool" where
  "isAnalyticsDerivedKind kind \<longleftrightarrow> kind \<in> {KeyAnalyticsResidency, KeyGrowthTime, KeyGrowthPath, KeyUserSummary, KeyGroupSummary,
     KeyUserStats, KeyGroupStats, KeyUserChurn, KeyUserInode, KeyUserBlob, KeyUserBlobContribution}"

section \<open>Parsing\<close>

definition malformedKey :: "ParsedKey result" where
  "malformedKey = Inl (Wrap ''unknown or incorrectly sized key'' ErrMalformed)"

definition namedMalformedKey :: "string \<Rightarrow> ParsedKey result" where
  "namedMalformedKey message = Inl (Wrap message ErrMalformed)"

definition reservedAnalyticsQueryPrefix :: "bytes \<Rightarrow> bool" where
  "reservedAnalyticsQueryPrefix key =
     list_ex (\<lambda>p. take (length (str p)) key = str p) [''aq:result:'', ''aq:heat:'', ''aq:view:'', ''aq:job:'']"

definition parseAggregate :: "bytes \<Rightarrow> u8 option" where
  "parseAggregate key = map_option fst (find (\<lambda>(kind, name). key = str ''a:pack:'' @ str name) aggregateNames)"

definition parseTierAggregate :: "bytes \<Rightarrow> u8 option" where
  "parseTierAggregate key = map_option fst (find (\<lambda>(tier, name). key = str ''a:tier:'' @ str name) tierAggregateNames)"

text \<open>A parser for some kinds of keys returns \<open>None\<close> for all other keys (\<^verbatim>\<open>ok\<close> is false in the code).\<close>

definition parseAnalyticsCoreKey :: "bytes \<Rightarrow> ParsedKey result option" where
  "parseAnalyticsCoreKey key =
    (if length key = 15 \<and> take 3 key = str ''an:''
     then Some (Inr ((parsed KeyAnalyticsFact)\<lparr>pk_FSID := u32_be (bslice 3 7 key), pk_Inode := u64_be (drop 7 key)\<rparr>))
     else if length key = 8 \<and> take 3 key = str ''ad:''
     then let p = (parsed KeyAnalyticsDictionary)\<lparr>pk_Dictionary := key ! 3, pk_Ordinal := u32_be (drop 4 key)\<rparr> in
       Some (if \<not> validAnalyticsDictionaryKind (pk_Dictionary p) \<or> pk_Ordinal p = 0
             then namedMalformedKey ''invalid analytics dictionary key'' else Inr p)
     else if length key = 11 \<and> take 3 key = str ''af:''
     then let p = (parsed KeyAnalyticsFactSegment)\<lparr>pk_Generation := u64_be (drop 3 key)\<rparr> in
       Some (if pk_Generation p = 0 then namedMalformedKey ''invalid analytics fact segment key'' else Inr p)
     else if length key = 11 \<and> take 3 key = str ''am:''
     then let p = (parsed KeyAnalyticsSegmentMetadata)\<lparr>pk_Generation := u64_be (drop 3 key)\<rparr> in
       Some (if pk_Generation p = 0 then namedMalformedKey ''invalid analytics segment metadata key'' else Inr p)
     else if length key = 20 \<and> take 3 key = str ''ai:''
     then let p = (parsed KeyAnalyticsDimensionIndex)\<lparr>pk_Dimension := key ! 3, pk_Value := u64_be (bslice 4 12 key),
                    pk_Generation := u64_be (drop 12 key)\<rparr> in
       Some (if \<not> validAnalyticsDimension (pk_Dimension p) \<or> pk_Generation p = 0
             then namedMalformedKey ''invalid analytics dimension index key'' else Inr p)
     else if length key = 23 \<and> take 3 key = str ''ar:''
     then let p = (parsed KeyAnalyticsResidency)\<lparr>pk_FSID := u32_be (bslice 3 7 key), pk_Inode := u64_be (bslice 7 15 key),
                    pk_Generation := u64_be (drop 15 key)\<rparr> in
       Some (if pk_Generation p = 0 then namedMalformedKey ''invalid analytics residency key'' else Inr p)
     else if length key = 15 \<and> take 3 key = str ''ae:''
     then let p = (parsed KeyAnalyticsDelta)\<lparr>pk_Commit := u64_be (bslice 3 11 key), pk_Ordinal := u32_be (drop 11 key)\<rparr> in
       Some (if pk_Commit p = 0 then namedMalformedKey ''invalid analytics delta key'' else Inr p)
     else None)"

definition parseAnalyticsQueryResultKey :: "bytes \<Rightarrow> ParsedKey result option" where
  "parseAnalyticsQueryResultKey key =
    (if length key = 66 \<and> take 10 key = str ''aq:result:''
     then let p = (parsed KeyAnalyticsQueryResult)\<lparr>pk_ID := bslice 10 42 key, pk_Generation := u64_be (bslice 42 50 key),
                    pk_Epoch := u64_be (bslice 50 58 key), pk_Commit := u64_be (drop 58 key)\<rparr> in
       Some (if pk_Generation p = 0 \<or> pk_Epoch p = 0 then namedMalformedKey ''invalid analytics query result key'' else Inr p)
     else if length key = 40 \<and> take 8 key = str ''aq:heat:''
     then Some (Inr ((parsed KeyAnalyticsQueryHeat)\<lparr>pk_ID := drop 8 key\<rparr>))
     else if length key = 48 \<and> take 8 key = str ''aq:view:''
     then Some (Inr ((parsed KeyAnalyticsQueryView)\<lparr>pk_ID := bslice 8 40 key, pk_Value := u64_be (drop 40 key)\<rparr>))
     else if length key = 39 \<and> take 7 key = str ''aq:job:''
     then Some (Inr ((parsed KeyAnalyticsQueryJob)\<lparr>pk_ID := drop 7 key\<rparr>))
     else if length key = 35 \<and> take 3 key = str ''aq:'' \<and> \<not> reservedAnalyticsQueryPrefix key
     then Some (Inr ((parsed KeyAnalyticsCache)\<lparr>pk_ID := drop 3 key\<rparr>))
     else None)"

definition parseAnalyticsQueryKey :: "bytes \<Rightarrow> ParsedKey result option" where
  "parseAnalyticsQueryKey key =
    (if length key = 44 \<and> take 4 key = str ''acp:''
     then let p = (parsed KeyAuthoritativeCrawlProof)\<lparr>pk_ID := bslice 4 36 key, pk_Commit := u64_be (drop 36 key)\<rparr> in
       Some (if pk_ID p = replicate 32 0 \<or> pk_Commit p = 0
             then namedMalformedKey ''invalid authoritative crawl proof key'' else Inr p)
     else if length key = 56 \<and> take 4 key = str ''asb:''
     then let p = (parsed KeyAuthoritativeSourceBinding)\<lparr>pk_ID := bslice 4 36 key, pk_FSID := u32_be (bslice 36 40 key),
                    pk_Inode := u64_be (bslice 40 48 key), pk_Generation := u64_be (drop 48 key)\<rparr> in
       Some (if pk_ID p = replicate 32 0 \<or> pk_FSID p = 0 \<or> pk_Inode p = 0 \<or> pk_Generation p = 0
             then namedMalformedKey ''invalid authoritative source binding key'' else Inr p)
     else if length key = 19 \<and> take 11 key = str ''aw:applied:''
     then let p = (parsed KeyAnalyticsWatermark)\<lparr>pk_Epoch := u64_be (drop 11 key)\<rparr> in
       Some (if pk_Epoch p = 0 then namedMalformedKey ''invalid analytics watermark key'' else Inr p)
     else if length key = 11 \<and> take 3 key = str ''ap:''
     then let p = (parsed KeyAnalyticsManifest)\<lparr>pk_Epoch := u64_be (drop 3 key)\<rparr> in
       Some (if pk_Epoch p = 0 then namedMalformedKey ''invalid analytics manifest key'' else Inr p)
     else parseAnalyticsQueryResultKey key)"

definition parseAnalyticsDerivedKey :: "(bytes \<Rightarrow> ParsedKey result) \<Rightarrow> bytes \<Rightarrow> ParsedKey result" where
  "parseAnalyticsDerivedKey parse key = (let generation = u64_be (bslice 4 12 key) in
     if generation = 0 then namedMalformedKey ''invalid analytics derived key generation''
     else if drop 13 key = str ''complete'' then Inr ((parsed KeyAnalyticsDerivedMarker)\<lparr>pk_ViewGeneration := generation\<rparr>)
     else case parse (drop 13 key) of
         Inl e \<Rightarrow> if e = Diverges then Inl Diverges else namedMalformedKey ''invalid analytics derived key''
       | Inr inner \<Rightarrow> if pk_ViewGeneration inner \<noteq> 0 \<or> \<not> isAnalyticsDerivedKind (pk_Kind inner)
           then namedMalformedKey ''invalid analytics derived key'' else Inr (inner\<lparr>pk_ViewGeneration := generation\<rparr>))"

definition analyticsKeyCodec_parse :: "(bytes \<Rightarrow> ParsedKey result) \<Rightarrow> bytes \<Rightarrow> ParsedKey result" where
  "analyticsKeyCodec_parse parse key =
    (if length key \<ge> 13 \<and> take 4 key = str ''av1:'' \<and> key ! 12 = of_char CHR '':'' then parseAnalyticsDerivedKey parse key
     else case parseAnalyticsCoreKey key of Some r \<Rightarrow> r
     | None \<Rightarrow> case parseAnalyticsQueryKey key of Some r \<Rightarrow> r
     | None \<Rightarrow> case parseAggregate key of Some kind \<Rightarrow> Inr ((parsed KeyPackAggregate)\<lparr>pk_Aggregate := kind\<rparr>)
     | None \<Rightarrow> case parseTierAggregate key of Some tier \<Rightarrow> Inr ((parsed KeyTierAggregate)\<lparr>pk_Tier := tier\<rparr>)
     | None \<Rightarrow> malformedKey)"

definition blobKeyCodec_parse :: "bytes \<Rightarrow> ParsedKey result" where
  "blobKeyCodec_parse key =
    (if length key = 34 \<and> take 2 key = str ''b:'' then Inr ((parsed KeyBlob)\<lparr>pk_ID := drop 2 key\<rparr>)
     else if length key = 44 \<and> take 3 key = str ''bp:'' \<and> key ! 11 = of_char CHR '':''
     then Inr ((parsed KeyBackendPack)\<lparr>pk_Backend := u64_be (bslice 3 11 key), pk_ID := drop 12 key\<rparr>)
     else malformedKey)"

definition contentKeyCodec_parse :: "bytes \<Rightarrow> ParsedKey result" where
  "contentKeyCodec_parse key = (if length key \<noteq> 39 \<or> take 3 key \<noteq> str ''cm:'' then malformedKey
     else Inr ((parsed KeyContentManifest)\<lparr>pk_Segment := u32_be (drop 35 key), pk_ID := bslice 3 35 key\<rparr>))"

definition directoryKeyCodec_parse :: "bytes \<Rightarrow> ParsedKey result" where
  "directoryKeyCodec_parse key =
    (if length key = 14 \<and> take 2 key = str ''d:''
     then Inr ((parsed KeyCurrentDirectory)\<lparr>pk_FSID := u32_be (bslice 2 6 key), pk_Inode := u64_be (drop 6 key)\<rparr>)
     else if length key = 23 \<and> take 3 key = str ''dv:''
     then Inr ((parsed KeyDirectoryRevision)\<lparr>pk_FSID := u32_be (bslice 3 7 key), pk_Inode := u64_be (bslice 7 15 key),
                 pk_Revision := u64_be (drop 15 key)\<rparr>)
     else if length key = 47 \<and> take 3 key = str ''dc:''
     then Inr ((parsed KeyDeletionCertificate)\<lparr>pk_UID := u32_be (bslice 3 7 key), pk_EventTime := u64_be (bslice 7 15 key),
                 pk_ID := drop 15 key\<rparr>)
     else if length key = 53 \<and> take 3 key = str ''dq:'' \<and> key ! 11 = of_char CHR '':'' \<and> key ! 44 = of_char CHR '':''
     then Inr ((parsed KeyPlacementDeleteQueue)\<lparr>pk_DeleteAfter := u64_be (bslice 3 11 key), pk_ID := bslice 12 44 key,
                 pk_Backend := u64_be (drop 45 key)\<rparr>)
     else malformedKey)"

definition parseGrowthTimeKey :: "bytes \<Rightarrow> ParsedKey result" where
  "parseGrowthTimeKey key = (let p = (parsed KeyGrowthTime)\<lparr>pk_Granularity := key ! 7, pk_Tier := key ! 16,
       pk_Timestamp := flip_sign (u64_be (bslice 8 16 key))\<rparr> in
     if \<not> validAnalyticsGranularity (pk_Granularity p) \<or> \<not> validPackTier (pk_Tier p)
     then namedMalformedKey ''invalid growth time key'' else Inr p)"

definition parseGrowthPathKey :: "bytes \<Rightarrow> ParsedKey result" where
  "parseGrowthPathKey key = (let pathLength = unat (u16_be (bslice 7 9 key)) in
     if pathLength = 0 \<or> pathLength > MaxPathIndexPathBytes \<or> length key \<noteq> 7 + 2 + pathLength + 1 + 8
     then namedMalformedKey ''invalid growth path key''
     else let p = (parsed KeyGrowthPath)\<lparr>pk_Path := bslice 9 (9 + pathLength) key, pk_Granularity := key ! (9 + pathLength),
                     pk_Timestamp := flip_sign (u64_be (drop (10 + pathLength) key))\<rparr> in
       if pk_Path p \<noteq> normalizeAnalyticsPath (pk_Path p) \<or> \<not> validAnalyticsGranularity (pk_Granularity p)
       then namedMalformedKey ''invalid growth path key'' else Inr p)"

definition growthKeyCodec_parse :: "bytes \<Rightarrow> ParsedKey result" where
  "growthKeyCodec_parse key =
    (if length key = 37 \<and> (take 5 key = str ''gc:b:'' \<or> take 5 key = str ''gc:p:'')
     then Inr ((parsed KeyGarbageCollection)\<lparr>pk_GCTarget := (if key ! 3 = of_char CHR ''p'' then GCPack else GCBlob),
                 pk_ID := drop 5 key\<rparr>)
     else if length key = 17 \<and> take 7 key = str ''g:time:'' then parseGrowthTimeKey key
     else if length key \<ge> 18 \<and> take 7 key = str ''g:path:'' then parseGrowthPathKey key
     else if length key = 14 \<and> take 10 key = str ''g:summary:''
     then Inr ((parsed KeyGroupSummary)\<lparr>pk_GID := u32_be (drop 10 key)\<rparr>)
     else if length key = 15 \<and> take 10 key = str ''g:statsv1:''
     then let p = (parsed KeyGroupStats)\<lparr>pk_GID := u32_be (bslice 10 14 key), pk_Residency := key ! 14\<rparr> in
       if pk_Residency p < AnalyticsLive \<or> pk_Residency p > AnalyticsExpired
       then namedMalformedKey ''invalid analytics group stats key'' else Inr p
     else malformedKey)"

definition hardlinkKeyCodec_parse :: "bytes \<Rightarrow> ParsedKey result" where
  "hardlinkKeyCodec_parse key = (if length key \<noteq> 23 \<or> take 3 key \<noteq> str ''hr:'' then malformedKey
     else Inr ((parsed KeyHardlinkRefs)\<lparr>pk_FSID := u32_be (bslice 3 7 key), pk_Inode := u64_be (bslice 7 15 key),
                 pk_Revision := u64_be (drop 15 key)\<rparr>))"

definition inodeKeyCodec_parse :: "bytes \<Rightarrow> ParsedKey result" where
  "inodeKeyCodec_parse key =
    (if length key = 14 \<and> take 2 key = str ''i:''
     then Inr ((parsed KeyCurrentInode)\<lparr>pk_FSID := u32_be (bslice 2 6 key), pk_Inode := u64_be (drop 6 key)\<rparr>)
     else if length key = 23 \<and> take 3 key = str ''iv:''
     then Inr ((parsed KeyInodeRevision)\<lparr>pk_FSID := u32_be (bslice 3 7 key), pk_Inode := u64_be (bslice 7 15 key),
                 pk_Revision := u64_be (drop 15 key)\<rparr>)
     else malformedKey)"

definition metadataKeyCodec_parse :: "bytes \<Rightarrow> ParsedKey result" where
  "metadataKeyCodec_parse key =
    (if length key = 50 \<and> take 18 key = str ''meta:import-index:'' then Inr ((parsed KeyImportCheckpoint)\<lparr>pk_ID := drop 18 key\<rparr>)
     else if length key = 53 \<and> take 21 key = str ''meta:import-snapshot:''
     then Inr ((parsed KeySnapshotImportCheckpoint)\<lparr>pk_ID := drop 21 key\<rparr>)
     else if length key = 60 \<and> take 20 key = str ''meta:import-receipt:''
     then Inr ((parsed KeyLegacyImportReceipt)\<lparr>pk_ID := bslice 20 52 key, pk_Revision := u64_be (drop 52 key)\<rparr>)
     else if length key = 53 \<and> take 21 key = str ''meta:export-snapshot:''
     then Inr ((parsed KeyExportCheckpoint)\<lparr>pk_ID := drop 21 key\<rparr>)
     else if length key = 50 \<and> take 18 key = str ''meta:export-index:''
     then Inr ((parsed KeyExportIndexCheckpoint)\<lparr>pk_ID := drop 18 key\<rparr>)
     else if key = str ''meta:next-revision-seq'' then Inr (parsed KeyNextRevision)
     else if key = str ''meta:next-export-seq'' then Inr (parsed KeyNextExportSequence)
     else if key = str ''meta:next-event-seq'' then Inr (parsed KeyNextEventSequence)
     else if key = str ''meta:history-raw-floor'' then Inr (parsed KeyHistoryRawFloor)
     else if key = str ''meta:history-enabled-at'' then Inr (parsed KeyHistoryEnabledAt)
     else if key = str ''meta:analytics'' then Inr (parsed KeyAnalyticsMetadata)
     else if key = str ''meta:analytics-build'' then Inr (parsed KeyAnalyticsBuildCheckpoint)
     else malformedKey)"

definition parsePackHistoryBucketKey :: "bytes \<Rightarrow> ParsedKey result" where
  "parsePackHistoryBucketKey key = (let p = (parsed KeyPackHistoryBucket)\<lparr>pk_Granularity := key ! 3,
       pk_EventTime := u64_be (bslice 4 12 key), pk_Backend := u64_be (bslice 12 20 key), pk_PackType := key ! 20\<rparr> in
     if \<not> validHistoryGranularity (pk_Granularity p) \<or> \<not> validPackType (pk_PackType p)
     then namedMalformedKey ''invalid history bucket key'' else Inr p)"

text \<open>\<open>terminator\<close> is the first zero byte at or after offset 7 and before the last eight bytes.\<close>

definition parsePathVersionKey :: "bytes \<Rightarrow> ParsedKey result" where
  "parsePathVersionKey key =
    (case find (\<lambda>offset. key ! offset = 0) [7..<length key - 8] of
       None \<Rightarrow> namedMalformedKey ''invalid path-version key''
     | Some terminator \<Rightarrow>
         if terminator \<le> 7 \<or> terminator \<noteq> length key - 9 then namedMalformedKey ''invalid path-version key''
         else let p = (parsed KeyPathVersion)\<lparr>pk_FSID := u32_be (bslice 3 7 key), pk_Path := bslice 7 terminator key,
                         pk_Revision := u64_be (drop (terminator + 1) key)\<rparr> in
           if pk_Revision p = 0 \<or> length (pk_Path p) > MaxPathIndexPathBytes
           then namedMalformedKey ''invalid path-version key'' else Inr p)"

definition packKeyCodec_parse :: "bytes \<Rightarrow> ParsedKey result" where
  "packKeyCodec_parse key =
    (if length key = 34 \<and> take 2 key = str ''p:'' then Inr ((parsed KeyPack)\<lparr>pk_ID := drop 2 key\<rparr>)
     else if length key = 51 \<and> take 3 key = str ''ph:''
     then Inr ((parsed KeyPackHistory)\<lparr>pk_EventTime := u64_be (bslice 3 11 key), pk_Revision := u64_be (bslice 11 19 key),
                 pk_ID := drop 19 key\<rparr>)
     else if length key = 21 \<and> take 3 key = str ''pb:'' then parsePackHistoryBucketKey key
     else if length key = 44 \<and> take 3 key = str ''pl:'' \<and> key ! 35 = of_char CHR '':''
     then Inr ((parsed KeyPackPlacement)\<lparr>pk_Backend := u64_be (drop 36 key), pk_ID := bslice 3 35 key\<rparr>)
     else if length key > 15 \<and> take 3 key = str ''pv:'' then parsePathVersionKey key
     else if length key = 35 \<and> take 3 key = str ''pe:'' then Inr ((parsed KeyPromotionEligibility)\<lparr>pk_ID := drop 3 key\<rparr>)
     else malformedKey)"

definition crawlKeyCodec_parse :: "bytes \<Rightarrow> ParsedKey result" where
  "crawlKeyCodec_parse key = (if length key \<noteq> 66 \<or> take 2 key \<noteq> str ''q:'' then malformedKey
     else Inr ((parsed KeyCrawlDebt)\<lparr>pk_ID := bslice 2 34 key, pk_SecondID := drop 34 key\<rparr>))"

definition reverseKeyCodec_parse :: "bytes \<Rightarrow> ParsedKey result" where
  "reverseKeyCodec_parse key =
    (if length key = 35 \<and> take 3 key = str ''rc:'' then Inr ((parsed KeyReferenceCount)\<lparr>pk_ID := drop 3 key\<rparr>)
     else if length key = 67 \<and> take 3 key = str ''rm:''
     then Inr ((parsed KeyReverseManifest)\<lparr>pk_ID := bslice 3 35 key, pk_SecondID := drop 35 key\<rparr>)
     else if length key = 47 \<and> take 3 key = str ''ri:''
     then Inr ((parsed KeyReverseInode)\<lparr>pk_FSID := u32_be (bslice 35 39 key), pk_Inode := u64_be (drop 39 key), pk_ID := bslice 3 35 key\<rparr>)
     else if length key = 44 \<and> take 3 key = str ''rq:'' \<and> key ! 11 = of_char CHR '':''
     then Inr ((parsed KeyPlacementRequest)\<lparr>pk_EventTime := u64_be (bslice 3 11 key), pk_ID := drop 12 key\<rparr>)
     else if length key = 68 \<and> take 3 key = str ''rl:'' \<and> key ! 35 = of_char CHR '':''
     then Inr ((parsed KeyRepackLineage)\<lparr>pk_ID := bslice 3 35 key, pk_SecondID := drop 36 key\<rparr>)
     else malformedKey)"

definition snapshotKeyCodec_parse :: "bytes \<Rightarrow> ParsedKey result" where
  "snapshotKeyCodec_parse key =
    (if length key = 34 \<and> take 2 key = str ''s:'' then Inr ((parsed KeySnapshot)\<lparr>pk_ID := drop 2 key\<rparr>)
     else if length key = 44 \<and> take 3 key = str ''sc:'' \<and> key ! 11 = of_char CHR '':''
     then Inr ((parsed KeySnapshotCommit)\<lparr>pk_Revision := u64_be (bslice 3 11 key), pk_ID := drop 12 key\<rparr>)
     else malformedKey)"

definition parseUserBlobContributionKey :: "bytes \<Rightarrow> ParsedKey result" where
  "parseUserBlobContributionKey key = (let p = (parsed KeyUserBlobContribution)\<lparr>pk_UID := u32_be (bslice 9 13 key), pk_ID := bslice 13 45 key,
       pk_FSID := u32_be (bslice 45 49 key), pk_Inode := u64_be (bslice 49 57 key), pk_Generation := u64_be (bslice 57 65 key),
       pk_Ordinal := u32_be (drop 65 key)\<rparr> in
     if pk_Generation p = 0 then namedMalformedKey ''invalid analytics user blob contribution key'' else Inr p)"

definition userKeyCodec_parse :: "bytes \<Rightarrow> ParsedKey result" where
  "userKeyCodec_parse key =
    (if length key = 23 \<and> take 19 key = str ''u:policy:blocklist:''
     then Inr ((parsed KeyUIDExclusionPolicy)\<lparr>pk_UID := u32_be (drop 19 key)\<rparr>)
     else if length key = 14 \<and> take 10 key = str ''u:summary:'' then Inr ((parsed KeyUserSummary)\<lparr>pk_UID := u32_be (drop 10 key)\<rparr>)
     else if length key = 15 \<and> take 10 key = str ''u:statsv1:''
     then let p = (parsed KeyUserStats)\<lparr>pk_UID := u32_be (bslice 10 14 key), pk_Residency := key ! 14\<rparr> in
       if pk_Residency p < AnalyticsLive \<or> pk_Residency p > AnalyticsExpired
       then namedMalformedKey ''invalid analytics user stats key'' else Inr p
     else if length key = 21 \<and> take 8 key = str ''u:churn:''
     then let p = (parsed KeyUserChurn)\<lparr>pk_UID := u32_be (bslice 8 12 key), pk_Granularity := key ! 12,
                    pk_Timestamp := flip_sign (u64_be (drop 13 key))\<rparr> in
       if \<not> validAnalyticsGranularity (pk_Granularity p) then namedMalformedKey ''invalid user churn key'' else Inr p
     else if length key = 25 \<and> take 9 key = str ''u:inodes:''
     then Inr ((parsed KeyUserInode)\<lparr>pk_UID := u32_be (bslice 9 13 key), pk_FSID := u32_be (bslice 13 17 key),
                 pk_Inode := u64_be (drop 17 key)\<rparr>)
     else if length key = 44 \<and> take 8 key = str ''u:blobs:''
     then Inr ((parsed KeyUserBlob)\<lparr>pk_UID := u32_be (bslice 8 12 key), pk_ID := drop 12 key\<rparr>)
     else if length key = 69 \<and> take 9 key = str ''u:blobv1:'' then parseUserBlobContributionKey key
     else malformedKey)"

definition verificationKeyCodec_parse :: "bytes \<Rightarrow> ParsedKey result" where
  "verificationKeyCodec_parse key =
    (if length key = 43 \<and> take 3 key = str ''vr:''
     then Inr ((parsed KeyVerificationState)\<lparr>pk_ID := bslice 3 35 key, pk_Backend := u64_be (drop 35 key)\<rparr>)
     else if length key = 59 \<and> take 3 key = str ''ve:''
     then Inr ((parsed KeyVerificationEvent)\<lparr>pk_EventTime := u64_be (bslice 3 11 key), pk_Revision := u64_be (bslice 11 19 key),
                 pk_ID := bslice 19 51 key, pk_Backend := u64_be (drop 51 key)\<rparr>)
     else malformedKey)"

datatype keyCodec = analyticsKeyCodec | blobKeyCodec | contentKeyCodec | directoryKeyCodec | growthKeyCodec | hardlinkKeyCodec
  | inodeKeyCodec | metadataKeyCodec | packKeyCodec | crawlKeyCodec | reverseKeyCodec | snapshotKeyCodec | userKeyCodec
  | verificationKeyCodec

definition keyCodecs :: "(u8 \<times> keyCodec) list" where
  "keyCodecs = map (\<lambda>(c, codec). (of_char c, codec)) [(CHR ''a'', analyticsKeyCodec), (CHR ''b'', blobKeyCodec),
     (CHR ''c'', contentKeyCodec), (CHR ''d'', directoryKeyCodec), (CHR ''g'', growthKeyCodec), (CHR ''h'', hardlinkKeyCodec),
     (CHR ''i'', inodeKeyCodec), (CHR ''m'', metadataKeyCodec), (CHR ''p'', packKeyCodec), (CHR ''q'', crawlKeyCodec),
     (CHR ''r'', reverseKeyCodec), (CHR ''s'', snapshotKeyCodec), (CHR ''u'', userKeyCodec), (CHR ''v'', verificationKeyCodec)]"

definition codecForKey :: "bytes \<Rightarrow> keyCodec result" where
  "codecForKey key = (case key of [] \<Rightarrow> Inl (Wrap ''unknown or incorrectly sized key'' ErrMalformed)
     | c # _ \<Rightarrow> (case map_of keyCodecs c of None \<Rightarrow> Inl (Wrap ''unknown or incorrectly sized key'' ErrMalformed)
         | Some codec \<Rightarrow> Inr codec))"

text \<open>The method \<^verbatim>\<open>parse\<close> of a codec.\<close>

definition codec_parse :: "(bytes \<Rightarrow> ParsedKey result) \<Rightarrow> keyCodec \<Rightarrow> bytes \<Rightarrow> ParsedKey result" where
  "codec_parse parse codec = (case codec of analyticsKeyCodec \<Rightarrow> analyticsKeyCodec_parse parse | blobKeyCodec \<Rightarrow> blobKeyCodec_parse
     | contentKeyCodec \<Rightarrow> contentKeyCodec_parse | directoryKeyCodec \<Rightarrow> directoryKeyCodec_parse | growthKeyCodec \<Rightarrow> growthKeyCodec_parse
     | hardlinkKeyCodec \<Rightarrow> hardlinkKeyCodec_parse | inodeKeyCodec \<Rightarrow> inodeKeyCodec_parse | metadataKeyCodec \<Rightarrow> metadataKeyCodec_parse
     | packKeyCodec \<Rightarrow> packKeyCodec_parse | crawlKeyCodec \<Rightarrow> crawlKeyCodec_parse | reverseKeyCodec \<Rightarrow> reverseKeyCodec_parse
     | snapshotKeyCodec \<Rightarrow> snapshotKeyCodec_parse | userKeyCodec \<Rightarrow> userKeyCodec_parse
     | verificationKeyCodec \<Rightarrow> verificationKeyCodec_parse)"

fun ParseKey_fuel :: "nat \<Rightarrow> bytes \<Rightarrow> ParsedKey result" where
  "ParseKey_fuel 0 key = Inl Diverges"
| "ParseKey_fuel (Suc n) key = rbind (codecForKey key) (\<lambda>codec. codec_parse (ParseKey_fuel n) codec key)"

definition ParseKey :: "bytes \<Rightarrow> ParsedKey result" where
  "ParseKey key = ParseKey_fuel (Suc (length key)) key"

definition isAnalyticsDerivedKey :: "bytes \<Rightarrow> bool" where
  "isAnalyticsDerivedKey key = (case ParseKey key of Inl _ \<Rightarrow> False
     | Inr p \<Rightarrow> pk_ViewGeneration p = 0 \<and> isAnalyticsDerivedKind (pk_Kind p))"

definition AnalyticsDerivedKey :: "u64 \<Rightarrow> bytes \<Rightarrow> bytes" where
  "AnalyticsDerivedKey generation key = (if generation = 0 \<or> \<not> isAnalyticsDerivedKey key then []
     else str ''av1:'' @ put_u64 generation @ str '':'' @ key)"

end
