(* ===== verification/Schema_Keys_Correct.thy ===== *)
theory Schema_Keys_Correct
  imports Schema_Keys
begin

text \<open>
  Correctness of the record keys of \<open>Schema_Keys\<close>. \<open>key_of\<close> relates each key a constructor builds to the fields it was built from;
  \<^verbatim>\<open>ParseKey\<close> accepts exactly these keys and returns these fields, so that keys of different kinds or with different fields never
  coincide.
\<close>

section \<open>Codec lemmas\<close>

lemma length_str [simp]: "length (str s) = length s"
  by (simp add: str_def)

lemma length_put [simp]: "length (put_u16 a) = 2" "length (put_u32 b) = 4" "length (put_u64 c) = 8"
  by (simp_all add: put_u16_def put_u32_def put_u64_def)

lemma length_bslice [simp]: "length (bslice i j bs) = min (j - i) (length bs - i)"
  by (simp add: bslice_def)

lemma be_put [simp]: "u16_be (put_u16 a) = a" "u32_be (put_u32 b) = b" "u64_be (put_u64 c) = c"
  using unat_lt2p [of a] unat_lt2p [of b] unat_lt2p [of c]
  by (simp_all add: put_u16_def put_u32_def put_u64_def u16_be_def u32_be_def u64_be_def be_val_be_bytes)

lemma be_bytes_be_val: "length bs = n \<Longrightarrow> be_bytes n (be_val bs) = bs"
  using le_bytes_le_val [of "rev bs"] by (simp add: be_bytes_def be_val_def)

lemma be_val_bound: "be_val bs < 256 ^ length bs"
  using le_val_bound [of "rev bs"] by (simp add: be_val_def)

lemma put_be [simp]: "length bs = 2 \<Longrightarrow> put_u16 (u16_be bs) = bs" "length bs = 4 \<Longrightarrow> put_u32 (u32_be bs) = bs"
  "length bs = 8 \<Longrightarrow> put_u64 (u64_be bs) = bs"
  using be_val_bound [of bs]
  by (simp_all add: put_u16_def put_u32_def put_u64_def u16_be_def u32_be_def u64_be_def unat_of_nat be_bytes_be_val)

lemma flip_sign_flip [simp]: "flip_sign (flip_sign t) = t"
  by (simp add: flip_sign_def xor.assoc)

text \<open>Putting the parts of a key together again.\<close>

lemma cat_prefix: "take n key = p \<Longrightarrow> p @ drop n key = key"
  by auto

lemma cat_slice: "i \<le> j \<Longrightarrow> bslice i j key @ drop j key = drop i key"
  by (simp add: bslice_def) (metis append_take_drop_id drop_drop le_add_diff_inverse2)

lemma cat_slice_append: "i \<le> j \<Longrightarrow> bslice i j key @ drop j key @ rest = drop i key @ rest"
  using cat_slice [of i j key] by simp

lemma cat_byte: "0 < j \<Longrightarrow> j \<le> length key \<Longrightarrow> key ! (j - 1) = c \<Longrightarrow> c # drop j key = drop (j - 1) key"
  using Cons_nth_drop_Suc [of "j - 1" key] by simp

lemma cat_last: "Suc i = length key \<Longrightarrow> [key ! i] = drop i key"
  using Cons_nth_drop_Suc [of i key] by simp

section \<open>The keys and their fields\<close>

inductive key_of :: "bytes \<Rightarrow> ParsedKey \<Rightarrow> bool" where
  "is_id i \<Longrightarrow> key_of (BlobKey i) ((parsed KeyBlob)\<lparr>pk_ID := i\<rparr>)"
| "is_id i \<Longrightarrow> key_of (PackKey i) ((parsed KeyPack)\<lparr>pk_ID := i\<rparr>)"
| "is_id i \<Longrightarrow> key_of (SnapshotKey i) ((parsed KeySnapshot)\<lparr>pk_ID := i\<rparr>)"
| "is_id i \<Longrightarrow> key_of (ReferenceCountKey i) ((parsed KeyReferenceCount)\<lparr>pk_ID := i\<rparr>)"
| "is_id i \<Longrightarrow> key_of (SnapshotCommitKey c i) ((parsed KeySnapshotCommit)\<lparr>pk_Revision := c, pk_ID := i\<rparr>)"
| "path = TrimPrefix path0 (str ''/'') \<Longrightarrow> path \<noteq> [] \<Longrightarrow>
     length path \<le> MaxPathIndexPathBytes \<Longrightarrow> 0 \<notin> set path \<Longrightarrow> v \<noteq> 0 \<Longrightarrow>
     key_of (PathVersionKey f path0 v) ((parsed KeyPathVersion)\<lparr>pk_FSID := f, pk_Path := path, pk_Revision := v\<rparr>)"
| "key_of (CurrentInodeKey f n) ((parsed KeyCurrentInode)\<lparr>pk_FSID := f, pk_Inode := n\<rparr>)"
| "key_of (CurrentDirectoryKey f n) ((parsed KeyCurrentDirectory)\<lparr>pk_FSID := f, pk_Inode := n\<rparr>)"
| "key_of (InodeRevisionKey f n v) ((parsed KeyInodeRevision)\<lparr>pk_FSID := f, pk_Inode := n, pk_Revision := v\<rparr>)"
| "key_of (DirectoryRevisionKey f n v) ((parsed KeyDirectoryRevision)\<lparr>pk_FSID := f, pk_Inode := n, pk_Revision := v\<rparr>)"
| "key_of (HardlinkRefsKey f n v) ((parsed KeyHardlinkRefs)\<lparr>pk_FSID := f, pk_Inode := n, pk_Revision := v\<rparr>)"
| "is_id i \<Longrightarrow> key_of (ContentManifestKey i s) ((parsed KeyContentManifest)\<lparr>pk_Segment := s, pk_ID := i\<rparr>)"
| "is_id i \<Longrightarrow> is_id j \<Longrightarrow>
     key_of (ReverseManifestKey i j) ((parsed KeyReverseManifest)\<lparr>pk_ID := i, pk_SecondID := j\<rparr>)"
| "is_id i \<Longrightarrow> key_of (ReverseInodeKey i f n)
       ((parsed KeyReverseInode)\<lparr>pk_FSID := f, pk_Inode := n, pk_ID := i\<rparr>)"
| "t = GCBlob \<or> t = GCPack \<Longrightarrow> is_id i \<Longrightarrow>
     key_of (GarbageCollectionKey t i) ((parsed KeyGarbageCollection)\<lparr>pk_GCTarget := t, pk_ID := i\<rparr>)"
| "is_id i \<Longrightarrow> is_id j \<Longrightarrow>
     key_of (CrawlDebtKey i j) ((parsed KeyCrawlDebt)\<lparr>pk_ID := i, pk_SecondID := j\<rparr>)"
| "is_id i \<Longrightarrow> key_of (ImportCheckpointKey i) ((parsed KeyImportCheckpoint)\<lparr>pk_ID := i\<rparr>)"
| "is_id i \<Longrightarrow> key_of (SnapshotImportCheckpointKey i) ((parsed KeySnapshotImportCheckpoint)\<lparr>pk_ID := i\<rparr>)"
| "is_id i \<Longrightarrow> key_of (LegacyImportReceiptKey i b)
       ((parsed KeyLegacyImportReceipt)\<lparr>pk_ID := i, pk_Revision := b\<rparr>)"
| "is_id i \<Longrightarrow> key_of (ExportCheckpointKey i) ((parsed KeyExportCheckpoint)\<lparr>pk_ID := i\<rparr>)"
| "is_id i \<Longrightarrow> key_of (ExportIndexCheckpointKey i) ((parsed KeyExportIndexCheckpoint)\<lparr>pk_ID := i\<rparr>)"
| "k \<in> fst ` set aggregateNames \<Longrightarrow>
     key_of (PackAggregateKey k) ((parsed KeyPackAggregate)\<lparr>pk_Aggregate := k\<rparr>)"
| "t \<in> fst ` set tierAggregateNames \<Longrightarrow>
     key_of (TierAggregateKey t) ((parsed KeyTierAggregate)\<lparr>pk_Tier := t\<rparr>)"
| "is_id i \<Longrightarrow> key_of (PackHistoryKey s q i)
       ((parsed KeyPackHistory)\<lparr>pk_EventTime := s, pk_Revision := q, pk_ID := i\<rparr>)"
| "validHistoryGranularity g \<Longrightarrow> validPackType t \<Longrightarrow>
     key_of (PackHistoryBucketKey g s b t)
       ((parsed KeyPackHistoryBucket)\<lparr>pk_Granularity := g, pk_EventTime := s, pk_Backend := b, pk_PackType := t\<rparr>)"
| "is_id i \<Longrightarrow> key_of (PackPlacementKey i b) ((parsed KeyPackPlacement)\<lparr>pk_Backend := b, pk_ID := i\<rparr>)"
| "is_id i \<Longrightarrow> key_of (VerificationStateKey i b) ((parsed KeyVerificationState)\<lparr>pk_ID := i, pk_Backend := b\<rparr>)"
| "is_id i \<Longrightarrow> key_of (VerificationEventKey s q i b)
       ((parsed KeyVerificationEvent)\<lparr>pk_EventTime := s, pk_Revision := q, pk_ID := i, pk_Backend := b\<rparr>)"
| "key_of (UIDExclusionPolicyKey u) ((parsed KeyUIDExclusionPolicy)\<lparr>pk_UID := u\<rparr>)"
| "is_id i \<Longrightarrow> key_of (DeletionCertificateKey u s i)
       ((parsed KeyDeletionCertificate)\<lparr>pk_UID := u, pk_EventTime := s, pk_ID := i\<rparr>)"
| "is_id i \<Longrightarrow> key_of (BackendPackKey b i) ((parsed KeyBackendPack)\<lparr>pk_Backend := b, pk_ID := i\<rparr>)"
| "is_id i \<Longrightarrow> key_of (PlacementDeleteQueueKey a i b)
       ((parsed KeyPlacementDeleteQueue)\<lparr>pk_DeleteAfter := a, pk_ID := i, pk_Backend := b\<rparr>)"
| "is_id i \<Longrightarrow> key_of (PlacementRequestKey s i) ((parsed KeyPlacementRequest)\<lparr>pk_EventTime := s, pk_ID := i\<rparr>)"
| "is_id i \<Longrightarrow> is_id j \<Longrightarrow>
     key_of (RepackLineageKey i j) ((parsed KeyRepackLineage)\<lparr>pk_ID := i, pk_SecondID := j\<rparr>)"
| "is_id i \<Longrightarrow> key_of (PromotionEligibilityKey i) ((parsed KeyPromotionEligibility)\<lparr>pk_ID := i\<rparr>)"
| "key_of (AnalyticsFactKey f n) ((parsed KeyAnalyticsFact)\<lparr>pk_FSID := f, pk_Inode := n\<rparr>)"
| "\<not> reservedAnalyticsQueryPrefix (AnalyticsCacheKey i) \<Longrightarrow> is_id i \<Longrightarrow>
     key_of (AnalyticsCacheKey i) ((parsed KeyAnalyticsCache)\<lparr>pk_ID := i\<rparr>)"
| "key_of AnalyticsMetadataKey (parsed KeyAnalyticsMetadata)"
| "key_of AnalyticsBuildCheckpointKey (parsed KeyAnalyticsBuildCheckpoint)"
| "validAnalyticsDictionaryKind k \<Longrightarrow> d \<noteq> 0 \<Longrightarrow>
     key_of (AnalyticsDictionaryKey k d) ((parsed KeyAnalyticsDictionary)\<lparr>pk_Dictionary := k, pk_Ordinal := d\<rparr>)"
| "g \<noteq> 0 \<Longrightarrow> key_of (AnalyticsFactSegmentKey g) ((parsed KeyAnalyticsFactSegment)\<lparr>pk_Generation := g\<rparr>)"
| "g \<noteq> 0 \<Longrightarrow> key_of (AnalyticsSegmentMetadataKey g)
       ((parsed KeyAnalyticsSegmentMetadata)\<lparr>pk_Generation := g\<rparr>)"
| "e \<noteq> 0 \<Longrightarrow> key_of (AnalyticsManifestKey e) ((parsed KeyAnalyticsManifest)\<lparr>pk_Epoch := e\<rparr>)"
| "validAnalyticsDimension d \<Longrightarrow> g \<noteq> 0 \<Longrightarrow>
     key_of (AnalyticsDimensionIndexKey d v g)
       ((parsed KeyAnalyticsDimensionIndex)\<lparr>pk_Dimension := d, pk_Value := v, pk_Generation := g\<rparr>)"
| "g \<noteq> 0 \<Longrightarrow> key_of (AnalyticsResidencyKey f n g)
       ((parsed KeyAnalyticsResidency)\<lparr>pk_FSID := f, pk_Inode := n, pk_Generation := g\<rparr>)"
| "w \<noteq> 0 \<Longrightarrow> key_of (AnalyticsDerivedGenerationMarkerKey w)
       ((parsed KeyAnalyticsDerivedMarker)\<lparr>pk_ViewGeneration := w\<rparr>)"
| "c \<noteq> 0 \<Longrightarrow> key_of (AnalyticsDeltaKey c d)
       ((parsed KeyAnalyticsDelta)\<lparr>pk_Commit := c, pk_Ordinal := d\<rparr>)"
| "i \<noteq> replicate 32 0 \<Longrightarrow> c \<noteq> 0 \<Longrightarrow> is_id i \<Longrightarrow>
     key_of (AuthoritativeCrawlProofKey i c) ((parsed KeyAuthoritativeCrawlProof)\<lparr>pk_ID := i, pk_Commit := c\<rparr>)"
| "i \<noteq> replicate 32 0 \<Longrightarrow> f \<noteq> 0 \<Longrightarrow> n \<noteq> 0 \<Longrightarrow>
     g \<noteq> 0 \<Longrightarrow> is_id i \<Longrightarrow>
     key_of (AuthoritativeSourceBindingKey i f n g)
       ((parsed KeyAuthoritativeSourceBinding)\<lparr>pk_ID := i, pk_FSID := f, pk_Inode := n, pk_Generation := g\<rparr>)"
| "e \<noteq> 0 \<Longrightarrow> key_of (AnalyticsWatermarkKey e) ((parsed KeyAnalyticsWatermark)\<lparr>pk_Epoch := e\<rparr>)"
| "g \<noteq> 0 \<Longrightarrow> e \<noteq> 0 \<Longrightarrow> is_id i \<Longrightarrow>
     key_of (AnalyticsQueryResultKey i g e c)
       ((parsed KeyAnalyticsQueryResult)\<lparr>pk_ID := i, pk_Generation := g, pk_Epoch := e, pk_Commit := c\<rparr>)"
| "is_id i \<Longrightarrow> key_of (AnalyticsQueryHeatKey i) ((parsed KeyAnalyticsQueryHeat)\<lparr>pk_ID := i\<rparr>)"
| "is_id i \<Longrightarrow> key_of (AnalyticsQueryViewKey i b) ((parsed KeyAnalyticsQueryView)\<lparr>pk_ID := i, pk_Value := b\<rparr>)"
| "is_id i \<Longrightarrow> key_of (AnalyticsQueryJobKey i) ((parsed KeyAnalyticsQueryJob)\<lparr>pk_ID := i\<rparr>)"
| "validAnalyticsGranularity g \<Longrightarrow> validPackTier r \<Longrightarrow>
     key_of (GrowthTimeKey g t r) ((parsed KeyGrowthTime)\<lparr>pk_Granularity := g, pk_Tier := r, pk_Timestamp := t\<rparr>)"
| "path = normalizeAnalyticsPath path0 \<Longrightarrow> path \<noteq> [] \<Longrightarrow>
     normalizeAnalyticsPath path = path \<Longrightarrow> length path \<le> MaxPathIndexPathBytes \<Longrightarrow>
     validAnalyticsGranularity g \<Longrightarrow>
     key_of (GrowthPathKey path0 g t) ((parsed KeyGrowthPath)\<lparr>pk_Path := path, pk_Granularity := g, pk_Timestamp := t\<rparr>)"
| "key_of (UserSummaryKey u) ((parsed KeyUserSummary)\<lparr>pk_UID := u\<rparr>)"
| "key_of (GroupSummaryKey g) ((parsed KeyGroupSummary)\<lparr>pk_GID := g\<rparr>)"
| "\<not> (r < AnalyticsLive \<or> r > AnalyticsExpired) \<Longrightarrow>
     key_of (UserStatsKey u r) ((parsed KeyUserStats)\<lparr>pk_UID := u, pk_Residency := r\<rparr>)"
| "\<not> (r < AnalyticsLive \<or> r > AnalyticsExpired) \<Longrightarrow>
     key_of (GroupStatsKey g r) ((parsed KeyGroupStats)\<lparr>pk_GID := g, pk_Residency := r\<rparr>)"
| "validAnalyticsGranularity g \<Longrightarrow>
     key_of (UserChurnKey u g t) ((parsed KeyUserChurn)\<lparr>pk_UID := u, pk_Granularity := g, pk_Timestamp := t\<rparr>)"
| "key_of (UserInodeKey u f n) ((parsed KeyUserInode)\<lparr>pk_UID := u, pk_FSID := f, pk_Inode := n\<rparr>)"
| "is_id i \<Longrightarrow> key_of (UserBlobKey u i) ((parsed KeyUserBlob)\<lparr>pk_UID := u, pk_ID := i\<rparr>)"
| "g \<noteq> 0 \<Longrightarrow> is_id i \<Longrightarrow>
     key_of (UserBlobContributionKey u i f n g d)
       ((parsed KeyUserBlobContribution)\<lparr>pk_UID := u, pk_ID := i, pk_FSID := f, pk_Inode := n, pk_Generation := g, pk_Ordinal := d\<rparr>)"
| "key_of NextEventSequenceKey (parsed KeyNextEventSequence)"
| "key_of HistoryRawFloorKey (parsed KeyHistoryRawFloor)"
| "key_of HistoryEnabledAtKey (parsed KeyHistoryEnabledAt)"
| "key_of NextRevisionKey (parsed KeyNextRevision)"
| "key_of NextExportSequenceKey (parsed KeyNextExportSequence)"
| "key_of key p \<Longrightarrow> isAnalyticsDerivedKind (pk_Kind p) \<Longrightarrow> pk_ViewGeneration p = 0 \<Longrightarrow>
     w \<noteq> 0 \<Longrightarrow>
     key_of (AnalyticsDerivedKey w key) (p\<lparr>pk_ViewGeneration := w\<rparr>)"

lemmas key_defs = idKey_def inodeKey_def revisionKey_def analyticsUint64Key_def analyticsUint32Key_def analyticsStatsKey_def is_id_def
  idSize_def AnalyticsDerivedPrefix_def
  BlobKey_def PackKey_def SnapshotKey_def ReferenceCountKey_def SnapshotCommitKey_def PathVersionKey_def 
  CurrentInodeKey_def CurrentDirectoryKey_def InodeRevisionKey_def DirectoryRevisionKey_def HardlinkRefsKey_def 
  ContentManifestKey_def ReverseManifestKey_def ReverseInodeKey_def GarbageCollectionKey_def CrawlDebtKey_def 
  ImportCheckpointKey_def SnapshotImportCheckpointKey_def LegacyImportReceiptKey_def ExportCheckpointKey_def 
  ExportIndexCheckpointKey_def PackAggregateKey_def TierAggregateKey_def PackHistoryKey_def PackHistoryBucketKey_def 
  PackPlacementKey_def VerificationStateKey_def VerificationEventKey_def UIDExclusionPolicyKey_def 
  DeletionCertificateKey_def BackendPackKey_def PlacementDeleteQueueKey_def PlacementRequestKey_def RepackLineageKey_def 
  PromotionEligibilityKey_def AnalyticsFactKey_def AnalyticsCacheKey_def AnalyticsMetadataKey_def 
  AnalyticsBuildCheckpointKey_def AnalyticsDictionaryKey_def AnalyticsFactSegmentKey_def AnalyticsSegmentMetadataKey_def 
  AnalyticsManifestKey_def AnalyticsDimensionIndexKey_def AnalyticsResidencyKey_def 
  AnalyticsDerivedGenerationMarkerKey_def AnalyticsDeltaKey_def AuthoritativeCrawlProofKey_def 
  AuthoritativeSourceBindingKey_def AnalyticsWatermarkKey_def AnalyticsQueryResultKey_def AnalyticsQueryHeatKey_def 
  AnalyticsQueryViewKey_def AnalyticsQueryJobKey_def GrowthTimeKey_def GrowthPathKey_def UserSummaryKey_def 
  GroupSummaryKey_def UserStatsKey_def GroupStatsKey_def UserChurnKey_def UserInodeKey_def UserBlobKey_def 
  UserBlobContributionKey_def NextEventSequenceKey_def HistoryRawFloorKey_def HistoryEnabledAtKey_def NextRevisionKey_def 
  NextExportSequenceKey_def

lemmas parse_defs = analyticsKeyCodec_parse_def parseAnalyticsDerivedKey_def parseAnalyticsCoreKey_def parseAnalyticsQueryKey_def
  parseAnalyticsQueryResultKey_def blobKeyCodec_parse_def contentKeyCodec_parse_def directoryKeyCodec_parse_def growthKeyCodec_parse_def
  parseGrowthTimeKey_def hardlinkKeyCodec_parse_def inodeKeyCodec_parse_def metadataKeyCodec_parse_def packKeyCodec_parse_def
  parsePackHistoryBucketKey_def crawlKeyCodec_parse_def reverseKeyCodec_parse_def snapshotKeyCodec_parse_def userKeyCodec_parse_def
  parseUserBlobContributionKey_def verificationKeyCodec_parse_def

section \<open>Termination\<close>

text \<open>A codec calls the parser only for a shorter key.\<close>

lemma codec_parse_cong:
  assumes "\<And>k. length k < length key \<Longrightarrow> f k = g k"
  shows "codec_parse f codec key = codec_parse g codec key"
proof (cases codec)
  case analyticsKeyCodec
  have "parseAnalyticsDerivedKey f key = parseAnalyticsDerivedKey g key" if "length key \<ge> 13"
  proof -
    have "f (drop 13 key) = g (drop 13 key)" using that by (intro assms) auto
    then show ?thesis by (simp add: parseAnalyticsDerivedKey_def Let_def)
  qed
  then show ?thesis using analyticsKeyCodec by (simp add: codec_parse_def analyticsKeyCodec_parse_def)
qed (simp_all add: codec_parse_def)

lemma ParseKey_fuel_enough: "length key < n \<Longrightarrow> length key < m \<Longrightarrow> ParseKey_fuel n key = ParseKey_fuel m key"
proof (induction "length key" arbitrary: key n m rule: less_induct)
  case less
  obtain n' m' where n: "n = Suc n'" "m = Suc m'" using less.prems by (cases n; cases m) auto
  have "codec_parse (ParseKey_fuel n') codec key = codec_parse (ParseKey_fuel m') codec key" for codec
    using less.prems n by (intro codec_parse_cong less.hyps) simp_all
  then show ?case by (simp add: n)
qed

lemma ParseKey_rec: "ParseKey key = rbind (codecForKey key) (\<lambda>codec. codec_parse ParseKey codec key)"
proof -
  have "codec_parse (ParseKey_fuel (length key)) codec key = codec_parse ParseKey codec key" for codec
    unfolding ParseKey_def by (intro codec_parse_cong ParseKey_fuel_enough) auto
  then show ?thesis by (simp add: ParseKey_def)
qed

definition returns :: "ParsedKey result \<Rightarrow> bool" where
  "returns r \<longleftrightarrow> r \<noteq> Inl Diverges"

definition option_returns :: "ParsedKey result option \<Rightarrow> bool" where
  "option_returns x \<longleftrightarrow> x \<noteq> Some (Inl Diverges)"

lemma returns_basic: "returns (Inr p)" "returns malformedKey" "returns (namedMalformedKey m)" "option_returns None"
  by (simp_all add: returns_def option_returns_def malformedKey_def namedMalformedKey_def)

lemma returns_if: "returns a \<Longrightarrow> returns b \<Longrightarrow> returns (if c then a else b)" "option_returns v \<Longrightarrow> option_returns w \<Longrightarrow> option_returns (if c then v else w)"
  by simp_all

lemma returns_let: "(\<And>x. returns (f x)) \<Longrightarrow> returns (let x = y in f x)" "(\<And>x. option_returns (h x)) \<Longrightarrow> option_returns (let x = y in h x)"
  unfolding Let_def by (assumption | blast)+

lemma returns_Some: "returns a \<Longrightarrow> option_returns (Some a)"
  by (simp add: returns_def option_returns_def)

lemma returns_case: "returns a \<Longrightarrow> (\<And>x. returns (g x)) \<Longrightarrow> returns (case z of None \<Rightarrow> a | Some x \<Rightarrow> g x)"
  by (cases z) simp_all

lemma returns_or: "option_returns v \<Longrightarrow> returns a \<Longrightarrow> returns (case v of None \<Rightarrow> a | Some r \<Rightarrow> r)"
  by (cases v) (simp_all add: returns_def option_returns_def)

lemmas returns_intros = returns_basic returns_if returns_let returns_Some returns_case

lemma parsers_return:
  "returns (blobKeyCodec_parse key)" "returns (contentKeyCodec_parse key)" "returns (directoryKeyCodec_parse key)"
  "returns (growthKeyCodec_parse key)" "returns (hardlinkKeyCodec_parse key)" "returns (inodeKeyCodec_parse key)"
  "returns (metadataKeyCodec_parse key)" "returns (packKeyCodec_parse key)" "returns (crawlKeyCodec_parse key)"
  "returns (reverseKeyCodec_parse key)" "returns (snapshotKeyCodec_parse key)" "returns (userKeyCodec_parse key)"
  "returns (verificationKeyCodec_parse key)" "option_returns (parseAnalyticsCoreKey key)" "option_returns (parseAnalyticsQueryKey key)"
  unfolding parse_defs parseGrowthPathKey_def parsePathVersionKey_def by (intro returns_intros)+

lemma ParseKey_returns: "returns (ParseKey key)"
proof (induction "length key" arbitrary: key rule: less_induct)
  case less
  have "returns (parseAnalyticsDerivedKey ParseKey key)" if "length key \<ge> 13"
  proof -
    have "returns (ParseKey (drop 13 key))" using that by (intro less) auto
    then show ?thesis unfolding parseAnalyticsDerivedKey_def Let_def
      by (auto simp: returns_def namedMalformedKey_def split: sum.split)
  qed
  moreover have "returns (case parseAnalyticsCoreKey key of Some r \<Rightarrow> r
     | None \<Rightarrow> case parseAnalyticsQueryKey key of Some r \<Rightarrow> r
     | None \<Rightarrow> case parseAggregate key of Some kind \<Rightarrow> Inr ((parsed KeyPackAggregate)\<lparr>pk_Aggregate := kind\<rparr>)
     | None \<Rightarrow> case parseTierAggregate key of Some tier \<Rightarrow> Inr ((parsed KeyTierAggregate)\<lparr>pk_Tier := tier\<rparr>)
     | None \<Rightarrow> malformedKey)"
    by (intro returns_or parsers_return returns_case returns_basic)
  ultimately have "returns (analyticsKeyCodec_parse ParseKey key)" unfolding analyticsKeyCodec_parse_def by simp
  then have "returns (codec_parse ParseKey codec key)" for codec
    using parsers_return [of key] by (cases codec) (simp_all add: codec_parse_def)
  then show ?case unfolding ParseKey_rec [of key] by (auto simp: returns_def codecForKey_def split: list.split option.split)
qed

section \<open>Keys that are built are parsed\<close>

lemma complete_malformed: "ParseKey (str ''complete'') = malformedKey"
  by (simp add: ParseKey_rec codecForKey_def keyCodecs_def str_def codec_parse_def contentKeyCodec_parse_def)

lemmas parse_simps = key_defs parse_defs str_def bslice_def codecForKey_def keyCodecs_def codec_parse_def nth_append

lemma parse_PathVersionKey:
  assumes "path = TrimPrefix path0 (str ''/'')" "path \<noteq> []" "length path \<le> MaxPathIndexPathBytes" "0 \<notin> set path" "v \<noteq> 0"
  shows "ParseKey (PathVersionKey f path0 v) = Inr ((parsed KeyPathVersion)\<lparr>pk_FSID := f, pk_Path := path, pk_Revision := v\<rparr>)"
proof -
  let ?key = "str ''pv:'' @ put_u32 f @ path @ [0] @ put_u64 v"
  have nth: "?key ! i = (path @ [0]) ! (i - 7)" if "7 \<le> i" "i < 8 + length path" for i
    using that by (auto simp: nth_append str_def nth_Cons' numeral_eq_Suc)
  have "find (\<lambda>offset. ?key ! offset = 0) [7..<8 + length path] = Some (7 + length path)"
    unfolding find_Some_iff using assms(4) nth
    by (intro exI [of _ "length path"]) (auto simp: nth_append in_set_conv_nth simp del: append_Cons)
  moreover have "length ?key - 8 = 8 + length path" by simp
  ultimately have "parsePathVersionKey ?key = Inr ((parsed KeyPathVersion)\<lparr>pk_FSID := f, pk_Path := path, pk_Revision := v\<rparr>)"
    using assms(2-5) unfolding parsePathVersionKey_def by (simp add: bslice_def)
  moreover have "ParseKey ?key = parsePathVersionKey ?key"
    using assms(2) by (simp add: ParseKey_rec codecForKey_def keyCodecs_def codec_parse_def packKeyCodec_parse_def str_def Suc_le_eq)
  ultimately show ?thesis using assms by (simp add: PathVersionKey_def Let_def)
qed

lemma parse_GrowthPathKey:
  assumes "path = normalizeAnalyticsPath path0" "path \<noteq> []" "normalizeAnalyticsPath path = path" "length path \<le> MaxPathIndexPathBytes"
    "validAnalyticsGranularity g"
  shows "ParseKey (GrowthPathKey path0 g t) = Inr ((parsed KeyGrowthPath)\<lparr>pk_Path := path, pk_Granularity := g, pk_Timestamp := t\<rparr>)"
proof -
  let ?key = "str ''g:path:'' @ put_u16 (of_nat (length path)) @ path @ [g] @ put_u64 (flip_sign t)"
  have l: "unat (of_nat (length path) :: u16) = length path" using assms(4) by (simp add: unat_of_nat MaxPathIndexPathBytes_def)
  define key where "key = ?key"
  have k: "u16_be (bslice 7 9 key) = of_nat (length path)" "bslice 9 (9 + length path) key = path" "key ! (9 + length path) = g"
    "drop (10 + length path) key = put_u64 (flip_sign t)" "length key = 7 + 2 + length path + 1 + 8"
    by (simp_all add: key_def bslice_def nth_append)
  have "parseGrowthPathKey key = Inr ((parsed KeyGrowthPath)\<lparr>pk_Path := path, pk_Granularity := g, pk_Timestamp := t\<rparr>)"
    unfolding parseGrowthPathKey_def k(1) l Let_def k using assms(2-5) by simp
  then have "parseGrowthPathKey ?key = Inr ((parsed KeyGrowthPath)\<lparr>pk_Path := path, pk_Granularity := g, pk_Timestamp := t\<rparr>)"
    by (simp only: key_def)
  moreover have "ParseKey ?key = parseGrowthPathKey ?key"
    using assms(2) by (simp add: ParseKey_rec codecForKey_def keyCodecs_def codec_parse_def growthKeyCodec_parse_def str_def Suc_le_eq)
  ultimately show ?thesis using assms by (simp add: GrowthPathKey_def Let_def)
qed

lemma parse_AnalyticsDerivedKey:
  assumes "ParseKey key = Inr p" "isAnalyticsDerivedKind (pk_Kind p)" "pk_ViewGeneration p = 0" "w \<noteq> 0"
  shows "ParseKey (AnalyticsDerivedKey w key) = Inr (p\<lparr>pk_ViewGeneration := w\<rparr>)"
proof -
  have "key \<noteq> str ''complete''" using assms(1) complete_malformed by (auto simp: malformedKey_def)
  then have "parseAnalyticsDerivedKey ParseKey (str ''av1:'' @ put_u64 w @ str '':'' @ key) = Inr (p\<lparr>pk_ViewGeneration := w\<rparr>)"
    using assms by (simp add: parseAnalyticsDerivedKey_def str_def bslice_def)
  then have "ParseKey (str ''av1:'' @ put_u64 w @ str '':'' @ key) = Inr (p\<lparr>pk_ViewGeneration := w\<rparr>)"
    by (subst ParseKey_rec) (simp add: codecForKey_def keyCodecs_def codec_parse_def analyticsKeyCodec_parse_def str_def nth_append)
  then show ?thesis using assms by (simp add: AnalyticsDerivedKey_def isAnalyticsDerivedKey_def)
qed

lemma parse_aggregates:
  "k \<in> fst ` set aggregateNames \<Longrightarrow> ParseKey (PackAggregateKey k) = Inr ((parsed KeyPackAggregate)\<lparr>pk_Aggregate := k\<rparr>)"
  "t \<in> fst ` set tierAggregateNames \<Longrightarrow> ParseKey (TierAggregateKey t) = Inr ((parsed KeyTierAggregate)\<lparr>pk_Tier := t\<rparr>)"
  by (subst ParseKey_rec, auto simp: aggregateNames_def tierAggregateNames_def parseAggregate_def parseTierAggregate_def parse_simps)+

lemma ParseKey_of: "key_of key p \<Longrightarrow> ParseKey key = Inr p"
proof (induction rule: key_of.induct)
  case (6 path path0 v f)
  then show ?case by (intro parse_PathVersionKey) auto
next
  case (15 t i)
  then show ?case by (elim disjE; subst ParseKey_rec) (simp_all add: parse_simps)
next
  case (22 k)
  then show ?case by (rule parse_aggregates)
next
  case (23 t)
  then show ?case by (rule parse_aggregates)
next
  case (56 path path0 g t)
  then show ?case by (intro parse_GrowthPathKey) auto
next
  case (70 key p w)
  then show ?case by (intro parse_AnalyticsDerivedKey) auto
qed ((subst ParseKey_rec, simp add: parse_simps Let_def)+)

section \<open>Keys that are parsed were built\<close>

lemma key_ofI: "key_of k p \<Longrightarrow> k = key \<Longrightarrow> key_of key p"
  by simp

lemmas key_of_eqI = key_of.intros [THEN key_ofI]

lemmas cat_simps = cat_prefix cat_slice cat_slice_append cat_byte cat_last

lemmas not_malformed = malformedKey_def namedMalformedKey_def

lemma str_colon: "str '':'' = [58]"
  by (simp add: str_def)

lemma blob_of: "blobKeyCodec_parse key = Inr p \<Longrightarrow> key_of key p"
  by (auto simp: blobKeyCodec_parse_def not_malformed key_defs cat_simps str_colon split: if_splits intro!: key_of_eqI)

lemma content_of: "contentKeyCodec_parse key = Inr p \<Longrightarrow> key_of key p"
  by (auto simp: contentKeyCodec_parse_def not_malformed key_defs cat_simps str_colon split: if_splits intro!: key_of_eqI)

lemma directory_of: "directoryKeyCodec_parse key = Inr p \<Longrightarrow> key_of key p"
  by (auto simp: directoryKeyCodec_parse_def not_malformed key_defs cat_simps str_colon split: if_splits intro!: key_of_eqI)

lemma hardlink_of: "hardlinkKeyCodec_parse key = Inr p \<Longrightarrow> key_of key p"
  by (auto simp: hardlinkKeyCodec_parse_def not_malformed key_defs cat_simps str_colon split: if_splits intro!: key_of_eqI)

lemma inode_of: "inodeKeyCodec_parse key = Inr p \<Longrightarrow> key_of key p"
  by (auto simp: inodeKeyCodec_parse_def not_malformed key_defs cat_simps str_colon split: if_splits intro!: key_of_eqI)

lemma crawl_of: "crawlKeyCodec_parse key = Inr p \<Longrightarrow> key_of key p"
  by (auto simp: crawlKeyCodec_parse_def not_malformed key_defs cat_simps str_colon split: if_splits intro!: key_of_eqI)

lemma reverse_of: "reverseKeyCodec_parse key = Inr p \<Longrightarrow> key_of key p"
  by (auto simp: reverseKeyCodec_parse_def not_malformed key_defs cat_simps str_colon split: if_splits intro!: key_of_eqI)

lemma snapshot_of: "snapshotKeyCodec_parse key = Inr p \<Longrightarrow> key_of key p"
  by (auto simp: snapshotKeyCodec_parse_def not_malformed key_defs cat_simps str_colon split: if_splits intro!: key_of_eqI)

lemma verification_of: "verificationKeyCodec_parse key = Inr p \<Longrightarrow> key_of key p"
  by (auto simp: verificationKeyCodec_parse_def not_malformed key_defs cat_simps str_colon split: if_splits intro!: key_of_eqI)

lemma metadata_of: "metadataKeyCodec_parse key = Inr p \<Longrightarrow> key_of key p"
  by (auto simp: metadataKeyCodec_parse_def not_malformed key_defs cat_simps split: if_splits intro!: key_of_eqI)

lemma user_of: "userKeyCodec_parse key = Inr p \<Longrightarrow> key_of key p"
  by (auto simp: userKeyCodec_parse_def parseUserBlobContributionKey_def Let_def not_malformed key_defs cat_simps split: if_splits intro!: key_of_eqI)

lemma path_version_of:
  assumes "parsePathVersionKey key = Inr p" "take 3 key = str ''pv:''"
  shows "key_of key p"
proof -
  obtain n where n: "find (\<lambda>offset. key ! offset = 0) [7..<length key - 8] = Some n"
    and n9: "\<not> (n \<le> 7 \<or> n \<noteq> length key - 9)"
    and r: "u64_be (drop (n + 1) key) \<noteq> 0" "length (bslice 7 n key) \<le> MaxPathIndexPathBytes"
    and p: "p = (parsed KeyPathVersion)\<lparr>pk_FSID := u32_be (bslice 3 7 key), pk_Path := bslice 7 n key, pk_Revision := u64_be (drop (n + 1) key)\<rparr>"
    using assms(1) by (auto simp: parsePathVersionKey_def not_malformed Let_def split: option.splits if_splits)
  from n obtain i where i: "i < length key - 15" "key ! (7 + i) = 0" "n = 7 + i" "\<forall>j < i. key ! (7 + j) \<noteq> 0"
    unfolding find_Some_iff by auto
  let ?path = "bslice 7 n key"
  have l: "length key = n + 9" using n9 i(1) by auto
  have "0 \<notin> set ?path" using i l by (auto simp: in_set_conv_nth bslice_def)
  moreover have "?path \<noteq> []" using n9 l by (auto simp: bslice_def)
  ultimately have "key_of (PathVersionKey (u32_be (bslice 3 7 key)) (str ''/'' @ ?path) (u64_be (drop (n + 1) key))) p"
    unfolding p using r by (intro key_of.intros) (simp_all add: TrimPrefix_def str_def)
  moreover have "PathVersionKey (u32_be (bslice 3 7 key)) (str ''/'' @ ?path) (u64_be (drop (n + 1) key)) = key"
  proof -
    have "drop (n + 1) key = drop (Suc n) key" "0 # drop (Suc n) key = drop n key" using Cons_nth_drop_Suc [of n key] i l by auto
    then show ?thesis using \<open>0 \<notin> set ?path\<close> \<open>?path \<noteq> []\<close> r(2) l n9 assms(2)
      by (simp add: PathVersionKey_def TrimPrefix_def cat_simps)
  qed
  ultimately show ?thesis by simp
qed

lemma pack_of: "packKeyCodec_parse key = Inr p \<Longrightarrow> key_of key p"
  by (auto simp: packKeyCodec_parse_def parsePackHistoryBucketKey_def Let_def not_malformed key_defs cat_simps str_colon
      split: if_splits intro!: key_of_eqI intro: path_version_of)

lemma growth_path_of:
  assumes "parseGrowthPathKey key = Inr p" "take 7 key = str ''g:path:''"
  shows "key_of key p"
proof -
  define n where "n = unat (u16_be (bslice 7 9 key))"
  let ?path = "bslice 9 (9 + n) key" and ?g = "key ! (9 + n)" and ?t = "flip_sign (u64_be (drop (10 + n) key))"
  have n: "n \<noteq> 0" "n \<le> MaxPathIndexPathBytes" "length key = 7 + 2 + n + 1 + 8" "normalizeAnalyticsPath ?path = ?path"
      "validAnalyticsGranularity ?g"
    and p: "p = (parsed KeyGrowthPath)\<lparr>pk_Path := ?path, pk_Granularity := ?g, pk_Timestamp := ?t\<rparr>"
    using assms(1) unfolding parseGrowthPathKey_def n_def [symmetric]
    by (auto simp: not_malformed Let_def split: if_splits)
  have l: "length ?path = n" using n(3) by simp
  have "?path \<noteq> []"
  proof
    assume "?path = []"
    with l n(1) show False by simp
  qed
  then have "key_of (GrowthPathKey ?path ?g ?t) p" unfolding p using n l by (intro key_of.intros) auto
  moreover have "of_nat n = u16_be (bslice 7 9 key)" by (simp add: n_def)
  then have "put_u16 (of_nat n) = bslice 7 9 key" using n(3) by simp
  moreover have "?g # drop (10 + n) key = drop (9 + n) key" using Cons_nth_drop_Suc [of "9 + n" key] n(3) by simp
  ultimately show ?thesis using n l assms(2) \<open>?path \<noteq> []\<close> by (simp add: GrowthPathKey_def Let_def cat_simps)
qed

lemma gc_target: "take 5 key = str ''gc:b:'' \<Longrightarrow> key ! 3 = 98" "take 5 key = str ''gc:p:'' \<Longrightarrow> key ! 3 = 112"
  using nth_take [of 3 5 key] by (simp_all add: str_def)

lemma growth_of: "growthKeyCodec_parse key = Inr p \<Longrightarrow> key_of key p"
  by (auto simp: growthKeyCodec_parse_def parseGrowthTimeKey_def Let_def not_malformed key_defs cat_simps gc_target
      split: if_splits intro!: key_of_eqI intro: growth_path_of)

lemma derived_of:
  assumes "parseAnalyticsDerivedKey ParseKey key = Inr p" "take 4 key = str ''av1:''" "key ! 12 = 58" "13 \<le> length key"
    and inner: "\<And>q. ParseKey (drop 13 key) = Inr q \<Longrightarrow> key_of (drop 13 key) q"
  shows "key_of key p"
proof -
  let ?w = "u64_be (bslice 4 12 key)"
  have cat: "str ''av1:'' @ put_u64 ?w @ str '':'' @ drop 13 key = key" using assms(2-4) by (simp add: str_colon cat_simps)
  have w: "?w \<noteq> 0" using assms(1) by (auto simp: parseAnalyticsDerivedKey_def not_malformed Let_def split: if_splits)
  show ?thesis
  proof (cases "drop 13 key = str ''complete''")
    case True
    then have "p = (parsed KeyAnalyticsDerivedMarker)\<lparr>pk_ViewGeneration := ?w\<rparr>" using assms(1) w
      by (simp add: parseAnalyticsDerivedKey_def Let_def)
    moreover have "AnalyticsDerivedGenerationMarkerKey ?w = key" using w cat True by (simp add: key_defs)
    ultimately show ?thesis using w by (auto intro: key_of_eqI)
  next
    case False
    then obtain q where q: "ParseKey (drop 13 key) = Inr q" "pk_ViewGeneration q = 0" "isAnalyticsDerivedKind (pk_Kind q)"
      "p = q\<lparr>pk_ViewGeneration := ?w\<rparr>"
      using assms(1) w by (auto simp: parseAnalyticsDerivedKey_def Let_def not_malformed split: sum.splits if_splits)
    have "key_of (AnalyticsDerivedKey ?w (drop 13 key)) p" unfolding q(4) by (intro key_of.intros inner [OF q(1)] q w)
    moreover have "AnalyticsDerivedKey ?w (drop 13 key) = key" using q w cat by (simp add: AnalyticsDerivedKey_def isAnalyticsDerivedKey_def)
    ultimately show ?thesis by simp
  qed
qed

lemma analytics_core_of: "parseAnalyticsCoreKey key = Some (Inr p) \<Longrightarrow> key_of key p"
  by (auto simp: parseAnalyticsCoreKey_def Let_def not_malformed key_defs cat_simps split: if_splits intro!: key_of_eqI)

lemma analytics_query_of: "parseAnalyticsQueryKey key = Some (Inr p) \<Longrightarrow> key_of key p"
  by (auto simp: parseAnalyticsQueryKey_def parseAnalyticsQueryResultKey_def Let_def not_malformed key_defs cat_simps
      split: if_splits intro!: key_of_eqI)

lemma aggregate_of: "parseAggregate key = Some k \<Longrightarrow> key_of key ((parsed KeyPackAggregate)\<lparr>pk_Aggregate := k\<rparr>)"
  by (auto simp: parseAggregate_def aggregateNames_def PackAggregateKey_def split: if_splits intro!: key_of_eqI)

lemma tier_of: "parseTierAggregate key = Some k \<Longrightarrow> key_of key ((parsed KeyTierAggregate)\<lparr>pk_Tier := k\<rparr>)"
  by (auto simp: parseTierAggregate_def tierAggregateNames_def TierAggregateKey_def split: if_splits intro!: key_of_eqI)

lemma of_ParseKey: "ParseKey key = Inr p \<Longrightarrow> key_of key p"
proof (induction "length key" arbitrary: key p rule: less_induct)
  case less
  from less.prems obtain codec where c: "codecForKey key = Inr codec" "codec_parse ParseKey codec key = Inr p"
    by (subst (asm) ParseKey_rec) (auto simp: rbind_Inr_iff)
  show ?case
  proof (cases codec)
    case analyticsKeyCodec
    then have a: "analyticsKeyCodec_parse ParseKey key = Inr p" using c(2) by (simp add: codec_parse_def)
    have inner: "13 \<le> length key \<Longrightarrow> ParseKey (drop 13 key) = Inr q \<Longrightarrow> key_of (drop 13 key) q" for q
      by (rule less.hyps) simp_all
    show ?thesis using a derived_of [OF _ _ _ _ inner, of p] analytics_core_of [of key] analytics_query_of [of key] aggregate_of [of key] tier_of [of key]
      by (auto simp: analyticsKeyCodec_parse_def not_malformed split: if_splits option.splits)
  qed (use c(2) in \<open>auto simp: codec_parse_def intro: blob_of content_of directory_of growth_of hardlink_of inode_of metadata_of pack_of
        crawl_of reverse_of snapshot_of user_of verification_of\<close>)
qed

section \<open>Order of keys\<close>

text \<open>Keys are compared bytewise, as \<^verbatim>\<open>bytes.Compare\<close> and the database do.\<close>

lemma append_less:
  "length xs = length ys \<Longrightarrow> (xs @ us < ys @ (vs :: 'a::linorder list)) = (xs < ys \<or> xs = ys \<and> us < vs)"
  by (induction xs ys rule: list_induct2) auto

lemma be_bytes_Suc: "be_bytes (Suc n) v = be_bytes n (v div 256) @ [of_nat v]"
  by (simp add: be_bytes_def)

lemma be_bytes_eq: "a < 256 ^ n \<Longrightarrow> b < 256 ^ n \<Longrightarrow> be_bytes n a = be_bytes n b \<longleftrightarrow> a = b"
  by (metis be_val_be_bytes mod_less)

lemma digits_less: "r < 256 \<Longrightarrow> r' < 256 \<Longrightarrow> (q < q' \<or> q = q' \<and> r < r') \<longleftrightarrow> q * 256 + r < q' * 256 + (r' :: nat)"
  by (cases q q' rule: linorder_cases) linarith+

lemma be_bytes_less: "a < 256 ^ n \<Longrightarrow> b < 256 ^ n \<Longrightarrow> be_bytes n a < be_bytes n b \<longleftrightarrow> a < b"
proof (induction n arbitrary: a b)
  case (Suc n)
  have d: "a div 256 < 256 ^ n" "b div 256 < 256 ^ n" using Suc.prems by (auto simp: less_mult_imp_div_less mult.commute)
  have "([of_nat a] :: bytes) < [of_nat b] \<longleftrightarrow> a mod 256 < b mod 256"
    by (simp add: word_less_nat_alt unat_of_nat_u8)
  then have "be_bytes (Suc n) a < be_bytes (Suc n) b \<longleftrightarrow> a div 256 < b div 256 \<or> a div 256 = b div 256 \<and> a mod 256 < b mod 256"
    using Suc.IH [OF d] be_bytes_eq [OF d] by (simp add: be_bytes_Suc append_less)
  also have "\<dots> \<longleftrightarrow> a < b"
    by (simp only: digits_less [of "a mod 256" "b mod 256"] mod_less_divisor div_mult_mod_eq zero_less_numeral)
  finally show ?case .
qed (simp add: be_bytes_def)

lemma put_u64_less: "put_u64 a < put_u64 b \<longleftrightarrow> a < b"
  using be_bytes_less [of "unat a" 8 "unat b"] unat_lt2p [of a] unat_lt2p [of b] by (simp add: put_u64_def word_less_nat_alt)

lemma put_u64_eq: "put_u64 a = put_u64 b \<longleftrightarrow> a = b"
  using be_put(3) by metis

text \<open>Flipping the sign bit adds the bias that turns the signed order into the unsigned one.\<close>

lemma flip_sign_add: "flip_sign t = t + push_bit 63 1"
proof -
  define m :: "64 word" where "m = push_bit 63 1"
  have m: "bit m n \<longleftrightarrow> n = 63" for n unfolding m_def bit_push_bit_iff by (auto simp: bit_1_iff)
  have add: "u + m = u OR m" if "\<not> bit u 63" for u :: "64 word" using that by (intro disjunctive_add) (auto simp: m)
  have mm: "m + m = 0" by (simp add: m_def push_bit_eq_mult)
  show ?thesis
  proof (cases "bit t 63")
    case False
    then have "t OR m = t XOR m" by (intro bit_word_eqI) (auto simp: bit_or_iff bit_xor_iff m)
    then show ?thesis using add [OF False] unfolding flip_sign_def m_def [symmetric] by simp
  next
    case True
    then have "(t XOR m) OR m = t" by (intro bit_word_eqI) (auto simp: bit_or_iff bit_xor_iff m)
    moreover have "\<not> bit (t XOR m) 63" using True by (simp add: bit_xor_iff m)
    ultimately have "(t XOR m) + m + m = t + m" using add by simp
    then show ?thesis using mm unfolding flip_sign_def m_def [symmetric] by (simp add: add.assoc)
  qed
qed

lemma uint_flip_sign: "uint (flip_sign t) = sint t + 2 ^ 63"
proof -
  have "uint (flip_sign t) = take_bit 64 (uint t + 2 ^ 63)"
    by (simp add: flip_sign_add uint_word_ariths push_bit_eq_mult take_bit_eq_mod)
  also have "\<dots> = signed_take_bit 63 (uint t) + 2 ^ 63"
    using signed_take_bit_eq_take_bit_shift [of 63 "uint t"] by simp
  finally show ?thesis by (simp add: sint_uint)
qed

lemma flip_sign_less: "flip_sign a < flip_sign b \<longleftrightarrow> sint a < sint b"
  by (simp add: word_less_def uint_flip_sign)

section \<open>Main results\<close>


text \<open>C35: Parsing always ends, although the parser calls itself on the key inside a derived key: fuel beyond the length of the
  key never changes the result, and the result is a key or an error.\<close>

theorem ParseKey_terminates: "ParseKey_fuel (Suc (length key) + n) key = ParseKey key \<and> ParseKey key \<noteq> Inl Diverges"
  using ParseKey_fuel_enough [of key "Suc (length key) + n" "Suc (length key)"] ParseKey_returns [of key]
  by (simp add: ParseKey_def returns_def)

text \<open>C36: The byte order of keys is the order of what they stand for: pack events sort by time, then sequence, then pack; the
  time prefix is a lower bound for exactly the events at or after that time; growth buckets of one granularity sort by their
  signed time, times before 1970 included.\<close>

theorem key_order:
  assumes "validAnalyticsGranularity g" and "validPackTier r" and "validPackTier r'"
  shows "(PackHistoryKey s q i < PackHistoryKey s' q' i' \<longleftrightarrow> s < s' \<or> s = s' \<and> (q < q' \<or> q = q' \<and> i < i'))
    \<and> (PackHistoryTimePrefix u \<le> PackHistoryKey s q i \<longleftrightarrow> u \<le> s)
    \<and> (GrowthTimeKey g t r < GrowthTimeKey g t' r' \<longleftrightarrow> sint t < sint t' \<or> t = t' \<and> r < r')"
proof -
  have "PackHistoryTimePrefix u \<le> PackHistoryKey s q i \<longleftrightarrow> u \<le> s"
    using append_less [of "put_u64 s" "put_u64 u" "put_u64 q @ i" "[]"]
    by (simp add: PackHistoryTimePrefix_def PackHistoryKey_def append_less put_u64_less not_less [symmetric] str_def)
  moreover have "flip_sign t = flip_sign t' \<longleftrightarrow> t = t'" by (metis flip_sign_flip)
  ultimately show ?thesis using assms
    by (simp add: PackHistoryKey_def GrowthTimeKey_def append_less put_u64_less put_u64_eq flip_sign_less)
qed

theorem key_order_witness:
  "GrowthTimeKey 1 (- 1) 2 < GrowthTimeKey 1 0 2 \<and> PackHistoryTimePrefix 6 \<le> PackHistoryKey 7 0 []"
  using key_order [of 1 2 2 7 0 "[]" 0 0 "[]" 6 "- 1" 0]
  by (simp add: validAnalyticsGranularity_def validPackTier_def)

text \<open>C37: A path whose last component ends in white space before a final slash yields a growth key that is not empty and that
  \<^verbatim>\<open>ParseKey\<close> rejects: the constructor trims white space before it trims slashes, and the parser expects a path that trimming leaves
  unchanged.\<close>

theorem GrowthPathKey_unparsable:
  "GrowthPathKey (str ''/a /'') AnalyticsGranularityWeek 0 \<noteq> []
   \<and> ParseKey (GrowthPathKey (str ''/a /'') AnalyticsGranularityWeek 0) = Inl (Wrap ''invalid growth path key'' ErrMalformed)"
proof -
  have n: "normalizeAnalyticsPath (str ''/a /'') = str ''/a ''" "normalizeAnalyticsPath (str ''/a '') = str ''/a''"
    by (simp_all add: normalizeAnalyticsPath_def TrimSpace_def Trim_slashes_def Contains_def strip_runes.simps space_runes_def str_def upt_rec)
  have k: "GrowthPathKey (str ''/a /'') AnalyticsGranularityWeek 0
      = str ''g:path:'' @ put_u16 3 @ str ''/a '' @ [1] @ put_u64 (flip_sign 0)"
    by (simp add: GrowthPathKey_def n MaxPathIndexPathBytes_def validAnalyticsGranularity_def) (simp add: str_def)
  have "parseGrowthPathKey (str ''g:path:'' @ put_u16 3 @ str ''/a '' @ [1] @ put_u64 (flip_sign 0))
      = Inl (Wrap ''invalid growth path key'' ErrMalformed)"
    by (simp add: parseGrowthPathKey_def bslice_def Let_def n MaxPathIndexPathBytes_def namedMalformedKey_def) (simp add: str_def)
  then show ?thesis unfolding k
    by (subst ParseKey_rec) (simp add: codecForKey_def keyCodecs_def codec_parse_def growthKeyCodec_parse_def str_def)
qed

end
