(* ===== verification/Schema_Codec.thy ===== *)
theory Schema_Codec
  imports Schema_Keys_Correct
begin

text \<open>
  The binary codec of database values, \<^verbatim>\<open>internal/index/schema/codec.go\<close>. An encoder is the bytes written so far; a decoder is
  the data and the read position, and a decoding step returns its value and the advanced decoder or an error. \<open>reads m v bs\<close> says that
  step \<open>m\<close> consumes exactly \<open>bs\<close> and yields \<open>v\<close>, wherever in the data it stands; it composes along \<open>dbind\<close>. The locale
  \<open>field_codec\<close> is the contract of a field's writer and reader; repeated fields are proved from it.
\<close>

section \<open>Model\<close>

definition Version :: u8 where [simp]: "Version = 0"

definition MaxEncodedValueBytes :: nat where
  "MaxEncodedValueBytes = 15 * 1024 * 1024"

definition maxFieldBytes :: nat where
  "maxFieldBytes = MaxEncodedValueBytes"

definition malformed :: "string \<Rightarrow> 'a result" where
  "malformed message = Inl (Wrap message ErrMalformed)"

type_synonym encoder = bytes

definition newEncoder :: encoder where
  "newEncoder = [Version]"

definition e_u8 :: "encoder \<Rightarrow> u8 \<Rightarrow> encoder" where
  "e_u8 e v = e @ [v]"

definition e_bool :: "encoder \<Rightarrow> bool \<Rightarrow> encoder" where
  "e_bool e v = (if v then e_u8 e 1 else e_u8 e 0)"

definition e_u32 :: "encoder \<Rightarrow> u32 \<Rightarrow> encoder" where
  "e_u32 e v = e @ put_u32 v"

definition e_u16 :: "encoder \<Rightarrow> u16 \<Rightarrow> encoder" where
  "e_u16 e v = e @ put_u16 v"

definition e_u64 :: "encoder \<Rightarrow> u64 \<Rightarrow> encoder" where
  "e_u64 e v = e @ put_u64 v"

definition e_i64 :: "encoder \<Rightarrow> i64 \<Rightarrow> encoder" where
  "e_i64 e v = e_u64 e v"

definition e_id :: "encoder \<Rightarrow> ID \<Rightarrow> encoder" where
  "e_id e v = e @ v"

definition e_bytes :: "encoder \<Rightarrow> bytes \<Rightarrow> encoder result" where
  "e_bytes e v = (if length v > maxFieldBytes \<or> length v > 2 ^ 32 - 1 then malformed ''field is too large''
     else Inr (e_u32 e (of_nat (length v)) @ v))"

definition e_string :: "encoder \<Rightarrow> bytes \<Rightarrow> encoder result" where
  "e_string e v = e_bytes e v"

definition e_finish :: "encoder \<Rightarrow> bytes result" where
  "e_finish e = (if length e > MaxEncodedValueBytes then malformed ''encoded value is too large'' else Inr e)"

record decoder =
  dec_data :: bytes
  dec_at :: nat

type_synonym 'a dec = "decoder \<Rightarrow> ('a \<times> decoder) result"

definition dret :: "'a \<Rightarrow> 'a dec" where
  "dret v d = Inr (v, d)"

definition dfail :: "string \<Rightarrow> 'a dec" where
  "dfail message d = malformed message"

definition dbind :: "'a dec \<Rightarrow> ('a \<Rightarrow> 'b dec) \<Rightarrow> 'b dec" where
  "dbind m f d = rbind (m d) (\<lambda>(v, d). f v d)"

text \<open>\<open>d_checked m bad message\<close>: the step \<open>m\<close>, whose failure and whose bad values give the same error.\<close>

definition d_checked :: "'a dec \<Rightarrow> ('a \<Rightarrow> nat \<Rightarrow> bool) \<Rightarrow> string \<Rightarrow> 'a dec" where
  "d_checked m bad message d = (case m d of Inl _ \<Rightarrow> malformed message
     | Inr (v, d') \<Rightarrow> if bad v (length (dec_data d)) then malformed message else Inr (v, d'))"

text \<open>\<open>d_more m m'\<close> is \<open>m\<close> when data is left, else \<open>m'\<close>.\<close>

definition d_more :: "'a dec \<Rightarrow> 'a dec \<Rightarrow> 'a dec" where
  "d_more m m' d = (if dec_at d < length (dec_data d) then m d else m' d)"

fun d_list :: "'a dec \<Rightarrow> nat \<Rightarrow> 'a list dec" where
  "d_list m 0 = dret []"
| "d_list m (Suc n) = dbind m (\<lambda>x. dbind (d_list m n) (\<lambda>xs. dret (x # xs)))"

definition newDecoder :: "bytes \<Rightarrow> decoder result" where
  "newDecoder data = (if data = [] \<or> length data > MaxEncodedValueBytes \<or> hd data \<noteq> Version
     then malformed ''unsupported or missing schema version'' else Inr \<lparr>dec_data = data, dec_at = 1\<rparr>)"

definition d_take :: "nat \<Rightarrow> bytes dec" where
  "d_take n d = (if int (dec_at d) > int (length (dec_data d)) - int n then malformed ''truncated value''
     else Inr (take n (drop (dec_at d) (dec_data d)), d\<lparr>dec_at := dec_at d + n\<rparr>))"

definition d_u8 :: "u8 dec" where
  "d_u8 = dbind (d_take 1) (\<lambda>v. dret (v ! 0))"

definition d_bool :: "bool dec" where
  "d_bool = dbind d_u8 (\<lambda>v. if v > 1 then dfail ''invalid boolean'' else dret (v = 1))"

definition d_u32 :: "u32 dec" where
  "d_u32 = dbind (d_take 4) (\<lambda>v. dret (u32_be v))"

definition d_u16 :: "u16 dec" where
  "d_u16 = dbind (d_take 2) (\<lambda>v. dret (u16_be v))"

definition d_u64 :: "u64 dec" where
  "d_u64 = dbind (d_take 8) (\<lambda>v. dret (u64_be v))"

definition d_i64 :: "i64 dec" where
  "d_i64 = d_u64"

definition d_id :: "ID dec" where
  "d_id = d_take 32"

definition d_bytes :: "bytes dec" where
  "d_bytes = dbind d_u32 (\<lambda>n. if unat n > maxFieldBytes then dfail ''field is too large'' else d_take (unat n))"

definition d_string :: "bytes dec" where
  "d_string = d_bytes"

definition d_done :: "decoder \<Rightarrow> unit result" where
  "d_done d = (if dec_at d \<noteq> length (dec_data d) then malformed ''trailing data'' else Inr ())"

text \<open>The frame of every decoding function: open the decoder, read the fields, expect the end.\<close>

definition decode :: "'a dec \<Rightarrow> bytes \<Rightarrow> 'a result" where
  "decode m data = rbind (newDecoder data) (\<lambda>d. rbind (m d) (\<lambda>(v, d). rbind (d_done d) (\<lambda>_. Inr v)))"

definition marshalNextRevision :: "u64 \<Rightarrow> bytes" where
  "marshalNextRevision next = [Version] @ put_u64 next"

definition UnmarshalNextRevision :: "bytes \<Rightarrow> u64 result" where
  "UnmarshalNextRevision = decode (dbind d_u64 (\<lambda>v. if v = 0 then dfail ''next revision must be non-zero'' else dret v))"

section \<open>Steps that read what was written\<close>

definition reads :: "'a dec \<Rightarrow> 'a \<Rightarrow> bytes \<Rightarrow> bool" where
  "reads m v bs \<longleftrightarrow> (\<forall>pre rest. length pre + length bs + length rest \<le> MaxEncodedValueBytes \<longrightarrow>
     m \<lparr>dec_data = pre @ bs @ rest, dec_at = length pre\<rparr> = Inr (v, \<lparr>dec_data = pre @ bs @ rest, dec_at = length pre + length bs\<rparr>))"

lemma readsD:
  "reads m v bs \<Longrightarrow> length pre + length bs + length rest \<le> MaxEncodedValueBytes \<Longrightarrow>
     m \<lparr>dec_data = pre @ bs @ rest, dec_at = length pre\<rparr> = Inr (v, \<lparr>dec_data = pre @ bs @ rest, dec_at = length pre + length bs\<rparr>)"
  by (simp add: reads_def)

named_theorems reads_intros \<open>what the steps of a decoder read\<close>

lemma reads_ret [reads_intros]: "reads (dret v) v []"
  by (simp add: reads_def dret_def)

lemma reads_bind [reads_intros]:
  assumes "reads m v bs" "reads (f v) w cs"
  shows "reads (dbind m f) w (bs @ cs)"
  unfolding reads_def
proof (intro allI impI)
  fix pre rest :: bytes
  assume l: "length pre + length (bs @ cs) + length rest \<le> MaxEncodedValueBytes"
  have "m \<lparr>dec_data = pre @ bs @ (cs @ rest), dec_at = length pre\<rparr>
      = Inr (v, \<lparr>dec_data = pre @ bs @ (cs @ rest), dec_at = length pre + length bs\<rparr>)"
    by (rule readsD [OF assms(1)]) (use l in simp)
  moreover have "f v \<lparr>dec_data = (pre @ bs) @ cs @ rest, dec_at = length (pre @ bs)\<rparr>
      = Inr (w, \<lparr>dec_data = (pre @ bs) @ cs @ rest, dec_at = length (pre @ bs) + length cs\<rparr>)"
    by (rule readsD [OF assms(2)]) (use l in simp)
  ultimately show "dbind m f \<lparr>dec_data = pre @ (bs @ cs) @ rest, dec_at = length pre\<rparr>
      = Inr (w, \<lparr>dec_data = pre @ (bs @ cs) @ rest, dec_at = length pre + length (bs @ cs)\<rparr>)"
    by (simp add: dbind_def add.assoc)
qed

lemma reads_bind_last: "reads m v bs \<Longrightarrow> reads (f v) w [] \<Longrightarrow> reads (dbind m f) w bs"
  using reads_bind [of m v bs f w "[]"] by simp

lemma reads_take: "length bs = n \<Longrightarrow> reads (d_take n) bs bs"
  by (simp add: reads_def d_take_def)

lemma reads_u8 [reads_intros]: "reads d_u8 v [v]"
  unfolding d_u8_def by (rule reads_bind_last [OF reads_take]) (simp_all add: reads_ret)

lemma reads_u16 [reads_intros]: "reads d_u16 v (put_u16 v)"
  unfolding d_u16_def by (rule reads_bind_last [OF reads_take]) (simp_all add: reads_ret)

lemma reads_u32 [reads_intros]: "reads d_u32 v (put_u32 v)"
  unfolding d_u32_def by (rule reads_bind_last [OF reads_take]) (simp_all add: reads_ret)

lemma reads_u64 [reads_intros]: "reads d_u64 v (put_u64 v)" "reads d_i64 v (put_u64 v)"
  unfolding d_i64_def d_u64_def by (rule reads_bind_last [OF reads_take], simp_all add: reads_ret)+

lemma reads_bool [reads_intros]: "reads d_bool b [if b then 1 else 0]"
  unfolding d_bool_def by (rule reads_bind_last [OF reads_u8]) (simp add: reads_ret)

lemma reads_id [reads_intros]: "is_id i \<Longrightarrow> reads d_id i i"
  unfolding d_id_def by (rule reads_take) (simp add: is_id_def idSize_def)

definition field_bytes :: "bytes \<Rightarrow> bytes" where
  "field_bytes v = put_u32 (of_nat (length v)) @ v"

lemma reads_bytes [reads_intros]:
  assumes "length v \<le> maxFieldBytes"
  shows "reads d_bytes v (field_bytes v)" "reads d_string v (field_bytes v)"
proof -
  have n: "unat (of_nat (length v) :: u32) = length v"
    using assms by (simp add: unat_of_nat maxFieldBytes_def MaxEncodedValueBytes_def)
  show "reads d_bytes v (field_bytes v)" unfolding d_bytes_def field_bytes_def
    by (rule reads_bind [OF reads_u32]) (use assms n in \<open>simp add: reads_take\<close>)
  then show "reads d_string v (field_bytes v)" by (simp add: d_string_def)
qed

text \<open>A check against the length of the data holds in front of what follows in it.\<close>

lemma reads_bind_checked:
  assumes "reads m v bs" "reads (f v) w cs" "\<And>n. length bs + length cs \<le> n \<Longrightarrow> \<not> bad v n"
  shows "reads (dbind (d_checked m bad msg) f) w (bs @ cs)"
proof -
  have "dbind (d_checked m bad msg) f d = dbind m f d"
    if "d = \<lparr>dec_data = pre @ (bs @ cs) @ rest, dec_at = length pre\<rparr>" "length pre + length (bs @ cs) + length rest \<le> MaxEncodedValueBytes"
    for pre rest d
  proof -
    have "m d = Inr (v, \<lparr>dec_data = pre @ (bs @ cs) @ rest, dec_at = length pre + length bs\<rparr>)"
      using assms(1) that unfolding reads_def by simp
    then show ?thesis using assms(3) [of "length (dec_data d)"] that(1) by (simp add: dbind_def d_checked_def)
  qed
  then show ?thesis using reads_bind [of m v bs f w cs] assms(1,2) unfolding reads_def by simp
qed

lemma reads_more: "reads m v bs \<Longrightarrow> bs \<noteq> [] \<Longrightarrow> reads (d_more m m') v bs"
  by (auto simp: reads_def d_more_def)

text \<open>A value that a step reads in full is decoded from its encoding.\<close>

lemma decode_reads:
  assumes "reads m v bs" "length bs < MaxEncodedValueBytes"
  shows "decode m (Version # bs) = Inr v"
proof -
  have "m \<lparr>dec_data = [Version] @ bs @ [], dec_at = length [Version]\<rparr>
      = Inr (v, \<lparr>dec_data = [Version] @ bs @ [], dec_at = length [Version] + length bs\<rparr>)"
    by (rule readsD [OF assms(1)]) (use assms(2) in simp)
  then show ?thesis using assms(2) by (simp add: decode_def newDecoder_def d_done_def)
qed

section \<open>Fields\<close>

locale field_codec =
  fixes put :: "'a \<Rightarrow> bytes" and get :: "'a dec" and ok :: "'a \<Rightarrow> bool"
  assumes get_put: "ok v \<Longrightarrow> reads get v (put v)"
begin

lemma reads_list: "\<forall>v \<in> set vs. ok v \<Longrightarrow> reads (d_list get (length vs)) vs (concat (map put vs))"
proof (induction vs)
  case (Cons v vs)
  have "reads (dbind (d_list get (length vs)) (\<lambda>xs. dret (v # xs))) (v # vs) (concat (map put vs))"
    using Cons reads_bind_last [of "d_list get (length vs)" vs _ "\<lambda>xs. dret (v # xs)"] by (simp add: reads_ret)
  then show ?case using Cons.prems reads_bind [of get v "put v"] get_put [of v] by simp
qed (simp add: reads_ret)

end

interpretation id_field: field_codec "\<lambda>i. i" d_id is_id
  by unfold_locales (rule reads_id)

interpretation string_field: field_codec field_bytes d_string "\<lambda>v. length v \<le> maxFieldBytes"
  by unfold_locales (rule reads_bytes)

text \<open>How the encoder extends what was written.\<close>

lemma e_bytes_ok: "e_bytes e v = Inr e' \<longleftrightarrow> length v \<le> maxFieldBytes \<and> e' = e @ field_bytes v" "e_string e v = Inr e' \<longleftrightarrow> length v \<le> maxFieldBytes \<and> e' = e @ field_bytes v"
  by (auto simp: e_string_def e_bytes_def field_bytes_def e_u32_def malformed_def maxFieldBytes_def MaxEncodedValueBytes_def)

lemma e_finish_ok: "e_finish e = Inr data \<longleftrightarrow> length e \<le> MaxEncodedValueBytes \<and> data = e"
  by (auto simp: e_finish_def malformed_def)

lemmas e_simps = e_u8_def e_bool_def e_u16_def e_u32_def e_u64_def e_i64_def e_id_def newEncoder_def

lemma NextRevision_roundtrip: "v \<noteq> 0 \<Longrightarrow> UnmarshalNextRevision (marshalNextRevision v) = Inr v"
  unfolding UnmarshalNextRevision_def marshalNextRevision_def append_Cons append_Nil
  by (rule decode_reads, rule reads_bind_last [OF reads_u64(1)]) (simp_all add: reads_ret MaxEncodedValueBytes_def)

end
