(* ===== verification/Schema_Records.thy ===== *)
theory Schema_Records
  imports Schema_Codec
begin

text \<open>
  The records of \<^verbatim>\<open>internal/index/schema/records.go\<close>: their fields, what makes them valid, \<^verbatim>\<open>MarshalBinary\<close> and the
  \<^verbatim>\<open>Unmarshal\<close> functions, over the codec of \<open>Schema_Codec\<close>. Types declared as \<^verbatim>\<open>byte\<close> are bytes with named constants, an
  \<^verbatim>\<open>int64\<close> is a word read by \<open>sint\<close>, and a string is its bytes.
\<close>

section \<open>Blob records\<close>

definition BlobData :: u8 where [simp]: "BlobData = 1"
definition BlobTree :: u8 where [simp]: "BlobTree = 2"

record BlobLocation =
  loc_PackID :: ID
  loc_Offset :: u64
  loc_Length :: u32
  loc_UncompressedSize :: u32
  loc_Type :: u8

record BlobRecord =
  br_Locations :: "BlobLocation list"

definition e_location :: "encoder \<Rightarrow> BlobLocation \<Rightarrow> encoder result" where
  "e_location e l = (if loc_Type l \<noteq> BlobData \<and> loc_Type l \<noteq> BlobTree then malformed ''invalid blob type''
     else Inr (e_u8 (e_u32 (e_u32 (e_u64 (e_id e (loc_PackID l)) (loc_Offset l)) (loc_Length l)) (loc_UncompressedSize l)) (loc_Type l)))"

definition BlobRecord_MarshalBinary :: "BlobRecord \<Rightarrow> bytes result" where
  "BlobRecord_MarshalBinary r = (if br_Locations r = [] then malformed ''blob has no locations''
     else rbind (foldM e_location (e_u32 newEncoder (of_nat (length (br_Locations r)))) (br_Locations r)) e_finish)"

definition d_location :: "BlobLocation dec" where
  "d_location = dbind d_id (\<lambda>pack. dbind d_u64 (\<lambda>off. dbind d_u32 (\<lambda>len. dbind d_u32 (\<lambda>usize. dbind d_u8 (\<lambda>t.
     if t \<noteq> BlobData \<and> t \<noteq> BlobTree then dfail ''invalid blob type''
     else dret \<lparr>loc_PackID = pack, loc_Offset = off, loc_Length = len, loc_UncompressedSize = usize, loc_Type = t\<rparr>)))))"

definition UnmarshalBlobRecord :: "bytes \<Rightarrow> BlobRecord result" where
  "UnmarshalBlobRecord = decode (dbind (d_checked d_u32 (\<lambda>count n. count = 0 \<or> unat count * 49 > n) ''invalid blob location count'')
     (\<lambda>count. dbind (d_list d_location (unat count)) (\<lambda>ls. dret \<lparr>br_Locations = ls\<rparr>)))"

section \<open>Placement records\<close>

definition RetentionUnknown :: u8 where [simp]: "RetentionUnknown = 1"
definition RetentionBackend :: u8 where [simp]: "RetentionBackend = 3"
definition PlacementPending :: u8 where [simp]: "PlacementPending = 1"
definition PlacementEvicting :: u8 where [simp]: "PlacementEvicting = 3"
definition PlacementEvicted :: u8 where [simp]: "PlacementEvicted = 4"
definition PlacementFailed :: u8 where [simp]: "PlacementFailed = 5"

definition validPlacementState :: "u8 \<Rightarrow> bool" where
  "validPlacementState v \<longleftrightarrow> PlacementPending \<le> v \<and> v \<le> PlacementFailed"

definition validRetentionSource :: "u8 \<Rightarrow> bool" where
  "validRetentionSource v \<longleftrightarrow> RetentionUnknown \<le> v \<and> v \<le> RetentionBackend"

record PlacementRecord =
  plr_State :: u8
  plr_StorageClass :: bytes
  plr_PlacedAt :: i64
  plr_PlacementTimeKnown :: bool
  plr_Bytes :: u64
  plr_MinRetentionUntil :: i64
  plr_RetentionSource :: u8
  plr_DeleteAfter :: i64
  plr_LastVerifiedAt :: i64

definition PlacementRecord_normalized :: "PlacementRecord \<Rightarrow> PlacementRecord" where
  "PlacementRecord_normalized r = (if plr_RetentionSource r = 0 then r\<lparr>plr_RetentionSource := RetentionUnknown\<rparr> else r)"

definition PlacementRecord_validate :: "PlacementRecord \<Rightarrow> unit result" where
  "PlacementRecord_validate r0 = (let r = PlacementRecord_normalized r0 in
     if \<not> validPlacementState (plr_State r) \<or> \<not> validRetentionSource (plr_RetentionSource r) then malformed ''invalid placement state''
     else if \<not> plr_PlacementTimeKnown r \<and> plr_PlacedAt r \<noteq> 0 then malformed ''placement time without a known flag''
     else if plr_RetentionSource r = RetentionUnknown \<and> plr_MinRetentionUntil r \<noteq> 0
     then malformed ''placement retention deadline without a source''
     else if plr_DeleteAfter r \<noteq> 0 \<and> plr_State r \<noteq> PlacementEvicting \<and> plr_State r \<noteq> PlacementEvicted
     then malformed ''placement delete deadline without evicting state''
     else Inr ())"

definition PlacementRecord_MarshalBinary :: "PlacementRecord \<Rightarrow> bytes result" where
  "PlacementRecord_MarshalBinary r0 = (let r = PlacementRecord_normalized r0 in
     rbind (PlacementRecord_validate r) (\<lambda>_.
     rbind (e_string (e_u8 newEncoder (plr_State r)) (plr_StorageClass r)) (\<lambda>e.
     e_finish (e_i64 (e_i64 (e_u8 (e_i64 (e_u64 (e_bool (e_i64 e (plr_PlacedAt r)) (plr_PlacementTimeKnown r)) (plr_Bytes r))
       (plr_MinRetentionUntil r)) (plr_RetentionSource r)) (plr_DeleteAfter r)) (plr_LastVerifiedAt r)))))"

definition UnmarshalPlacementRecord :: "bytes \<Rightarrow> PlacementRecord result" where
  "UnmarshalPlacementRecord = decode (dbind d_u8 (\<lambda>state. dbind d_string (\<lambda>class. dbind d_i64 (\<lambda>placed. dbind d_bool (\<lambda>known.
     dbind d_u64 (\<lambda>bytes. dbind d_i64 (\<lambda>until. dbind d_u8 (\<lambda>source. dbind d_i64 (\<lambda>deleteAfter. dbind d_i64 (\<lambda>verified.
     let r = \<lparr>plr_State = state, plr_StorageClass = class, plr_PlacedAt = placed, plr_PlacementTimeKnown = known, plr_Bytes = bytes,
       plr_MinRetentionUntil = until, plr_RetentionSource = source, plr_DeleteAfter = deleteAfter, plr_LastVerifiedAt = verified\<rparr> in
     (\<lambda>d. rbind (PlacementRecord_validate r) (\<lambda>_. Inr (r, d)))))))))))))"

record BackendPackRecord =
  bpr_State :: u8
  bpr_Bytes :: u64
  bpr_PlacedAt :: i64

definition BackendPackRecord_MarshalBinary :: "BackendPackRecord \<Rightarrow> bytes result" where
  "BackendPackRecord_MarshalBinary r = (if \<not> validPlacementState (bpr_State r) then malformed ''invalid backend-pack state''
     else e_finish (e_i64 (e_u64 (e_u8 newEncoder (bpr_State r)) (bpr_Bytes r)) (bpr_PlacedAt r)))"

definition UnmarshalBackendPackRecord :: "bytes \<Rightarrow> BackendPackRecord result" where
  "UnmarshalBackendPackRecord = decode (dbind d_u8 (\<lambda>state. dbind d_u64 (\<lambda>bytes. dbind d_i64 (\<lambda>placed.
     if \<not> validPlacementState state then dfail ''invalid backend-pack state''
     else dret \<lparr>bpr_State = state, bpr_Bytes = bytes, bpr_PlacedAt = placed\<rparr>))))"

record PlacementDeleteRecord =
  pdr_Backend :: u64
  pdr_PhysicalSize :: u64
  pdr_Reason :: bytes
  pdr_RunID :: ID

definition PlacementDeleteRecord_MarshalBinary :: "PlacementDeleteRecord \<Rightarrow> bytes result" where
  "PlacementDeleteRecord_MarshalBinary r = (if pdr_Backend r = 0 then malformed ''placement delete queue without backend''
     else rbind (e_string (e_u64 (e_u64 newEncoder (pdr_Backend r)) (pdr_PhysicalSize r)) (pdr_Reason r)) (\<lambda>e.
       e_finish (e_id e (pdr_RunID r))))"

definition UnmarshalPlacementDeleteRecord :: "bytes \<Rightarrow> PlacementDeleteRecord result" where
  "UnmarshalPlacementDeleteRecord = decode (dbind d_u64 (\<lambda>backend. dbind d_u64 (\<lambda>psize. dbind d_string (\<lambda>reason. dbind d_id (\<lambda>run.
     if backend = 0 then dfail ''placement delete queue without backend''
     else dret \<lparr>pdr_Backend = backend, pdr_PhysicalSize = psize, pdr_Reason = reason, pdr_RunID = run\<rparr>)))))"

record PromotionEligibilityRecord =
  per_SurvivalUntil :: i64
  per_EvaluatedAt :: i64
  per_Indefinite :: bool

definition PromotionEligibility_invalid :: "PromotionEligibilityRecord \<Rightarrow> bool" where
  "PromotionEligibility_invalid r \<longleftrightarrow> sint (per_EvaluatedAt r) \<le> 0 \<or> \<not> per_Indefinite r \<and> sint (per_SurvivalUntil r) \<le> 0"

definition PromotionEligibilityRecord_MarshalBinary :: "PromotionEligibilityRecord \<Rightarrow> bytes result" where
  "PromotionEligibilityRecord_MarshalBinary r = (if PromotionEligibility_invalid r then malformed ''invalid promotion eligibility''
     else e_finish (e_bool (e_i64 (e_i64 newEncoder (per_SurvivalUntil r)) (per_EvaluatedAt r)) (per_Indefinite r)))"

definition UnmarshalPromotionEligibilityRecord :: "bytes \<Rightarrow> PromotionEligibilityRecord result" where
  "UnmarshalPromotionEligibilityRecord = decode (dbind d_i64 (\<lambda>survival. dbind d_i64 (\<lambda>evaluated. dbind d_bool (\<lambda>indefinite.
     let r = \<lparr>per_SurvivalUntil = survival, per_EvaluatedAt = evaluated, per_Indefinite = indefinite\<rparr> in
     if PromotionEligibility_invalid r then dfail ''invalid promotion eligibility'' else dret r))))"

definition LineageRepack :: u8 where [simp]: "LineageRepack = 1"
definition LineagePromotion :: u8 where [simp]: "LineagePromotion = 2"

record RepackLineageRecord =
  rlr_RunID :: ID
  rlr_Kind :: u8

definition RepackLineageRecord_MarshalBinary :: "RepackLineageRecord \<Rightarrow> bytes result" where
  "RepackLineageRecord_MarshalBinary r = (let e = e_id newEncoder (rlr_RunID r) in
     if rlr_Kind r \<noteq> LineageRepack \<and> rlr_Kind r \<noteq> LineagePromotion then malformed ''invalid repack lineage kind''
     else e_finish (e_u8 e (rlr_Kind r)))"

definition UnmarshalRepackLineageRecord :: "bytes \<Rightarrow> RepackLineageRecord result" where
  "UnmarshalRepackLineageRecord = decode (dbind d_id (\<lambda>run.
     dbind (d_checked d_u8 (\<lambda>kind _. kind \<noteq> LineageRepack \<and> kind \<noteq> LineagePromotion) ''invalid repack lineage kind'') (\<lambda>kind.
     dret \<lparr>rlr_RunID = run, rlr_Kind = kind\<rparr>)))"

definition PlacementRequestPlace :: u8 where [simp]: "PlacementRequestPlace = 1"
definition PlacementRequestEvict :: u8 where [simp]: "PlacementRequestEvict = 3"

record PlacementRequestRecord =
  prr_Classes :: "bytes list"
  prr_Operation :: u8
  prr_TargetBackend :: u64
  prr_Attempts :: u32
  prr_LastAttempt :: i64
  prr_NotBefore :: i64
  prr_LastError :: bytes

definition validPlacementRequestOperation :: "u8 \<Rightarrow> bool" where
  "validPlacementRequestOperation operation \<longleftrightarrow> PlacementRequestPlace \<le> operation \<and> operation \<le> PlacementRequestEvict"

definition e_class :: "encoder \<Rightarrow> bytes \<Rightarrow> encoder result" where
  "e_class e class = (if class = [] then malformed ''empty placement request class'' else e_string e class)"

definition PlacementRequestRecord_MarshalBinary :: "PlacementRequestRecord \<Rightarrow> bytes result" where
  "PlacementRequestRecord_MarshalBinary r =
    (if prr_Classes r = [] then malformed ''placement request requires at least one class''
     else if \<not> validPlacementRequestOperation (prr_Operation r) \<or> prr_TargetBackend r = 0
     then malformed ''placement request requires an operation and target backend''
     else rbind (foldM e_class (e_u32 newEncoder (of_nat (length (prr_Classes r)))) (prr_Classes r)) (\<lambda>e.
       rbind (e_string (e_i64 (e_i64 (e_u32 (e_u64 (e_u8 e (prr_Operation r)) (prr_TargetBackend r)) (prr_Attempts r))
         (prr_LastAttempt r)) (prr_NotBefore r)) (prr_LastError r)) e_finish))"

definition d_class :: "bytes dec" where
  "d_class = dbind d_string (\<lambda>class. if class = [] then dfail ''empty placement request class'' else dret class)"

definition UnmarshalPlacementRequestRecord :: "bytes \<Rightarrow> PlacementRequestRecord result" where
  "UnmarshalPlacementRequestRecord = decode (dbind (d_checked d_u32 (\<lambda>count _. count = 0 \<or> count > 1024) ''invalid placement request class count'')
     (\<lambda>count. dbind (d_list d_class (unat count)) (\<lambda>classes. dbind d_u8 (\<lambda>operation. dbind d_u64 (\<lambda>backend. dbind d_u32 (\<lambda>attempts.
     dbind d_i64 (\<lambda>last. dbind d_i64 (\<lambda>notBefore. dbind d_string (\<lambda>lastError.
     if \<not> validPlacementRequestOperation operation \<or> backend = 0 then dfail ''invalid placement request operation or backend''
     else dret \<lparr>prr_Classes = classes, prr_Operation = operation, prr_TargetBackend = backend, prr_Attempts = attempts,
       prr_LastAttempt = last, prr_NotBefore = notBefore, prr_LastError = lastError\<rparr>)))))))))"

section \<open>Pack records\<close>

definition PackImported :: u8 where [simp]: "PackImported = 1"
definition PackStateUnknown :: u8 where [simp]: "PackStateUnknown = 7"

definition validPackLifecycle :: "u8 \<Rightarrow> bool" where
  "validPackLifecycle v \<longleftrightarrow> PackImported \<le> v \<and> v \<le> PackStateUnknown"

record PackRecord =
  pr_Type :: u8
  pr_PhysicalSize :: u64
  pr_PayloadSize :: u64
  pr_HeaderSize :: u64
  pr_BlobCount :: u64
  pr_PhysicalSizeKnown :: bool
  pr_CreationTime :: i64
  pr_CreationTimeKnown :: bool
  pr_Lifecycle :: u8
  pr_SourceIndexIDs :: "ID list"
  pr_Tier :: u8
  pr_StorageClass :: bytes
  pr_MinRetentionUntil :: i64
  pr_RetentionSource :: u8
  pr_UsedPayloadBytes :: u64
  pr_UnusedPayloadBytes :: u64
  pr_UsageKnown :: bool
  pr_DeleteAfter :: i64

definition PackRecord_normalized :: "PackRecord \<Rightarrow> PackRecord" where
  "PackRecord_normalized r0 = (let r = (if pr_Tier r0 = 0 then r0\<lparr>pr_Tier := TierUnknown\<rparr> else r0) in
     if pr_RetentionSource r = 0 then r\<lparr>pr_RetentionSource := RetentionUnknown\<rparr> else r)"

text \<open>Addition of the sizes is checked for overflow.\<close>

definition add_u64 :: "u64 \<Rightarrow> u64 \<Rightarrow> u64 option" where
  "add_u64 left right = (if - 1 - left < right then None else Some (left + right))"

definition validatePackLifetime :: "PackRecord \<Rightarrow> unit result" where
  "validatePackLifetime r =
    (if \<not> validPackTier (pr_Tier r) \<or> \<not> validRetentionSource (pr_RetentionSource r) then malformed ''invalid pack tier state''
     else if pr_RetentionSource r = RetentionUnknown \<and> pr_MinRetentionUntil r \<noteq> 0 then malformed ''retention deadline without a source''
     else if pr_RetentionSource r \<noteq> RetentionUnknown \<and> \<not> pr_CreationTimeKnown r
     then malformed ''retention deadline without a known creation time''
     else if \<not> pr_CreationTimeKnown r \<and> pr_CreationTime r \<noteq> 0 then malformed ''creation time without a known flag''
     else if \<not> pr_UsageKnown r \<and> (pr_UsedPayloadBytes r \<noteq> 0 \<or> pr_UnusedPayloadBytes r \<noteq> 0)
     then malformed ''usage accounting without a known flag''
     else if pr_UsageKnown r \<and> add_u64 (pr_UsedPayloadBytes r) (pr_UnusedPayloadBytes r) \<noteq> Some (pr_PayloadSize r)
     then malformed ''usage accounting does not sum to the payload size''
     else Inr ())"

text \<open>The checks that \<^verbatim>\<open>MarshalBinary\<close> and \<^verbatim>\<open>UnmarshalPackRecord\<close> share.\<close>

definition PackRecord_check :: "PackRecord \<Rightarrow> unit result" where
  "PackRecord_check r =
    (if \<not> validPackType (pr_Type r) \<or> \<not> validPackLifecycle (pr_Lifecycle r) then malformed ''invalid pack classification''
     else if \<not> pr_PhysicalSizeKnown r \<and> (pr_PhysicalSize r \<noteq> 0 \<or> pr_HeaderSize r \<noteq> 0)
       \<or> pr_PhysicalSizeKnown r \<and> pr_PhysicalSize r \<ge> pr_PayloadSize r \<and> pr_HeaderSize r \<noteq> pr_PhysicalSize r - pr_PayloadSize r
       \<or> pr_PhysicalSizeKnown r \<and> pr_PhysicalSize r < pr_PayloadSize r \<and> pr_HeaderSize r \<noteq> 0 then malformed ''invalid pack size state''
     else validatePackLifetime r)"

definition PackRecord_MarshalBinary :: "PackRecord \<Rightarrow> bytes result" where
  "PackRecord_MarshalBinary r0 = (let r = PackRecord_normalized r0 in rbind (PackRecord_check r) (\<lambda>_.
     let e = e_u8 newEncoder (pr_Type r);
         e = e_u64 (e_u64 (e_u64 (e_u64 e (pr_PhysicalSize r)) (pr_PayloadSize r)) (pr_HeaderSize r)) (pr_BlobCount r);
         e = e_u8 (e_bool (e_i64 e (pr_CreationTime r)) (pr_CreationTimeKnown r)) (pr_Lifecycle r);
         e = foldl e_id (e_u32 e (of_nat (length (pr_SourceIndexIDs r)))) (pr_SourceIndexIDs r) in
     rbind (e_string (e_u8 (e_bool e (pr_PhysicalSizeKnown r)) (pr_Tier r)) (pr_StorageClass r)) (\<lambda>e.
     let e = e_bool (e_u8 (e_i64 e (pr_MinRetentionUntil r)) (pr_RetentionSource r)) (pr_UsageKnown r) in
     e_finish (e_i64 (e_u64 (e_u64 e (pr_UsedPayloadBytes r)) (pr_UnusedPayloadBytes r)) (pr_DeleteAfter r)))))"

text \<open>The fields of the present format, which a record of the earlier format ends before: tier, retention and usage.\<close>

definition d_pack_tail :: "PackRecord \<Rightarrow> PackRecord dec" where
  "d_pack_tail r = d_more (dbind d_u8 (\<lambda>tier. dbind d_string (\<lambda>class. dbind d_i64 (\<lambda>until. dbind d_u8 (\<lambda>source. dbind d_bool (\<lambda>known.
     dbind d_u64 (\<lambda>used. dbind d_u64 (\<lambda>unused. dbind d_i64 (\<lambda>deleteAfter.
     dret (r\<lparr>pr_Tier := tier, pr_StorageClass := class, pr_MinRetentionUntil := until, pr_RetentionSource := source,
       pr_UsageKnown := known, pr_UsedPayloadBytes := used, pr_UnusedPayloadBytes := unused, pr_DeleteAfter := deleteAfter\<rparr>))))))))))
     (dret r)"

definition UnmarshalPackRecord :: "bytes \<Rightarrow> PackRecord result" where
  "UnmarshalPackRecord = decode (dbind d_u8 (\<lambda>t. dbind d_u64 (\<lambda>physical. dbind d_u64 (\<lambda>payload. dbind d_u64 (\<lambda>header. dbind d_u64 (\<lambda>blobs.
     dbind d_i64 (\<lambda>created. dbind d_bool (\<lambda>createdKnown. dbind d_u8 (\<lambda>lifecycle.
     dbind (d_checked d_u32 (\<lambda>count n. unat count * 32 > n) ''invalid provenance count'') (\<lambda>count. dbind (d_list d_id (unat count)) (\<lambda>ids.
     dbind (d_more d_bool (dret (physical \<noteq> 0))) (\<lambda>sizeKnown.
     dbind (d_pack_tail \<lparr>pr_Type = t, pr_PhysicalSize = physical, pr_PayloadSize = payload, pr_HeaderSize = header, pr_BlobCount = blobs,
       pr_PhysicalSizeKnown = sizeKnown, pr_CreationTime = created, pr_CreationTimeKnown = createdKnown, pr_Lifecycle = lifecycle,
       pr_SourceIndexIDs = ids, pr_Tier = TierUnknown, pr_StorageClass = [], pr_MinRetentionUntil = 0,
       pr_RetentionSource = RetentionUnknown, pr_UsedPayloadBytes = 0, pr_UnusedPayloadBytes = 0, pr_UsageKnown = False,
       pr_DeleteAfter = 0\<rparr>) (\<lambda>r. (\<lambda>d. rbind (PackRecord_check r) (\<lambda>_. Inr (r, d))))))))))))))))"

section \<open>Aggregates and pointers\<close>

record PackAggregate =
  pa_PackCount :: u64
  pa_PhysicalSize :: u64
  pa_PayloadSize :: u64
  pa_HeaderSize :: u64
  pa_BlobCount :: u64
  pa_UpdateSequence :: u64
  pa_UsedPayloadBytes :: u64
  pa_UnusedPayloadBytes :: u64
  pa_AccountedPackCount :: u64

definition PackAggregate_MarshalBinary :: "PackAggregate \<Rightarrow> bytes result" where
  "PackAggregate_MarshalBinary r = e_finish (foldl e_u64 newEncoder [pa_PackCount r, pa_PhysicalSize r, pa_PayloadSize r, pa_HeaderSize r,
     pa_BlobCount r, pa_UpdateSequence r, pa_UsedPayloadBytes r, pa_UnusedPayloadBytes r, pa_AccountedPackCount r])"

definition UnmarshalPackAggregate :: "bytes \<Rightarrow> PackAggregate result" where
  "UnmarshalPackAggregate = decode (dbind d_u64 (\<lambda>packs. dbind d_u64 (\<lambda>physical. dbind d_u64 (\<lambda>payload. dbind d_u64 (\<lambda>header.
     dbind d_u64 (\<lambda>blobs. dbind d_u64 (\<lambda>seq.
     dbind (d_more (dbind d_u64 (\<lambda>used. dbind d_u64 (\<lambda>unused. dbind d_u64 (\<lambda>accounted. dret (used, unused, accounted))))) (dret (0, 0, 0)))
     (\<lambda>(used, unused, accounted). dret \<lparr>pa_PackCount = packs, pa_PhysicalSize = physical, pa_PayloadSize = payload,
       pa_HeaderSize = header, pa_BlobCount = blobs, pa_UpdateSequence = seq, pa_UsedPayloadBytes = used,
       pa_UnusedPayloadBytes = unused, pa_AccountedPackCount = accounted\<rparr>))))))))"

record CurrentPointer =
  cp_Revision :: u64
  cp_RecordKey :: bytes

definition pointer_target_ok :: "bytes \<Rightarrow> u64 \<Rightarrow> bool" where
  "pointer_target_ok key revision = (case ParseKey key of Inl _ \<Rightarrow> False
     | Inr p \<Rightarrow> (pk_Kind p = KeyInodeRevision \<or> pk_Kind p = KeyDirectoryRevision) \<and> pk_Revision p = revision)"

definition CurrentPointer_MarshalBinary :: "CurrentPointer \<Rightarrow> bytes result" where
  "CurrentPointer_MarshalBinary r = (if cp_Revision r = 0 then malformed ''zero revision''
     else if \<not> pointer_target_ok (cp_RecordKey r) (cp_Revision r) then malformed ''current pointer target mismatch''
     else rbind (e_bytes (e_u64 newEncoder (cp_Revision r)) (cp_RecordKey r)) e_finish)"

definition UnmarshalCurrentPointer :: "bytes \<Rightarrow> CurrentPointer result" where
  "UnmarshalCurrentPointer = decode (dbind (d_checked d_u64 (\<lambda>revision _. revision = 0) ''invalid current revision'') (\<lambda>revision.
     dbind d_bytes (\<lambda>key. if \<not> pointer_target_ok key revision then dfail ''current pointer target mismatch''
       else dret \<lparr>cp_Revision = revision, cp_RecordKey = key\<rparr>)))"

section \<open>Encodings\<close>

text \<open>One step of a decoder, field by field.\<close>

lemmas reads_steps = reads_bind [OF reads_u8] reads_bind [OF reads_u32] reads_bind [OF reads_u64(1)] reads_bind [OF reads_u64(2)]
  reads_bind [OF reads_bool] reads_bind [OF reads_id] reads_bind [OF reads_bytes(1)] reads_bind [OF reads_bytes(2)]

lemma reads_done: "reads (\<lambda>d. Inr (v, d)) v []"
  by (simp add: reads_def)

lemma record_eta [simp]:
  "\<lparr>br_Locations = br_Locations r0\<rparr> = r0"
  "\<lparr>plr_State = plr_State r1, plr_StorageClass = plr_StorageClass r1, plr_PlacedAt = plr_PlacedAt r1,
     plr_PlacementTimeKnown = plr_PlacementTimeKnown r1, plr_Bytes = plr_Bytes r1,
     plr_MinRetentionUntil = plr_MinRetentionUntil r1, plr_RetentionSource = plr_RetentionSource r1,
     plr_DeleteAfter = plr_DeleteAfter r1, plr_LastVerifiedAt = plr_LastVerifiedAt r1\<rparr> = r1"
  "\<lparr>bpr_State = bpr_State r2, bpr_Bytes = bpr_Bytes r2, bpr_PlacedAt = bpr_PlacedAt r2\<rparr> = r2"
  "\<lparr>pdr_Backend = pdr_Backend r3, pdr_PhysicalSize = pdr_PhysicalSize r3, pdr_Reason = pdr_Reason r3,
     pdr_RunID = pdr_RunID r3\<rparr> = r3"
  "\<lparr>per_SurvivalUntil = per_SurvivalUntil r4, per_EvaluatedAt = per_EvaluatedAt r4,
     per_Indefinite = per_Indefinite r4\<rparr> = r4"
  "\<lparr>rlr_RunID = rlr_RunID r5, rlr_Kind = rlr_Kind r5\<rparr> = r5"
  "\<lparr>prr_Classes = prr_Classes r6, prr_Operation = prr_Operation r6, prr_TargetBackend = prr_TargetBackend r6,
     prr_Attempts = prr_Attempts r6, prr_LastAttempt = prr_LastAttempt r6, prr_NotBefore = prr_NotBefore r6,
     prr_LastError = prr_LastError r6\<rparr> = r6"
  "\<lparr>pr_Type = pr_Type r7, pr_PhysicalSize = pr_PhysicalSize r7, pr_PayloadSize = pr_PayloadSize r7,
     pr_HeaderSize = pr_HeaderSize r7, pr_BlobCount = pr_BlobCount r7, pr_PhysicalSizeKnown = pr_PhysicalSizeKnown r7,
     pr_CreationTime = pr_CreationTime r7, pr_CreationTimeKnown = pr_CreationTimeKnown r7, pr_Lifecycle = pr_Lifecycle r7,
     pr_SourceIndexIDs = pr_SourceIndexIDs r7, pr_Tier = pr_Tier r7, pr_StorageClass = pr_StorageClass r7,
     pr_MinRetentionUntil = pr_MinRetentionUntil r7, pr_RetentionSource = pr_RetentionSource r7,
     pr_UsedPayloadBytes = pr_UsedPayloadBytes r7, pr_UnusedPayloadBytes = pr_UnusedPayloadBytes r7,
     pr_UsageKnown = pr_UsageKnown r7, pr_DeleteAfter = pr_DeleteAfter r7\<rparr> = r7"
  "\<lparr>pa_PackCount = pa_PackCount r8, pa_PhysicalSize = pa_PhysicalSize r8, pa_PayloadSize = pa_PayloadSize r8,
     pa_HeaderSize = pa_HeaderSize r8, pa_BlobCount = pa_BlobCount r8, pa_UpdateSequence = pa_UpdateSequence r8,
     pa_UsedPayloadBytes = pa_UsedPayloadBytes r8, pa_UnusedPayloadBytes = pa_UnusedPayloadBytes r8,
     pa_AccountedPackCount = pa_AccountedPackCount r8\<rparr> = r8"
  "\<lparr>cp_Revision = cp_Revision r9, cp_RecordKey = cp_RecordKey r9\<rparr> = r9"
  by simp_all

lemma reads_same: "v = w \<Longrightarrow> reads (dret v) w []"
  by (simp add: reads_ret)

definition location_bytes :: "BlobLocation \<Rightarrow> bytes" where
  "location_bytes l = loc_PackID l @ put_u64 (loc_Offset l) @ put_u32 (loc_Length l) @ put_u32 (loc_UncompressedSize l) @ [loc_Type l]"

definition location_ok :: "BlobLocation \<Rightarrow> bool" where
  "location_ok l \<longleftrightarrow> is_id (loc_PackID l) \<and> (loc_Type l = BlobData \<or> loc_Type l = BlobTree)"

definition class_ok :: "bytes \<Rightarrow> bool" where
  "class_ok c \<longleftrightarrow> c \<noteq> [] \<and> length c \<le> maxFieldBytes"

lemma foldM_put:
  assumes "\<And>e x e'. f e x = Inr e' \<longleftrightarrow> ok x \<and> e' = e @ put x"
  shows "foldM f e xs = Inr e' \<longleftrightarrow> (\<forall>x \<in> set xs. ok x) \<and> e' = e @ concat (map put xs)"
  by (induction xs arbitrary: e) (auto simp: rbind_Inr_iff assms)

lemma foldl_put: "(\<And>e x. f e x = e @ put x) \<Longrightarrow> foldl f e xs = e @ concat (map put xs)"
  by (induction xs arbitrary: e) simp_all

lemma e_location_put:
  "e_location e l = Inr e' \<longleftrightarrow> (loc_Type l = BlobData \<or> loc_Type l = BlobTree) \<and> e' = e @ location_bytes l"
  by (auto simp: e_location_def malformed_def e_simps location_bytes_def)

lemma e_class_put: "e_class e c = Inr e' \<longleftrightarrow> class_ok c \<and> e' = e @ field_bytes c"
  by (auto simp: e_class_def class_ok_def malformed_def e_bytes_ok)

lemma e_bool_put: "e_bool e v = e @ [if v then 1 else 0]"
  by (simp add: e_simps)

interpretation location_field: field_codec location_bytes d_location location_ok
proof
  fix l assume "location_ok l"
  then have "reads d_location l
      (loc_PackID l @ put_u64 (loc_Offset l) @ put_u32 (loc_Length l) @ put_u32 (loc_UncompressedSize l) @ [loc_Type l] @ [])"
    unfolding d_location_def by (intro reads_steps) (auto simp: location_ok_def intro!: reads_same BlobLocation.equality)
  then show "reads d_location l (location_bytes l)" by (simp add: location_bytes_def)
qed

interpretation class_field: field_codec field_bytes d_class class_ok
  by unfold_locales (auto simp: d_class_def class_ok_def reads_ret intro!: reads_bind_last reads_bytes)

lemma length_locations: "\<forall>l \<in> set ls. location_ok l \<Longrightarrow> length (concat (map location_bytes ls)) = 49 * length ls"
  by (induction ls) (auto simp: location_bytes_def location_ok_def is_id_def idSize_def)

lemma length_ids: "\<forall>i \<in> set is. is_id i \<Longrightarrow> length (concat is) = 32 * length is"
  by (induction "is") (auto simp: is_id_def idSize_def)

lemma count_u32: "n \<le> MaxEncodedValueBytes \<Longrightarrow> unat (of_nat n :: u32) = n"
  by (simp add: unat_of_nat MaxEncodedValueBytes_def)

text \<open>A record is decoded from what \<^verbatim>\<open>finish\<close> returned for it.\<close>

lemma finish_decode: "e_finish (Version # bs) = Inr data \<Longrightarrow> reads m v bs \<Longrightarrow> decode m data = Inr v"
  using decode_reads [of m v bs] by (simp add: e_finish_ok)

section \<open>Round trips\<close>

lemma BlobRecord_roundtrip:
  assumes "\<forall>l \<in> set (br_Locations r). is_id (loc_PackID l)" "BlobRecord_MarshalBinary r = Inr data"
  shows "UnmarshalBlobRecord data = Inr r"
proof -
  let ?ls = "br_Locations r"
  from assms(2) have ne: "?ls \<noteq> []" by (auto simp: BlobRecord_MarshalBinary_def malformed_def)
  with assms obtain e where e: "foldM e_location (e_u32 newEncoder (of_nat (length ?ls))) ?ls = Inr e" "e_finish e = Inr data"
    by (auto simp: BlobRecord_MarshalBinary_def rbind_Inr_iff)
  then have ok: "\<forall>l \<in> set ?ls. location_ok l"
    and f: "e_finish (Version # put_u32 (of_nat (length ?ls)) @ concat (map location_bytes ?ls) @ []) = Inr data"
    using assms(1) unfolding foldM_put [OF e_location_put] by (auto simp: location_ok_def e_simps)
  have n: "unat (of_nat (length ?ls) :: u32) = length ?ls"
    using f length_locations [OF ok] by (intro count_u32) (simp add: e_finish_ok)
  have m: "reads (dbind (d_list d_location (unat (of_nat (length ?ls) :: u32))) (\<lambda>ls. dret \<lparr>br_Locations = ls\<rparr>)) r (concat (map location_bytes ?ls) @ [])"
    unfolding n by (rule reads_bind [OF location_field.reads_list [OF ok]]) (simp add: reads_ret)
  show ?thesis unfolding UnmarshalBlobRecord_def
    by (rule finish_decode [OF f], rule reads_bind_checked [OF reads_u32], rule m)
      (use ne n length_locations [OF ok] in \<open>auto simp: word_unat_eq_iff\<close>)
qed

lemma PlacementRecord_roundtrip:
  assumes "PlacementRecord_MarshalBinary r = Inr data"
  shows "UnmarshalPlacementRecord data = Inr (PlacementRecord_normalized r)"
proof -
  define s where "s = PlacementRecord_normalized r"
  have v: "PlacementRecord_validate s = Inr ()" "length (plr_StorageClass s) \<le> maxFieldBytes"
    and f: "e_finish (Version # [plr_State s] @ field_bytes (plr_StorageClass s) @ put_u64 (plr_PlacedAt s)
      @ [if plr_PlacementTimeKnown s then 1 else 0] @ put_u64 (plr_Bytes s) @ put_u64 (plr_MinRetentionUntil s) @ [plr_RetentionSource s]
      @ put_u64 (plr_DeleteAfter s) @ put_u64 (plr_LastVerifiedAt s) @ []) = Inr data"
    using assms unfolding PlacementRecord_MarshalBinary_def s_def [symmetric] Let_def
    by (auto simp: rbind_Inr_iff e_bytes_ok e_bool_put e_simps)
  show ?thesis unfolding UnmarshalPlacementRecord_def s_def [symmetric]
    by (rule finish_decode [OF f], intro reads_steps) (use v in \<open>simp_all add: reads_done Let_def\<close>)
qed

lemma BackendPackRecord_roundtrip:
  assumes "BackendPackRecord_MarshalBinary r = Inr data"
  shows "UnmarshalBackendPackRecord data = Inr r"
proof -
  have v: "validPlacementState (bpr_State r)"
    and f: "e_finish (Version # [bpr_State r] @ put_u64 (bpr_Bytes r) @ put_u64 (bpr_PlacedAt r) @ []) = Inr data"
    using assms by (auto simp: BackendPackRecord_MarshalBinary_def malformed_def e_simps split: if_splits)
  show ?thesis unfolding UnmarshalBackendPackRecord_def
    by (rule finish_decode [OF f], intro reads_steps) (use v in \<open>simp add: reads_ret\<close>)
qed

lemma PlacementDeleteRecord_roundtrip:
  assumes "is_id (pdr_RunID r)" "PlacementDeleteRecord_MarshalBinary r = Inr data"
  shows "UnmarshalPlacementDeleteRecord data = Inr r"
proof -
  have v: "pdr_Backend r \<noteq> 0" "length (pdr_Reason r) \<le> maxFieldBytes"
    and f: "e_finish (Version # put_u64 (pdr_Backend r) @ put_u64 (pdr_PhysicalSize r) @ field_bytes (pdr_Reason r) @ pdr_RunID r @ []) = Inr data"
    using assms(2) by (auto simp: PlacementDeleteRecord_MarshalBinary_def malformed_def e_simps rbind_Inr_iff e_bytes_ok split: if_splits)
  show ?thesis unfolding UnmarshalPlacementDeleteRecord_def
    by (rule finish_decode [OF f], intro reads_steps) (use v assms(1) in \<open>simp_all add: reads_ret\<close>)
qed

lemma PromotionEligibilityRecord_roundtrip:
  assumes "PromotionEligibilityRecord_MarshalBinary r = Inr data"
  shows "UnmarshalPromotionEligibilityRecord data = Inr r"
proof -
  have v: "\<not> PromotionEligibility_invalid r"
    and f: "e_finish (Version # put_u64 (per_SurvivalUntil r) @ put_u64 (per_EvaluatedAt r) @ [if per_Indefinite r then 1 else 0] @ []) = Inr data"
    using assms by (auto simp: PromotionEligibilityRecord_MarshalBinary_def malformed_def e_simps split: if_splits)
  show ?thesis unfolding UnmarshalPromotionEligibilityRecord_def
    by (rule finish_decode [OF f], intro reads_steps) (use v in \<open>simp add: reads_ret Let_def\<close>)
qed

lemma RepackLineageRecord_roundtrip:
  assumes "is_id (rlr_RunID r)" "RepackLineageRecord_MarshalBinary r = Inr data"
  shows "UnmarshalRepackLineageRecord data = Inr r"
proof -
  have v: "rlr_Kind r = LineageRepack \<or> rlr_Kind r = LineagePromotion" and f: "e_finish (Version # rlr_RunID r @ [rlr_Kind r] @ []) = Inr data"
    using assms(2) by (auto simp: RepackLineageRecord_MarshalBinary_def malformed_def e_simps Let_def split: if_splits)
  show ?thesis unfolding UnmarshalRepackLineageRecord_def
    by (rule finish_decode [OF f], rule reads_bind [OF reads_id], simp add: assms(1), rule reads_bind_checked [OF reads_u8]) (use v in \<open>auto simp: reads_ret\<close>)
qed

lemma PlacementRequestRecord_roundtrip:
  assumes "length (prr_Classes r) \<le> 1024" "PlacementRequestRecord_MarshalBinary r = Inr data"
  shows "UnmarshalPlacementRequestRecord data = Inr r"
proof -
  let ?cs = "prr_Classes r" and ?n = "of_nat (length (prr_Classes r)) :: u32"
  have v: "?cs \<noteq> []" "validPlacementRequestOperation (prr_Operation r)" "prr_TargetBackend r \<noteq> 0" "\<forall>c \<in> set ?cs. class_ok c"
      "length (prr_LastError r) \<le> maxFieldBytes"
    and f: "e_finish (Version # put_u32 ?n @ concat (map field_bytes ?cs) @ [prr_Operation r] @ put_u64 (prr_TargetBackend r)
      @ put_u32 (prr_Attempts r) @ put_u64 (prr_LastAttempt r) @ put_u64 (prr_NotBefore r) @ field_bytes (prr_LastError r) @ []) = Inr data"
    using assms(2) by (auto simp: PlacementRequestRecord_MarshalBinary_def malformed_def rbind_Inr_iff foldM_put [OF e_class_put] e_bytes_ok e_simps
        split: if_splits)
  have n: "unat ?n = length ?cs" using assms(1) by (simp add: unat_of_nat)
  have "0 < unat ?n" "unat ?n \<le> unat (1024 :: u32)" using n v(1) assms(1) by simp_all
  then have c: "\<not> (?n = 0 \<or> ?n > 1024)" unfolding word_less_nat_alt not_less [symmetric] by auto
  show ?thesis unfolding UnmarshalPlacementRequestRecord_def
    by (rule finish_decode [OF f], rule reads_bind_checked [OF reads_u32], unfold n, intro reads_bind [OF class_field.reads_list] reads_steps)
      (use v c in \<open>simp_all add: reads_ret\<close>)
qed

lemma PackRecord_roundtrip:
  assumes "\<forall>i \<in> set (pr_SourceIndexIDs r). is_id i" "PackRecord_MarshalBinary r = Inr data"
  shows "UnmarshalPackRecord data = Inr (PackRecord_normalized r)"
proof -
  define s where "s = PackRecord_normalized r"
  let ?ids = "pr_SourceIndexIDs s" and ?n = "of_nat (length (pr_SourceIndexIDs s)) :: u32"
  have ids: "\<forall>i \<in> set ?ids. is_id i" using assms(1) by (simp add: s_def PackRecord_normalized_def Let_def)
  have v: "PackRecord_check s = Inr ()" "length (pr_StorageClass s) \<le> maxFieldBytes"
    and f: "e_finish (Version # [pr_Type s] @ put_u64 (pr_PhysicalSize s) @ put_u64 (pr_PayloadSize s) @ put_u64 (pr_HeaderSize s)
      @ put_u64 (pr_BlobCount s) @ put_u64 (pr_CreationTime s) @ [if pr_CreationTimeKnown s then 1 else 0] @ [pr_Lifecycle s]
      @ put_u32 ?n @ concat (map (\<lambda>i. i) ?ids) @ [if pr_PhysicalSizeKnown s then 1 else 0]
      @ ([pr_Tier s] @ field_bytes (pr_StorageClass s) @ put_u64 (pr_MinRetentionUntil s) @ [pr_RetentionSource s]
      @ [if pr_UsageKnown s then 1 else 0] @ put_u64 (pr_UsedPayloadBytes s) @ put_u64 (pr_UnusedPayloadBytes s) @ put_u64 (pr_DeleteAfter s) @ [])
      @ []) = Inr data"
    using assms(2) unfolding PackRecord_MarshalBinary_def s_def [symmetric] Let_def
    by (auto simp: rbind_Inr_iff e_bytes_ok e_bool_put e_simps foldl_put [where put = "\<lambda>i. i"])
  have n: "unat ?n = length ?ids" using f length_ids [OF ids] by (intro count_u32) (simp add: e_finish_ok)
  show ?thesis unfolding UnmarshalPackRecord_def s_def [symmetric]
    by (rule finish_decode [OF f], (rule reads_steps)+, rule reads_bind_checked [OF reads_u32], unfold n d_pack_tail_def,
        rule reads_bind [OF id_field.reads_list [OF ids]], rule reads_bind [OF reads_more [OF reads_bool]], simp,
        rule reads_bind [OF reads_more], (rule reads_steps)+, rule v, (rule reads_steps)+, rule reads_ret)
      (use v ids length_ids [OF ids] in \<open>simp_all add: reads_done\<close>)
qed

lemma PackAggregate_roundtrip:
  assumes "PackAggregate_MarshalBinary r = Inr data"
  shows "UnmarshalPackAggregate data = Inr r"
proof -
  have f: "e_finish (Version # put_u64 (pa_PackCount r) @ put_u64 (pa_PhysicalSize r) @ put_u64 (pa_PayloadSize r) @ put_u64 (pa_HeaderSize r)
      @ put_u64 (pa_BlobCount r) @ put_u64 (pa_UpdateSequence r)
      @ (put_u64 (pa_UsedPayloadBytes r) @ put_u64 (pa_UnusedPayloadBytes r) @ put_u64 (pa_AccountedPackCount r) @ []) @ []) = Inr data"
    using assms by (simp add: PackAggregate_MarshalBinary_def e_simps)
  have ne: "put_u64 a @ bs \<noteq> []" for a bs by (auto dest: arg_cong [where f = length])
  show ?thesis unfolding UnmarshalPackAggregate_def
    by (rule finish_decode [OF f], (rule reads_steps)+, rule reads_bind [OF reads_more], (rule reads_steps)+, rule reads_ret, rule ne)
      (simp add: reads_ret)
qed

lemma CurrentPointer_roundtrip:
  assumes "CurrentPointer_MarshalBinary r = Inr data"
  shows "UnmarshalCurrentPointer data = Inr r"
proof -
  have v: "cp_Revision r \<noteq> 0" "pointer_target_ok (cp_RecordKey r) (cp_Revision r)" "length (cp_RecordKey r) \<le> maxFieldBytes"
    and f: "e_finish (Version # put_u64 (cp_Revision r) @ field_bytes (cp_RecordKey r) @ []) = Inr data"
    using assms by (auto simp: CurrentPointer_MarshalBinary_def malformed_def e_simps rbind_Inr_iff e_bytes_ok split: if_splits)
  show ?thesis unfolding UnmarshalCurrentPointer_def
    by (rule finish_decode [OF f], rule reads_bind_checked [OF reads_u64(1)], rule reads_bind [OF reads_bytes(1)])
      (use v in \<open>simp_all add: reads_ret\<close>)
qed

section \<open>What decoding yields\<close>

text \<open>\<open>yields m P\<close>: every value the step \<open>m\<close> returns satisfies \<open>P\<close>.\<close>

definition yields :: "'a dec \<Rightarrow> ('a \<Rightarrow> bool) \<Rightarrow> bool" where
  "yields m P \<longleftrightarrow> (\<forall>d v d'. m d = Inr (v, d') \<longrightarrow> P v)"

lemma yields_any: "yields m (\<lambda>_. True)"
  by (simp add: yields_def)

lemma yields_ret: "P v \<Longrightarrow> yields (dret v) P"
  by (simp add: yields_def dret_def)

lemma yields_fail: "yields (dfail m) P"
  by (simp add: yields_def dfail_def malformed_def)

lemma yields_if: "(c \<Longrightarrow> yields a P) \<Longrightarrow> (\<not> c \<Longrightarrow> yields b P) \<Longrightarrow> yields (if c then a else b) P"
  by simp

lemma yields_bind:
  assumes "yields m P" "\<And>v. P v \<Longrightarrow> yields (f v) Q"
  shows "yields (dbind m f) Q"
  unfolding yields_def
proof (intro allI impI)
  fix d w d'
  assume "dbind m f d = Inr (w, d')"
  then obtain v d1 where "m d = Inr (v, d1)" "f v d1 = Inr (w, d')" by (auto simp: dbind_def rbind_Inr_iff)
  moreover from this(1) assms(1) have "P v" unfolding yields_def by blast
  ultimately show "Q w" using assms(2) [of v] unfolding yields_def by blast
qed

lemmas yields_step = yields_bind [OF yields_any]

lemma yields_checked: "yields (d_checked m bad msg) (\<lambda>v. \<exists>n. \<not> bad v n)"
  by (auto simp: yields_def d_checked_def malformed_def split: sum.splits if_splits)

lemma yields_more: "yields m P \<Longrightarrow> yields m' P \<Longrightarrow> yields (d_more m m') P"
  by (auto simp: yields_def d_more_def)

lemma yields_list: "yields m P \<Longrightarrow> yields (d_list m n) (\<lambda>xs. length xs = n \<and> (\<forall>x \<in> set xs. P x))"
  by (induction n) (auto intro!: yields_ret elim!: yields_bind)

lemma yields_decode: "yields m P \<Longrightarrow> decode m data = Inr v \<Longrightarrow> P v"
  by (auto simp: decode_def rbind_Inr_iff yields_def)

lemma yields_take: "yields (d_take n) (\<lambda>bs. length bs = n)"
  by (auto simp: yields_def d_take_def malformed_def split: if_splits)

lemma yields_id: "yields d_id is_id"
  using yields_take [of 32] by (simp add: d_id_def is_id_def [abs_def] idSize_def)

lemma yields_bytes: "yields d_bytes (\<lambda>v. length v \<le> maxFieldBytes)" "yields d_string (\<lambda>v. length v \<le> maxFieldBytes)"
proof -
  have "yields (d_take (unat n)) (\<lambda>v. length v \<le> maxFieldBytes)" if "\<not> unat n > maxFieldBytes" for n :: u32
    using yields_take [of "unat n"] that by (simp add: yields_def)
  then show "yields d_bytes (\<lambda>v. length v \<le> maxFieldBytes)" unfolding d_bytes_def by (intro yields_step yields_if yields_fail)
  then show "yields d_string (\<lambda>v. length v \<le> maxFieldBytes)" by (simp add: d_string_def)
qed

lemma yields_check: "(g = Inr () \<Longrightarrow> P v) \<Longrightarrow> yields (\<lambda>d. rbind g (\<lambda>_. Inr (v, d))) P"
  by (auto simp: yields_def rbind_Inr_iff)

lemma BlobRecord_typed:
  assumes "UnmarshalBlobRecord data = Inr r"
  shows "br_Locations r \<noteq> [] \<and> (\<forall>l \<in> set (br_Locations r). location_ok l)"
proof -
  have l: "yields d_location location_ok" unfolding d_location_def
    by (rule yields_bind [OF yields_id], intro yields_step yields_if yields_fail yields_ret) (simp add: location_ok_def)
  have "yields (dbind (d_checked d_u32 (\<lambda>count n. count = 0 \<or> unat count * 49 > n) ''invalid blob location count'')
     (\<lambda>count. dbind (d_list d_location (unat count)) (\<lambda>ls. dret \<lparr>br_Locations = ls\<rparr>)))
     (\<lambda>r. br_Locations r \<noteq> [] \<and> (\<forall>l \<in> set (br_Locations r). location_ok l))"
    by (rule yields_bind [OF yields_checked], rule yields_bind [OF yields_list [OF l]], rule yields_ret)
      (auto simp: unat_eq_zero)
  from yields_decode [OF this assms [unfolded UnmarshalBlobRecord_def]] show ?thesis .
qed

lemma PlacementRecord_typed: "UnmarshalPlacementRecord data = Inr r \<Longrightarrow> PlacementRecord_validate r = Inr ()"
  unfolding UnmarshalPlacementRecord_def
  by (erule yields_decode [where P = "\<lambda>r. PlacementRecord_validate r = Inr ()", rotated]) (unfold Let_def, intro yields_step yields_check)

lemma CurrentPointer_typed: "UnmarshalCurrentPointer data = Inr r \<Longrightarrow> cp_Revision r \<noteq> 0 \<and> pointer_target_ok (cp_RecordKey r) (cp_Revision r)"
  unfolding UnmarshalCurrentPointer_def
  by (erule yields_decode [where P = "\<lambda>r. cp_Revision r \<noteq> 0 \<and> pointer_target_ok (cp_RecordKey r) (cp_Revision r)", rotated],
      rule yields_bind [OF yields_checked]) (intro yields_step yields_if yields_fail yields_ret, simp)

lemma PackRecord_typed:
  assumes "UnmarshalPackRecord data = Inr r"
  shows "PackRecord_check r = Inr () \<and> (\<forall>i \<in> set (pr_SourceIndexIDs r). is_id i) \<and> length (pr_StorageClass r) \<le> maxFieldBytes"
proof -
  have t: "yields (d_pack_tail s) (\<lambda>r. pr_SourceIndexIDs r = pr_SourceIndexIDs s \<and> length (pr_StorageClass r) \<le> maxFieldBytes)"
    if "pr_StorageClass s = []" for s
    unfolding d_pack_tail_def
    by (rule yields_more, rule yields_step, rule yields_bind [OF yields_bytes(2)]; (intro yields_step yields_ret)?) (simp_all add: that)
  show ?thesis
    by (rule yields_decode [where P = "\<lambda>r. PackRecord_check r = Inr () \<and> (\<forall>i \<in> set (pr_SourceIndexIDs r). is_id i)
        \<and> length (pr_StorageClass r) \<le> maxFieldBytes", OF _ assms [unfolded UnmarshalPackRecord_def]],
        rule yields_step, rule yields_step, rule yields_step,
        rule yields_step, rule yields_step, rule yields_step, rule yields_step, rule yields_step, rule yields_step,
        rule yields_bind [OF yields_list [OF yields_id]], rule yields_step, rule yields_bind [OF t], simp, rule yields_check) simp
qed

lemma PackRecord_check_normalized:
  assumes "PackRecord_check r = Inr ()"
  shows "PackRecord_normalized r = r"
proof -
  from assms have "validatePackLifetime r = Inr ()" unfolding PackRecord_check_def by (simp add: malformed_def split: if_splits)
  then have "validPackTier (pr_Tier r) \<and> validRetentionSource (pr_RetentionSource r)" unfolding validatePackLifetime_def
    by (cases "validPackTier (pr_Tier r) \<and> validRetentionSource (pr_RetentionSource r)") (auto simp: malformed_def)
  then have "pr_Tier r \<noteq> 0" "pr_RetentionSource r \<noteq> 0" by (auto simp: validPackTier_def validRetentionSource_def)
  then show ?thesis by (simp add: PackRecord_normalized_def)
qed

section \<open>Main results\<close>

definition sample_location :: BlobLocation where
  "sample_location = \<lparr>loc_PackID = replicate 32 7, loc_Offset = 5, loc_Length = 9, loc_UncompressedSize = 0, loc_Type = BlobTree\<rparr>"

definition sample_placement :: PlacementRecord where
  "sample_placement = \<lparr>plr_State = PlacementPending, plr_StorageClass = [], plr_PlacedAt = 0, plr_PlacementTimeKnown = False, plr_Bytes = 1,
     plr_MinRetentionUntil = 0, plr_RetentionSource = RetentionUnknown, plr_DeleteAfter = 0, plr_LastVerifiedAt = 0\<rparr>"

definition sample_pointer :: CurrentPointer where
  "sample_pointer = \<lparr>cp_Revision = 3, cp_RecordKey = InodeRevisionKey 1 2 3\<rparr>"

definition sample_pack :: PackRecord where
  "sample_pack = \<lparr>pr_Type = PackData, pr_PhysicalSize = 9, pr_PayloadSize = 7, pr_HeaderSize = 2, pr_BlobCount = 1, pr_PhysicalSizeKnown = True,
     pr_CreationTime = 0, pr_CreationTimeKnown = False, pr_Lifecycle = PackImported, pr_SourceIndexIDs = [], pr_Tier = TierUnknown,
     pr_StorageClass = [], pr_MinRetentionUntil = 0, pr_RetentionSource = RetentionUnknown, pr_UsedPayloadBytes = 4,
     pr_UnusedPayloadBytes = 3, pr_UsageKnown = True, pr_DeleteAfter = 0\<rparr>"

lemma sample_records:
  "\<exists>d. UnmarshalBlobRecord d = Inr \<lparr>br_Locations = [sample_location]\<rparr>" "\<exists>d. UnmarshalPlacementRecord d = Inr sample_placement"
  "\<exists>d. UnmarshalCurrentPointer d = Inr sample_pointer" "\<exists>d. UnmarshalPackRecord d = Inr sample_pack"
proof -
  have "\<exists>d. BlobRecord_MarshalBinary \<lparr>br_Locations = [sample_location]\<rparr> = Inr d"
    by (simp add: BlobRecord_MarshalBinary_def sample_location_def e_location_def e_simps e_finish_def MaxEncodedValueBytes_def)
  then show "\<exists>d. UnmarshalBlobRecord d = Inr \<lparr>br_Locations = [sample_location]\<rparr>"
    using BlobRecord_roundtrip [of "\<lparr>br_Locations = [sample_location]\<rparr>"] by (auto simp: sample_location_def is_id_def idSize_def)
  have "PlacementRecord_normalized sample_placement = sample_placement" by (simp add: PlacementRecord_normalized_def sample_placement_def)
  moreover have "\<exists>d. PlacementRecord_MarshalBinary sample_placement = Inr d"
    unfolding PlacementRecord_MarshalBinary_def calculation Let_def
    by (simp add: PlacementRecord_validate_def PlacementRecord_normalized_def sample_placement_def validPlacementState_def validRetentionSource_def
        e_string_def e_bytes_def e_simps e_finish_def MaxEncodedValueBytes_def)
  ultimately show "\<exists>d. UnmarshalPlacementRecord d = Inr sample_placement" using PlacementRecord_roundtrip [of sample_placement] by auto
  have "pointer_target_ok (InodeRevisionKey 1 2 3) 3"
    using ParseKey_of [OF key_of.intros(9), of 1 2 3] by (simp add: pointer_target_ok_def parsed_def)
  then have "\<exists>d. CurrentPointer_MarshalBinary sample_pointer = Inr d"
    by (simp add: CurrentPointer_MarshalBinary_def sample_pointer_def e_bytes_def e_simps e_finish_def MaxEncodedValueBytes_def maxFieldBytes_def
        InodeRevisionKey_def revisionKey_def)
  then show "\<exists>d. UnmarshalCurrentPointer d = Inr sample_pointer" using CurrentPointer_roundtrip by blast
  have "PackRecord_normalized sample_pack = sample_pack" by (simp add: PackRecord_normalized_def sample_pack_def)
  moreover have "PackRecord_check sample_pack = Inr ()"
    by (simp add: PackRecord_check_def validatePackLifetime_def sample_pack_def validPackType_def validPackLifecycle_def validPackTier_def
        validRetentionSource_def add_u64_def)
  then have "\<exists>d. PackRecord_MarshalBinary sample_pack = Inr d" unfolding PackRecord_MarshalBinary_def calculation Let_def
    by (simp add: sample_pack_def e_string_def e_bytes_def e_simps e_finish_def MaxEncodedValueBytes_def)
  ultimately show "\<exists>d. UnmarshalPackRecord d = Inr sample_pack"
    using PackRecord_roundtrip [of sample_pack] by (auto simp: sample_pack_def)
qed

text \<open>A request of \<open>n\<close> equal classes, and that it is written when it fits the value limit.\<close>

definition crowded_request :: "nat \<Rightarrow> PlacementRequestRecord" where
  "crowded_request n = \<lparr>prr_Classes = replicate n [97], prr_Operation = PlacementRequestPlace, prr_TargetBackend = 1, prr_Attempts = 0,
     prr_LastAttempt = 0, prr_NotBefore = 0, prr_LastError = []\<rparr>"

lemma field_bytes_length: "length cs \<le> length (concat (map field_bytes cs))"
  by (induction cs) (simp_all add: field_bytes_def)

lemma crowded_request_written:
  assumes "0 < n" "n \<le> 2000"
  shows "\<exists>data. PlacementRequestRecord_MarshalBinary (crowded_request n) = Inr data"
proof -
  let ?cs = "replicate n [97] :: bytes list"
  have f: "foldM e_class e ?cs = Inr (e @ concat (map field_bytes ?cs))" for e
    unfolding foldM_put [OF e_class_put] by (auto simp: class_ok_def maxFieldBytes_def MaxEncodedValueBytes_def)
  have e: "e_string e [] = Inr (e @ field_bytes [])" for e by (simp add: e_bytes_ok)
  have "length (concat (map field_bytes ?cs)) = 5 * n" by (induction n) (simp_all add: field_bytes_def)
  then show ?thesis using assms
    by (simp add: PlacementRequestRecord_MarshalBinary_def crowded_request_def validPlacementRequestOperation_def f e e_simps e_finish_def
        field_bytes_def MaxEncodedValueBytes_def)
qed

text \<open>C38: Every record that can be written is read back as it was, with unset enumerations made explicit as unknown: for each
  record type of the catalog, \<^verbatim>\<open>Unmarshal\<close> of the bytes \<^verbatim>\<open>MarshalBinary\<close> returned gives the record (a placement request with
  at most 1024 classes).\<close>

theorem records_roundtrip:
  "((\<forall>l \<in> set (br_Locations br). is_id (loc_PackID l)) \<longrightarrow> BlobRecord_MarshalBinary br = Inr data \<longrightarrow> UnmarshalBlobRecord data = Inr br)
   \<and> (PlacementRecord_MarshalBinary pl = Inr data \<longrightarrow> UnmarshalPlacementRecord data = Inr (PlacementRecord_normalized pl))
   \<and> (BackendPackRecord_MarshalBinary bp = Inr data \<longrightarrow> UnmarshalBackendPackRecord data = Inr bp)
   \<and> (is_id (pdr_RunID pd) \<longrightarrow> PlacementDeleteRecord_MarshalBinary pd = Inr data \<longrightarrow> UnmarshalPlacementDeleteRecord data = Inr pd)
   \<and> (PromotionEligibilityRecord_MarshalBinary pe = Inr data \<longrightarrow> UnmarshalPromotionEligibilityRecord data = Inr pe)
   \<and> (is_id (rlr_RunID rl) \<longrightarrow> RepackLineageRecord_MarshalBinary rl = Inr data \<longrightarrow> UnmarshalRepackLineageRecord data = Inr rl)
   \<and> (length (prr_Classes rq) \<le> 1024 \<longrightarrow> PlacementRequestRecord_MarshalBinary rq = Inr data \<longrightarrow> UnmarshalPlacementRequestRecord data = Inr rq)
   \<and> ((\<forall>i \<in> set (pr_SourceIndexIDs pr). is_id i) \<longrightarrow> PackRecord_MarshalBinary pr = Inr data \<longrightarrow>
        UnmarshalPackRecord data = Inr (PackRecord_normalized pr))
   \<and> (PackAggregate_MarshalBinary pa = Inr data \<longrightarrow> UnmarshalPackAggregate data = Inr pa)
   \<and> (CurrentPointer_MarshalBinary cp = Inr data \<longrightarrow> UnmarshalCurrentPointer data = Inr cp)"
  by (intro conjI impI BlobRecord_roundtrip PlacementRecord_roundtrip BackendPackRecord_roundtrip PlacementDeleteRecord_roundtrip
      PromotionEligibilityRecord_roundtrip RepackLineageRecord_roundtrip PlacementRequestRecord_roundtrip PackRecord_roundtrip
      PackAggregate_roundtrip CurrentPointer_roundtrip)

theorem records_roundtrip_witness:
  "\<exists>data. BlobRecord_MarshalBinary \<lparr>br_Locations = [sample_location]\<rparr> = Inr data
     \<and> UnmarshalBlobRecord data = Inr \<lparr>br_Locations = [sample_location]\<rparr>"
proof -
  let ?r = "\<lparr>br_Locations = [sample_location]\<rparr>" and ?d = "[0] @ put_u32 1 @ location_bytes sample_location"
  have "BlobRecord_MarshalBinary ?r = Inr ?d"
    by (simp add: BlobRecord_MarshalBinary_def sample_location_def e_location_def location_bytes_def e_simps e_finish_def MaxEncodedValueBytes_def)
  moreover have "\<forall>l \<in> set (br_Locations ?r). is_id (loc_PackID l)" by (simp add: sample_location_def is_id_def idSize_def)
  ultimately show ?thesis using records_roundtrip [of ?r ?d] by blast
qed

text \<open>C39: Decoding only yields well-formed records, whatever the bytes are: a blob record has a location and only data and tree
  locations, a placement and a pack record satisfy the checks made on writing, and a current pointer names an inode or
  directory revision with its own revision number. A decoded pack record can always be written again, unless it has become too large.\<close>

theorem records_typed:
  assumes "UnmarshalBlobRecord d1 = Inr br" and "UnmarshalPlacementRecord d2 = Inr pl" and "UnmarshalCurrentPointer d3 = Inr cp"
    and "UnmarshalPackRecord d4 = Inr pr"
  shows "br_Locations br \<noteq> [] \<and> (\<forall>l \<in> set (br_Locations br). location_ok l)
    \<and> PlacementRecord_validate pl = Inr ()
    \<and> cp_Revision cp \<noteq> 0 \<and> pointer_target_ok (cp_RecordKey cp) (cp_Revision cp)
    \<and> PackRecord_check pr = Inr () \<and> PackRecord_normalized pr = pr
    \<and> (PackRecord_MarshalBinary pr = malformed ''encoded value is too large'' \<or> (\<exists>data. PackRecord_MarshalBinary pr = Inr data))"
proof -
  note p = PackRecord_typed [OF assms(4)]
  have n: "PackRecord_normalized pr = pr" using p PackRecord_check_normalized by blast
  have "e_string e (pr_StorageClass pr) = Inr (e @ field_bytes (pr_StorageClass pr))" for e using p by (simp add: e_bytes_ok)
  then have "PackRecord_MarshalBinary pr = malformed ''encoded value is too large'' \<or> (\<exists>data. PackRecord_MarshalBinary pr = Inr data)"
    using p unfolding PackRecord_MarshalBinary_def n Let_def e_finish_def by simp
  then show ?thesis using p n BlobRecord_typed [OF assms(1)] PlacementRecord_typed [OF assms(2)] CurrentPointer_typed [OF assms(3)] by simp
qed

theorem records_typed_witness:
  "PackRecord_check sample_pack = Inr () \<and> PlacementRecord_validate sample_placement = Inr ()
   \<and> pointer_target_ok (cp_RecordKey sample_pointer) (cp_Revision sample_pointer) \<and> location_ok sample_location"
proof -
  obtain d1 d2 d3 d4 where "UnmarshalBlobRecord d1 = Inr \<lparr>br_Locations = [sample_location]\<rparr>" "UnmarshalPlacementRecord d2 = Inr sample_placement"
    "UnmarshalCurrentPointer d3 = Inr sample_pointer" "UnmarshalPackRecord d4 = Inr sample_pack" using sample_records by blast
  from records_typed [OF this] show ?thesis by simp
qed

text \<open>C40: A placement request with more than 1024 classes can be written and never be read: \<^verbatim>\<open>MarshalBinary\<close> puts no bound on
  the classes, and \<^verbatim>\<open>UnmarshalPlacementRequestRecord\<close> rejects what it returned for such a request.\<close>

theorem crowded_request_unreadable:
  assumes "length (prr_Classes r) > 1024" and "PlacementRequestRecord_MarshalBinary r = Inr data"
  shows "UnmarshalPlacementRequestRecord data = malformed ''invalid placement request class count''"
proof -
  let ?cs = "prr_Classes r" and ?n = "of_nat (length (prr_Classes r)) :: u32"
  obtain tail where f: "e_finish (Version # put_u32 ?n @ concat (map field_bytes ?cs) @ tail) = Inr data"
    using assms(2) by (auto simp: PlacementRequestRecord_MarshalBinary_def malformed_def rbind_Inr_iff foldM_put [OF e_class_put] e_bytes_ok e_simps
        split: if_splits)
  then have data: "data = [Version] @ put_u32 ?n @ concat (map field_bytes ?cs) @ tail" "length data \<le> MaxEncodedValueBytes"
    by (auto simp: e_finish_ok)
  then have "unat ?n = length ?cs" using field_bytes_length [of ?cs] by (intro count_u32) simp
  then have big: "?n > 1024" using assms(1) by (simp add: word_less_nat_alt)
  have "d_u32 \<lparr>dec_data = data, dec_at = length [Version]\<rparr> = Inr (?n, \<lparr>dec_data = data, dec_at = length [Version] + length (put_u32 ?n)\<rparr>)"
    using data(2) unfolding data(1) by (intro readsD [OF reads_u32]) simp
  then show ?thesis using data big
    by (simp add: UnmarshalPlacementRequestRecord_def decode_def newDecoder_def dbind_def d_checked_def malformed_def)
qed

theorem crowded_request_unreadable_witness:
  "\<exists>data. PlacementRequestRecord_MarshalBinary (crowded_request 1025) = Inr data
     \<and> UnmarshalPlacementRequestRecord data = malformed ''invalid placement request class count''"
proof -
  obtain data where "PlacementRequestRecord_MarshalBinary (crowded_request 1025) = Inr data" using crowded_request_written [of 1025] by auto
  moreover have "length (prr_Classes (crowded_request 1025)) > 1024" unfolding crowded_request_def by (simp only: PlacementRequestRecord.simps length_replicate)
  ultimately show ?thesis using crowded_request_unreadable by blast
qed

end
