(* ===== verification/Spec2Isabelle.thy ===== *)
theory Spec2Isabelle
  imports Prune_Plan Prune_Correct Associated_Set Schema_Records
begin

text \<open>
  \<^bold>\<open>A verification development for the repository core of vaultic.\<close>

  vaultic is an encrypted, deduplicating backup program. A repository stores \<^emph>\<open>blobs\<close> (file contents and
  directory trees), identified by the SHA-256 of their plaintext. Blobs are sealed and collected in
  \<^emph>\<open>pack files\<close>; an \<^emph>\<open>index\<close> maps each blob to the packs that hold it.

  \<^bold>\<open>Theories and what they model\<close> (paths are below \<^verbatim>\<open>src/\<close>).

  \<^item> \<^verbatim>\<open>Vaultic_Prelude\<close>: Go's fixed-width integers as words, errors and panics as values, sequencing
    of fallible steps, byte-order codecs.
  \<^item> \<^verbatim>\<open>Vaultic_Ids\<close>: \<^verbatim>\<open>internal/vaultic/id.go\<close>, \<^verbatim>\<open>blob.go\<close>: IDs, blob types and handles with their
    text and JSON forms.
  \<^item> \<^verbatim>\<open>Crypto\<close>: \<^verbatim>\<open>internal/repository/crypto\<close>: \<^verbatim>\<open>Seal\<close> and \<^verbatim>\<open>Open\<close> over an arbitrary block cipher and
    one-time authenticator.
  \<^item> \<^verbatim>\<open>Pack\<close>: \<^verbatim>\<open>internal/repository/pack\<close>: the packer, the header codec, the reader.
  \<^item> \<^verbatim>\<open>Hashed_Array_Tree\<close>, \<^verbatim>\<open>Index_Map\<close>: \<^verbatim>\<open>internal/repository/index/indexmap.go\<close>: the array of
    entries and the hash table on top of it.
  \<^item> \<^verbatim>\<open>Blob_Index\<close>: \<^verbatim>\<open>internal/repository/index/index.go\<close>: the index.
\<close>

end
